(* ===== verification/Prelude.thy ===== *)
theory Prelude
  imports Main "HOL-Library.AList" "HOL-Library.Char_ord" "HOL-Library.List_Lexorder"
begin

text \<open>
  Shared vocabulary of the development.

  \<^item> Rust's \<open>Result\<close> is the sum type \<open>'e + 'a\<close> with \<open>Inl\<close> for the error; \<open>and_then\<close> is the
    \<open>?\<close> operator, \<open>ensure\<close> is \<open>anyhow::ensure!\<close> and \<open>try_map\<close> is
    \<open>iter().map(f).collect::<Result<Vec<_>, _>>()\<close>.
  \<^item> A Rust \<open>str\<close> is its UTF-8 byte sequence, a \<^typ>\<open>string\<close> (a \<^typ>\<open>char\<close> is one byte);
    \<open>rust_chars\<close> cuts such a sequence into the encodings of its code points.
  \<^item> \<open>BTreeMap<String, V>\<close> is an association list with strictly increasing keys
    (\<open>btree_insert\<close>); \<open>serde_json::Map\<close> is built with the \<open>preserve_order\<close> feature
    (\<open>Cargo.lock\<close> links \<open>serde_json\<close> against \<open>indexmap\<close>), so it is an association list in
    insertion order, updated in place by \<^const>\<open>AList.update\<close>.
\<close>

named_theorems result_simps \<open>inversion rules for the Result combinators\<close>
named_theorems map_simps \<open>lookup rules for the ordered maps\<close>

section \<open>Results\<close>

definition and_then :: "'e + 'a \<Rightarrow> ('a \<Rightarrow> 'e + 'b) \<Rightarrow> 'e + 'b" where
  "and_then m f = (case m of Inl e \<Rightarrow> Inl e | Inr x \<Rightarrow> f x)"

definition ensure :: "bool \<Rightarrow> 'e \<Rightarrow> 'e + unit" where
  "ensure b e = (if b then Inr () else Inl e)"

fun try_map :: "('a \<Rightarrow> 'e + 'b) \<Rightarrow> 'a list \<Rightarrow> 'e + 'b list" where
  "try_map f [] = Inr []"
| "try_map f (x # xs) = and_then (f x) (\<lambda>y. and_then (try_map f xs) (\<lambda>ys. Inr (y # ys)))"

lemma and_then_simps [simp]:
  "and_then (Inl e) f = Inl e" "and_then (Inr x) f = f x"
  by (simp_all add: and_then_def)

lemma and_then_cong [fundef_cong]:
  "m = m' \<Longrightarrow> (\<And>x. m' = Inr x \<Longrightarrow> f x = g x) \<Longrightarrow> and_then m f = and_then m' g"
  by (cases m') (simp_all add: and_then_def)

lemma and_then_Inr_iff [result_simps]:
  "and_then m f = Inr y \<longleftrightarrow> (\<exists>x. m = Inr x \<and> f x = Inr y)"
  by (cases m) simp_all

lemma and_then_Inl_iff [result_simps]:
  "and_then m f = Inl e \<longleftrightarrow> m = Inl e \<or> (\<exists>x. m = Inr x \<and> f x = Inl e)"
  by (cases m) simp_all

lemma ensure_Inr_iff [result_simps]: "ensure b e = Inr u \<longleftrightarrow> b"
  by (simp add: ensure_def)

lemma ensure_Inl_iff [result_simps]: "ensure b e = Inl e' \<longleftrightarrow> \<not> b \<and> e' = e"
  by (auto simp: ensure_def)

lemma ensure_simps [simp]: "ensure True e = Inr ()" "ensure False e = Inl e"
  by (simp_all add: ensure_def)

lemma try_map_Inr_iff [result_simps]:
  "try_map f xs = Inr ys \<longleftrightarrow> list_all2 (\<lambda>x y. f x = Inr y) xs ys"
  by (induction xs arbitrary: ys) (auto simp: result_simps list_all2_Cons1)

section \<open>Byte strings\<close>

abbreviation char_code :: "char \<Rightarrow> nat" where
  "char_code c \<equiv> of_char c"

definition is_ascii_digit :: "char \<Rightarrow> bool" where
  "is_ascii_digit c \<longleftrightarrow> 48 \<le> char_code c \<and> char_code c \<le> 57"

definition is_ascii_lowercase :: "char \<Rightarrow> bool" where
  "is_ascii_lowercase c \<longleftrightarrow> 97 \<le> char_code c \<and> char_code c \<le> 122"

definition is_ascii_uppercase :: "char \<Rightarrow> bool" where
  "is_ascii_uppercase c \<longleftrightarrow> 65 \<le> char_code c \<and> char_code c \<le> 90"

definition is_ascii_alphanumeric :: "char \<Rightarrow> bool" where
  "is_ascii_alphanumeric c \<longleftrightarrow> is_ascii_lowercase c \<or> is_ascii_uppercase c \<or> is_ascii_digit c"

text \<open>\<open>u8::is_ascii_whitespace\<close>: space, tab, line feed, form feed, carriage return.\<close>

definition is_ascii_whitespace :: "char \<Rightarrow> bool" where
  "is_ascii_whitespace c \<longleftrightarrow> char_code c \<in> {32, 9, 10, 12, 13}"

definition is_utf8_continuation :: "char \<Rightarrow> bool" where
  "is_utf8_continuation c \<longleftrightarrow> 128 \<le> char_code c \<and> char_code c \<le> 191"

text \<open>
  \<open>str::chars\<close>: every byte that is not a continuation byte starts a code point. A code point
  is represented by its UTF-8 encoding.
\<close>

fun rust_chars :: "string \<Rightarrow> string list" where
  "rust_chars [] = []"
| "rust_chars (c # cs) =
     (case rust_chars cs of
        [] \<Rightarrow> [[c]]
      | w # ws \<Rightarrow> if (case w of [] \<Rightarrow> False | d # _ \<Rightarrow> is_utf8_continuation d)
                  then (c # w) # ws else [c] # w # ws)"

lemma concat_rust_chars: "concat (rust_chars s) = s"
  by (induction s) (auto split: list.splits)

lemma rust_chars_ascii:
  "list_all (\<lambda>c. char_code c < 128) s \<Longrightarrow> rust_chars s = map (\<lambda>c. [c]) s"
  by (induction s) (auto simp: is_utf8_continuation_def split: list.splits)

lemma rust_chars_eq_Nil [simp]: "rust_chars s = [] \<longleftrightarrow> s = []"
  by (cases s) (auto split: list.splits)

lemma rust_chars_nonempty: "w \<in> set (rust_chars s) \<Longrightarrow> w \<noteq> []"
  by (induction s arbitrary: w) (auto split: list.splits if_splits)

text \<open>If every code point is a single byte, the code points are the bytes.\<close>

lemma rust_chars_singletons:
  "\<forall>w \<in> set (rust_chars s). \<exists>c. w = [c] \<and> P c \<Longrightarrow> rust_chars s = map (\<lambda>c. [c]) s \<and> list_all P s"
proof -
  assume single: "\<forall>w \<in> set (rust_chars s). \<exists>c. w = [c] \<and> P c"
  then obtain cs where cs: "rust_chars s = map (\<lambda>c. [c]) cs" "list_all P cs"
  proof -
    have "\<exists>cs. ws = map (\<lambda>c. [c]) cs \<and> list_all P cs"
      if "\<forall>w \<in> set ws. \<exists>c. w = [c] \<and> P c" for ws :: "string list"
      using that by (induction ws) (auto intro: exI [of _ "_ # _"])
    then show ?thesis using single that by blast
  qed
  have "s = concat (rust_chars s)" by (simp add: concat_rust_chars)
  also have "\<dots> = cs" by (simp add: cs(1))
  finally show ?thesis using cs by simp
qed

text \<open>\<open>str::split(sep)\<close>: the pieces between the separators; there is always at least one.\<close>

fun split_on :: "char \<Rightarrow> string \<Rightarrow> string list" where
  "split_on sep [] = [[]]"
| "split_on sep (c # cs) =
     (if c = sep then [] # split_on sep cs
      else (case split_on sep cs of [] \<Rightarrow> [[c]] | w # ws \<Rightarrow> (c # w) # ws))"

text \<open>\<open>str::contains(pat)\<close> for a string pattern.\<close>

fun str_contains :: "string \<Rightarrow> string \<Rightarrow> bool" where
  "str_contains pat [] \<longleftrightarrow> pat = []"
| "str_contains pat (c # cs) \<longleftrightarrow> take (length pat) (c # cs) = pat \<or> str_contains pat cs"

lemma split_on_nonempty [simp]: "split_on sep s \<noteq> []"
  by (induction s) (auto split: list.splits)

lemma split_on_no_sep: "sep \<notin> set s \<Longrightarrow> split_on sep s = [s]"
  by (induction s) auto

lemma split_on_append_sep:
  "sep \<notin> set s \<Longrightarrow> split_on sep (s @ sep # r) = s # split_on sep r"
  by (induction s) auto

lemma split_on_ConsD:
  "split_on sep s = w # ws \<Longrightarrow>
     sep \<notin> set w \<and> (if ws = [] then s = w else \<exists>r. s = w @ sep # r \<and> split_on sep r = ws)"
proof (induction s arbitrary: w)
  case Nil
  then show ?case by auto
next
  case (Cons c cs)
  show ?case
  proof (cases "c = sep")
    case True
    with Cons.prems show ?thesis by auto
  next
    case False
    with Cons.prems obtain v where w: "w = c # v" and v: "split_on sep cs = v # ws"
      by (auto split: list.splits)
    from Cons.IH [OF v] False w show ?thesis by (auto split: if_splits)
  qed
qed

lemma split_on_Cons_iff:
  "split_on sep s = w # ws \<longleftrightarrow>
     sep \<notin> set w \<and> (if ws = [] then s = w else \<exists>r. s = w @ sep # r \<and> split_on sep r = ws)"
  by (rule iffI, erule split_on_ConsD)
    (auto simp: split_on_no_sep split_on_append_sep split: if_splits)

lemma split_on_singleton_iff: "split_on sep s = [w] \<longleftrightarrow> sep \<notin> set s \<and> w = s"
  by (auto simp: split_on_Cons_iff)

lemma split_on_pair_iff:
  "split_on sep s = [v, w] \<longleftrightarrow> sep \<notin> set v \<and> sep \<notin> set w \<and> s = v @ sep # w"
  by (auto simp: split_on_Cons_iff)

lemma str_contains_set: "str_contains pat s \<Longrightarrow> set pat \<subseteq> set s"
proof (induction s)
  case (Cons c cs)
  then show ?case
    using set_take_subset [of "length pat" "c # cs"] by (auto split: if_splits)
qed simp

section \<open>Decimal numerals\<close>

definition digit_char :: "nat \<Rightarrow> char" where
  "digit_char d = char_of (48 + d)"

definition char_digit :: "char \<Rightarrow> nat" where
  "char_digit c = char_code c - 48"

fun show_nat :: "nat \<Rightarrow> string" where
  "show_nat n = (if n < 10 then [digit_char n] else show_nat (n div 10) @ [digit_char (n mod 10)])"

declare show_nat.simps [simp del]

definition digits_value :: "string \<Rightarrow> nat" where
  "digits_value s = foldl (\<lambda>acc c. acc * 10 + char_digit c) 0 s"

lemma of_char_digit_char: "d < 10 \<Longrightarrow> char_code (digit_char d) = 48 + d"
  by (simp add: digit_char_def)

lemma char_digit_digit_char [simp]: "d < 10 \<Longrightarrow> char_digit (digit_char d) = d"
  by (simp add: char_digit_def of_char_digit_char)

lemma is_digit_digit_char: "d < 10 \<Longrightarrow> is_ascii_digit (digit_char d)"
  by (simp add: is_ascii_digit_def of_char_digit_char)

lemma digits_value_snoc: "digits_value (s @ [c]) = digits_value s * 10 + char_digit c"
  by (simp add: digits_value_def)

lemma digits_value_show_nat [simp]: "digits_value (show_nat n) = n"
proof (induction n rule: show_nat.induct)
  case (1 n)
  show ?case
  proof (cases "n < 10")
    case True
    then show ?thesis by (subst show_nat.simps) (simp add: digits_value_def)
  next
    case False
    with "1" have "digits_value (show_nat (n div 10)) = n div 10" by simp
    with False show ?thesis by (subst show_nat.simps) (simp add: digits_value_snoc)
  qed
qed

lemma show_nat_digits: "list_all is_ascii_digit (show_nat n)"
proof (induction n rule: show_nat.induct)
  case (1 n)
  show ?case
  proof (cases "n < 10")
    case True
    then show ?thesis by (subst show_nat.simps) (simp add: is_digit_digit_char)
  next
    case False
    with "1" have "list_all is_ascii_digit (show_nat (n div 10))" by simp
    with False show ?thesis by (subst show_nat.simps) (simp add: is_digit_digit_char)
  qed
qed

lemma show_nat_nonempty [simp]: "show_nat n \<noteq> []"
  by (subst show_nat.simps) simp

lemma show_nat_inject: "show_nat m = show_nat n \<Longrightarrow> m = n"
  using digits_value_show_nat by metis

section \<open>Ordered maps\<close>

fun btree_insert :: "string \<Rightarrow> 'v \<Rightarrow> (string \<times> 'v) list \<Rightarrow> (string \<times> 'v) list" where
  "btree_insert k v [] = [(k, v)]"
| "btree_insert k v ((k', v') # m) =
     (if k < k' then (k, v) # (k', v') # m
      else if k = k' then (k, v) # m
      else (k', v') # btree_insert k v m)"

lemma set_btree_insert:
  "set (btree_insert k v m) \<subseteq> insert (k, v) (set m)"
  by (induction k v m rule: btree_insert.induct) auto

lemma fst_set_btree_insert [map_simps]:
  "fst ` set (btree_insert k v m) = insert k (fst ` set m)"
  by (induction k v m rule: btree_insert.induct) auto

lemma sorted_btree_insert:
  "sorted_wrt (<) (map fst m) \<Longrightarrow> sorted_wrt (<) (map fst (btree_insert k v m))"
proof (induction k v m rule: btree_insert.induct)
  case (2 k v k' v' m)
  have keys: "fst ` set (btree_insert k v m) = insert k (fst ` set m)"
    by (rule fst_set_btree_insert)
  from 2 show ?case
    using keys by (fastforce simp: image_iff)
qed simp

lemma map_of_btree_insert [map_simps]: "map_of (btree_insert k v m) = (map_of m)(k \<mapsto> v)"
  by (induction k v m rule: btree_insert.induct) (auto simp: fun_eq_iff)

section \<open>Lists\<close>

text \<open>\<open>iter().enumerate().filter(p).map(|(i, _)| i)\<close>: the positions of the elements that satisfy \<open>p\<close>.\<close>

definition indices_where :: "('a \<Rightarrow> bool) \<Rightarrow> 'a list \<Rightarrow> nat list" where
  "indices_where p xs = filter (\<lambda>i. p (xs ! i)) [0..<length xs]"

lemma set_indices_where: "set (indices_where p xs) = {i. i < length xs \<and> p (xs ! i)}"
  by (auto simp: indices_where_def)

lemma sorted_indices_where: "sorted_wrt (<) (indices_where p xs)"
  by (simp add: indices_where_def sorted_wrt_filter)

lemma distinct_indices_where: "distinct (indices_where p xs)"
  by (simp add: indices_where_def)

section \<open>Canonical forms\<close>

text \<open>
  What the clients of a textual format rely on: a parser whose results are valid, and a display
  form that parses back. Equal display forms then name the same value, and re-parsing what was
  stored changes nothing.
\<close>

locale canonical_form =
  fixes parse :: "string \<Rightarrow> 'e + 'a"
    and display :: "'a \<Rightarrow> string"
    and valid :: "'a \<Rightarrow> bool"
  assumes parse_display: "valid x \<Longrightarrow> parse (display x) = Inr x"
    and parse_valid: "parse s = Inr x \<Longrightarrow> valid x"
begin

lemma reparse: "parse s = Inr x \<Longrightarrow> parse (display x) = Inr x"
  using parse_display parse_valid by blast

lemma display_inject: "valid x \<Longrightarrow> valid y \<Longrightarrow> display x = display y \<Longrightarrow> x = y"
  using parse_display by (metis sum.inject(2))

lemma parsed_display_inject:
  "parse s = Inr x \<Longrightarrow> parse t = Inr y \<Longrightarrow> display x = display y \<longleftrightarrow> x = y"
  using display_inject parse_valid by blast

end

end
