(* ===== verification/AgentIdentity.thy ===== *)
theory AgentIdentity
  imports Prelude
begin

text \<open>
  The logical identity layer, \<open>src/core/agent/id.rs\<close>: \<open>AgentId\<close> (\<open>tenant/name\<close>, with the
  shorthand \<open>name\<close> for the default tenant), \<open>AbilityName\<close> (a method name) and \<open>NodeId\<close> (a
  hosting-substrate handle). The three types are values behind a validating parser; the locale
  \<open>canonical_form\<close> states what a client of such a type relies on, and is interpreted for each of
  them.
\<close>

section \<open>Types and errors\<close>

record agent_id =
  tenant :: string
  name :: string

datatype ability_name = AbilityName (ability_str: string)

datatype node_id = NodeId (node_str: string)

datatype agent_id_error =
    Empty
  | EmptySegment string
  | SegmentTooLong string nat nat
  | InvalidChar string string
  | UppercaseRejected string
  | ReservedV2 string
  | WrongLayer

datatype node_id_error =
    NodeEmpty
  | NodeTooLong nat nat
  | NodeInvalidChar string
  | NodeUppercaseRejected

definition DEFAULT_TENANT :: string where
  "DEFAULT_TENANT = ''default''"

definition MAX_SEGMENT_LEN :: nat where
  "MAX_SEGMENT_LEN = 63"

definition MAX_NODE_ID_LEN :: nat where
  "MAX_NODE_ID_LEN = 128"

section \<open>Validation\<close>

text \<open>The character classes of the two validators, on code points.\<close>

definition char_is :: "(char \<Rightarrow> bool) \<Rightarrow> string \<Rightarrow> bool" where
  "char_is p ch = (case ch of [c] \<Rightarrow> p c | _ \<Rightarrow> False)"

definition segment_char :: "char \<Rightarrow> bool" where
  "segment_char c \<longleftrightarrow> is_ascii_lowercase c \<or> is_ascii_digit c \<or> c = CHR ''_'' \<or> c = CHR ''-''"

definition ability_char :: "char \<Rightarrow> bool" where
  "ability_char c \<longleftrightarrow>
     is_ascii_lowercase c \<or> is_ascii_digit c \<or> c = CHR ''_'' \<or> c = CHR ''-'' \<or> c = CHR ''.''"

fun check_chars :: "(char \<Rightarrow> bool) \<Rightarrow> 'e \<Rightarrow> (string \<Rightarrow> 'e) \<Rightarrow> string list \<Rightarrow> 'e + unit" where
  "check_chars ok upper invalid [] = Inr ()"
| "check_chars ok upper invalid (ch # chs) =
     (if char_is is_ascii_uppercase ch then Inl upper
      else if \<not> char_is ok ch then Inl (invalid ch)
      else check_chars ok upper invalid chs)"

definition validate_segment :: "string \<Rightarrow> string \<Rightarrow> agent_id_error + unit" where
  "validate_segment s which =
     (if s = [] then Inl (EmptySegment which)
      else if MAX_SEGMENT_LEN < length (rust_chars s)
        then Inl (SegmentTooLong which (length (rust_chars s)) MAX_SEGMENT_LEN)
      else check_chars segment_char (UppercaseRejected which) (InvalidChar which) (rust_chars s))"

definition validate_ability_segment :: "string \<Rightarrow> agent_id_error + unit" where
  "validate_ability_segment s =
     (let which = ''ability'' in
      if s = [] then Inl (EmptySegment which)
      else if MAX_SEGMENT_LEN < length (rust_chars s)
        then Inl (SegmentTooLong which (length (rust_chars s)) MAX_SEGMENT_LEN)
      else check_chars ability_char (UppercaseRejected which) (InvalidChar which) (rust_chars s))"

section \<open>Parsing and display\<close>

definition agent_id_parse :: "string \<Rightarrow> agent_id_error + agent_id" where
  "agent_id_parse s =
     (if CHR ''#'' \<in> set s then Inl (ReservedV2 ''instance id (`#<id>`)'')
      else if str_contains ''://'' s then Inl WrongLayer
      else if s = [] then Inl Empty
      else
        (let parts =
           (case split_on (CHR ''/'') s of
              [n] \<Rightarrow> Inr (DEFAULT_TENANT, n)
            | [t, n] \<Rightarrow> Inr (t, n)
            | _ \<Rightarrow> Inl (ReservedV2 ''multi-level namespace (`a/b/c`)''))
         in and_then parts (\<lambda>(t, n).
            and_then (validate_segment t ''tenant'') (\<lambda>_.
            and_then (validate_segment n ''name'') (\<lambda>_.
            Inr \<lparr>tenant = t, name = n\<rparr>)))))"

definition agent_id_new :: "string \<Rightarrow> string \<Rightarrow> agent_id_error + agent_id" where
  "agent_id_new t n =
     and_then (validate_segment t ''tenant'') (\<lambda>_.
     and_then (validate_segment n ''name'') (\<lambda>_.
     Inr \<lparr>tenant = t, name = n\<rparr>))"

definition agent_id_display :: "agent_id \<Rightarrow> string" where
  "agent_id_display a = tenant a @ ''/'' @ name a"

definition ability_name_parse :: "string \<Rightarrow> agent_id_error + ability_name" where
  "ability_name_parse s =
     and_then (validate_ability_segment s) (\<lambda>_. Inr (AbilityName s))"

definition node_id_parse :: "string \<Rightarrow> node_id_error + node_id" where
  "node_id_parse s =
     (if s = [] then Inl NodeEmpty
      else if MAX_NODE_ID_LEN < length (rust_chars s)
        then Inl (NodeTooLong (length (rust_chars s)) MAX_NODE_ID_LEN)
      else and_then (check_chars ability_char NodeUppercaseRejected NodeInvalidChar (rust_chars s))
             (\<lambda>_. Inr (NodeId s)))"

section \<open>What the validators accept\<close>

text \<open>The documented grammar: between one and \<open>n\<close> characters of a class.\<close>

definition word_over :: "(char \<Rightarrow> bool) \<Rightarrow> nat \<Rightarrow> string \<Rightarrow> bool" where
  "word_over p n s \<longleftrightarrow> s \<noteq> [] \<and> length s \<le> n \<and> list_all p s"

lemma segment_char_not_upper: "segment_char c \<Longrightarrow> \<not> is_ascii_uppercase c"
  by (auto simp: segment_char_def is_ascii_lowercase_def is_ascii_uppercase_def is_ascii_digit_def)

lemma ability_char_not_upper: "ability_char c \<Longrightarrow> \<not> is_ascii_uppercase c"
  by (auto simp: ability_char_def is_ascii_lowercase_def is_ascii_uppercase_def is_ascii_digit_def)

lemma segment_char_ascii: "segment_char c \<Longrightarrow> char_code c < 128"
  by (auto simp: segment_char_def is_ascii_lowercase_def is_ascii_digit_def)

lemma ability_char_ascii: "ability_char c \<Longrightarrow> char_code c < 128"
  by (auto simp: ability_char_def is_ascii_lowercase_def is_ascii_digit_def)

lemma char_is_iff: "char_is p ch \<longleftrightarrow> (\<exists>c. ch = [c] \<and> p c)"
  by (auto simp: char_is_def split: list.splits)

lemma check_chars_Inr_iff:
  "check_chars ok upper invalid chs = Inr u \<longleftrightarrow>
     (\<forall>ch \<in> set chs. char_is ok ch \<and> \<not> char_is is_ascii_uppercase ch)"
  by (induction chs) auto

lemma check_chars_bytes_iff:
  assumes not_upper: "\<And>c. ok c \<Longrightarrow> \<not> is_ascii_uppercase c"
    and ascii: "\<And>c. ok c \<Longrightarrow> char_code c < 128"
  shows "check_chars ok upper invalid (rust_chars s) = Inr u \<longleftrightarrow> list_all ok s"
proof
  assume "check_chars ok upper invalid (rust_chars s) = Inr u"
  then have "\<forall>w \<in> set (rust_chars s). \<exists>c. w = [c] \<and> ok c"
    by (simp add: check_chars_Inr_iff char_is_iff)
  then show "list_all ok s" by (rule rust_chars_singletons [THEN conjunct2])
next
  assume all: "list_all ok s"
  then have "list_all (\<lambda>c. char_code c < 128) s"
    by (rule list.pred_mono_strong) (rule ascii)
  then have "rust_chars s = map (\<lambda>c. [c]) s" by (rule rust_chars_ascii)
  with all show "check_chars ok upper invalid (rust_chars s) = Inr u"
    by (auto simp: check_chars_Inr_iff char_is_iff list_all_iff not_upper)
qed

lemma length_rust_chars_ascii:
  "list_all (\<lambda>c. char_code c < 128) s \<Longrightarrow> length (rust_chars s) = length s"
  by (simp add: rust_chars_ascii)

lemma validate_segment_iff [result_simps]:
  "validate_segment s which = Inr u \<longleftrightarrow> word_over segment_char MAX_SEGMENT_LEN s"
proof (cases "list_all segment_char s")
  case True
  then have "list_all (\<lambda>c. char_code c < 128) s"
    by (rule list.pred_mono_strong) (rule segment_char_ascii)
  with True show ?thesis
    by (auto simp: validate_segment_def word_over_def length_rust_chars_ascii
        check_chars_bytes_iff segment_char_not_upper segment_char_ascii)
next
  case False
  then show ?thesis
    by (auto simp: validate_segment_def word_over_def check_chars_bytes_iff
        segment_char_not_upper segment_char_ascii)
qed

lemma validate_ability_segment_iff [result_simps]:
  "validate_ability_segment s = Inr u \<longleftrightarrow> word_over ability_char MAX_SEGMENT_LEN s"
proof (cases "list_all ability_char s")
  case True
  then have "list_all (\<lambda>c. char_code c < 128) s"
    by (rule list.pred_mono_strong) (rule ability_char_ascii)
  with True show ?thesis
    by (auto simp: validate_ability_segment_def word_over_def length_rust_chars_ascii
        check_chars_bytes_iff ability_char_not_upper ability_char_ascii Let_def)
next
  case False
  then show ?thesis
    by (auto simp: validate_ability_segment_def word_over_def check_chars_bytes_iff
        ability_char_not_upper ability_char_ascii Let_def)
qed

lemma word_over_segment_special:
  assumes "word_over segment_char n s"
  shows "CHR ''/'' \<notin> set s" "CHR ''#'' \<notin> set s" "CHR '':'' \<notin> set s" "CHR ''.'' \<notin> set s"
  using assms
  by (auto simp: word_over_def list_all_iff segment_char_def is_ascii_lowercase_def
      is_ascii_digit_def)

lemma word_over_default_tenant: "word_over segment_char MAX_SEGMENT_LEN DEFAULT_TENANT"
  by (simp add: word_over_def DEFAULT_TENANT_def MAX_SEGMENT_LEN_def segment_char_def
      is_ascii_lowercase_def)

definition agent_id_wf :: "agent_id \<Rightarrow> bool" where
  "agent_id_wf a \<longleftrightarrow>
     word_over segment_char MAX_SEGMENT_LEN (tenant a) \<and>
     word_over segment_char MAX_SEGMENT_LEN (name a)"

lemma agent_id_parse_Inr_iff:
  "agent_id_parse s = Inr a \<longleftrightarrow>
     agent_id_wf a \<and> (s = agent_id_display a \<or> (tenant a = DEFAULT_TENANT \<and> s = name a))"
  (is "?l \<longleftrightarrow> ?r")
proof
  assume ?l
  then have s: "s \<noteq> []" and parts:
    "(case split_on (CHR ''/'') s of [n] \<Rightarrow> Inr (DEFAULT_TENANT, n) | [t, n] \<Rightarrow> Inr (t, n)
      | _ \<Rightarrow> Inl (ReservedV2 ''multi-level namespace (`a/b/c`)'')) = Inr (tenant a, name a)"
    and wf: "agent_id_wf a"
    by (auto simp: agent_id_parse_def agent_id_wf_def result_simps Let_def split: if_splits)
  from parts consider "split_on (CHR ''/'') s = [name a]" "tenant a = DEFAULT_TENANT"
    | "split_on (CHR ''/'') s = [tenant a, name a]"
    by (auto split: list.splits)
  then show ?r
    using wf by cases (auto simp: split_on_singleton_iff split_on_pair_iff agent_id_display_def)
next
  assume r: ?r
  then have t: "word_over segment_char MAX_SEGMENT_LEN (tenant a)"
    and n: "word_over segment_char MAX_SEGMENT_LEN (name a)" by (auto simp: agent_id_wf_def)
  note tsp = word_over_segment_special [OF t] and nsp = word_over_segment_special [OF n]
  have special: "CHR ''#'' \<notin> set s \<and> CHR '':'' \<notin> set s \<and> s \<noteq> []"
    using r tsp nsp t n by (auto simp: agent_id_display_def word_over_def)
  then have no_scheme: "\<not> str_contains ''://'' s" using str_contains_set [of "''://''" s] by auto
  show ?l
  proof (cases "s = agent_id_display a")
    case True
    then have "split_on (CHR ''/'') s = [tenant a, name a]"
      using tsp(1) nsp(1) by (simp add: agent_id_display_def split_on_no_sep split_on_append_sep)
    with special no_scheme t n show ?thesis
      by (simp add: agent_id_parse_def result_simps)
  next
    case False
    with r have s: "s = name a" and d: "tenant a = DEFAULT_TENANT" by auto
    from s nsp(1) have "split_on (CHR ''/'') s = [name a]" by (simp add: split_on_no_sep)
    with special no_scheme t n show ?thesis
      by (simp add: agent_id_parse_def result_simps flip: d)
  qed
qed

section \<open>Canonical forms\<close>

interpretation agent: canonical_form agent_id_parse agent_id_display agent_id_wf
  by unfold_locales (simp_all add: agent_id_parse_Inr_iff)

interpretation ability: canonical_form ability_name_parse ability_str
    "\<lambda>a. word_over ability_char MAX_SEGMENT_LEN (ability_str a)"
  by unfold_locales (auto simp: ability_name_parse_def result_simps)

lemma node_id_parse_iff:
  "node_id_parse s = Inr n \<longleftrightarrow> n = NodeId s \<and> word_over ability_char MAX_NODE_ID_LEN s"
proof (cases "list_all ability_char s")
  case True
  then have "list_all (\<lambda>c. char_code c < 128) s"
    by (rule list.pred_mono_strong) (rule ability_char_ascii)
  with True show ?thesis
    by (auto simp: node_id_parse_def word_over_def length_rust_chars_ascii result_simps
        check_chars_bytes_iff ability_char_not_upper ability_char_ascii)
next
  case False
  then show ?thesis
    by (auto simp: node_id_parse_def word_over_def check_chars_bytes_iff result_simps
        ability_char_not_upper ability_char_ascii)
qed

interpretation node: canonical_form node_id_parse node_str
    "\<lambda>n. word_over ability_char MAX_NODE_ID_LEN (node_str n)"
  by unfold_locales (auto simp: node_id_parse_iff)

section \<open>Properties\<close>

text \<open>\<open>AgentId::parse\<close> accepts exactly the display forms of well-formed agent ids and, for the
  default tenant, the bare name: the result is determined by the text, every other text is refused.\<close>

theorem agent_id_parse_exact:
  "agent_id_parse s = Inr a \<longleftrightarrow>
     agent_id_wf a \<and> (s = agent_id_display a \<or> (tenant a = DEFAULT_TENANT \<and> s = name a))"
  by (rule agent_id_parse_Inr_iff)

text \<open>The display form of a parsed agent id is canonical: it parses back to the same id, and two
  parsed ids with the same display form are equal.\<close>

theorem agent_id_canonical:
  assumes "agent_id_parse s = Inr a" and "agent_id_parse t = Inr b"
  shows "agent_id_parse (agent_id_display a) = Inr a \<and> (agent_id_display a = agent_id_display b \<longleftrightarrow> a = b)"
  using agent.reparse [OF assms(1)] agent.parsed_display_inject [OF assms] by blast

theorem agent_id_canonical_witness:
  "agent_id_parse (agent_id_display \<lparr>tenant = ''default'', name = ''claude''\<rparr>) =
     Inr \<lparr>tenant = ''default'', name = ''claude''\<rparr>"
proof -
  have "agent_id_parse ''claude'' = Inr \<lparr>tenant = ''default'', name = ''claude''\<rparr>" by code_simp
  from agent_id_canonical [OF this this] show ?thesis by blast
qed

end
