(* ===== verification/EalLexer.thy ===== *)
theory EalLexer
  imports Prelude
begin

text \<open>
  The tokenizer of the EAL language, \<open>src/eal/parser/lexer.rs\<close>, and the string-literal escape
  contract, \<open>src/eal/parser/string_escape.rs\<close>.

  \<open>Lexer { input, pos }\<close> is represented by the unread suffix of the input; \<open>pos\<close> is the length of
  the input minus the length of the suffix. The input is a \<open>str\<close>, and every slice the lexer cuts
  out starts and ends at an ASCII byte, so \<open>String::from_utf8_lossy\<close> is the identity on it.
\<close>

section \<open>Tokens\<close>

text \<open>
  An \<open>f64\<close> literal is carried as the decimal text it was read from (\<open>[-]d*.d+\<close>, on which
  \<open>f64::from_str\<close> cannot fail).
\<close>

datatype f64 = F64 (f64_text: string)

datatype token =
    TkMission | TkLet | TkCall | TkEmit | TkOn | TkWith | TkTimeout | TkRetries
  | TkOnFailure | TkOptional | TkAbort | TkSkip | TkRetry | TkContinue
  | TkLoop | TkBody | TkVerify
  | StringLit string | IntLit int | FloatLit f64 | BoolLit bool | Ident string
  | LBrace | RBrace | LParen | RParen | LBracket | RBracket
  | TkEq | TkColon | TkComma | TkDot | TkEof

datatype int_error_kind = InvalidDigit | PosOverflow | NegOverflow

datatype lex_error =
    LexUnexpected char nat
  | UnterminatedString
  | BadInt int_error_kind

abbreviation quote_char :: char where
  "quote_char \<equiv> CHR 0x22"

abbreviation backslash_char :: char where
  "backslash_char \<equiv> CHR 0x5C"

section \<open>Scanning\<close>

function skip_ws :: "string \<Rightarrow> string" where
  "skip_ws [] = []"
| "skip_ws (c # cs) =
     (if is_ascii_whitespace c then skip_ws cs
      else if c = CHR ''/'' \<and> (case cs of [] \<Rightarrow> False | d # _ \<Rightarrow> d = CHR ''/'')
        then skip_ws (dropWhile (\<lambda>d. d \<noteq> CHR 0x0A) (c # cs))
      else c # cs)"
  by pat_completeness auto
termination
  by (relation "measure length") (auto intro: le_imp_less_Suc length_dropWhile_le)

text \<open>The body of \<open>read_string\<close> after the opening quote: the literal and what follows its closing quote.\<close>

fun scan_string :: "string \<Rightarrow> (string \<times> string) option" where
  "scan_string [] = None"
| "scan_string (c # cs) =
     (if c = quote_char then Some ([], cs)
      else if c = backslash_char then
        (case cs of
           [] \<Rightarrow> None
         | d # ds \<Rightarrow> map_option (\<lambda>(s, r). (c # d # s, r)) (scan_string ds))
      else map_option (\<lambda>(s, r). (c # s, r)) (scan_string cs))"

definition read_string :: "string \<Rightarrow> lex_error + token \<times> string" where
  "read_string input =
     (case scan_string (tl input) of
        None \<Rightarrow> Inl UnterminatedString
      | Some (s, rest) \<Rightarrow> Inr (StringLit s, rest))"

definition i64_min :: int where "i64_min = - (2 ^ 63)"
definition i64_max :: int where "i64_max = 2 ^ 63 - 1"

text \<open>\<open>str::parse::<i64>\<close> on \<open>[-]d*\<close>.\<close>

definition parse_i64 :: "string \<Rightarrow> int_error_kind + int" where
  "parse_i64 s =
     (let neg = (case s of [] \<Rightarrow> False | c # _ \<Rightarrow> c = CHR ''-'');
          ds = (if neg then tl s else s);
          v = (if neg then - int (digits_value ds) else int (digits_value ds))
      in if ds = [] \<or> \<not> list_all is_ascii_digit ds then Inl InvalidDigit
         else if v > i64_max then Inl PosOverflow
         else if v < i64_min then Inl NegOverflow
         else Inr v)"

definition read_number :: "string \<Rightarrow> lex_error + token \<times> string" where
  "read_number input =
     (let neg = (case input of [] \<Rightarrow> False | c # _ \<Rightarrow> c = CHR ''-'');
          r0 = (if neg then tl input else input);
          ds = takeWhile is_ascii_digit r0;
          r1 = dropWhile is_ascii_digit r0;
          is_float = (case r1 of c # d # _ \<Rightarrow> c = CHR ''.'' \<and> is_ascii_digit d | _ \<Rightarrow> False);
          sign = (if neg then ''-'' else [])
      in if is_float then
           (let fs = takeWhile is_ascii_digit (tl r1); r2 = dropWhile is_ascii_digit (tl r1)
            in Inr (FloatLit (F64 (sign @ ds @ ''.'' @ fs)), r2))
         else (case parse_i64 (sign @ ds) of
                 Inl e \<Rightarrow> Inl (BadInt e)
               | Inr n \<Rightarrow> Inr (IntLit n, r1)))"

definition is_word_char :: "char \<Rightarrow> bool" where
  "is_word_char c \<longleftrightarrow> is_ascii_alphanumeric c \<or> c = CHR ''_''"

definition is_word_start :: "char \<Rightarrow> bool" where
  "is_word_start c \<longleftrightarrow> is_ascii_lowercase c \<or> is_ascii_uppercase c \<or> c = CHR ''_''"

definition keyword_table :: "(string \<times> token) list" where
  "keyword_table =
     [(''mission'', TkMission), (''let'', TkLet), (''call'', TkCall), (''emit'', TkEmit),
      (''on'', TkOn), (''with'', TkWith), (''timeout'', TkTimeout), (''retries'', TkRetries),
      (''on_failure'', TkOnFailure), (''optional'', TkOptional), (''abort'', TkAbort),
      (''skip'', TkSkip), (''retry'', TkRetry), (''continue'', TkContinue), (''loop'', TkLoop),
      (''body'', TkBody), (''verify'', TkVerify), (''true'', BoolLit True),
      (''false'', BoolLit False)]"

definition word_token :: "string \<Rightarrow> token" where
  "word_token w = (case map_of keyword_table w of Some t \<Rightarrow> t | None \<Rightarrow> Ident w)"

definition read_word :: "string \<Rightarrow> lex_error + token \<times> string" where
  "read_word input = Inr (word_token (takeWhile is_word_char input), dropWhile is_word_char input)"

definition symbol_table :: "(char \<times> token) list" where
  "symbol_table =
     [(CHR 0x7B, LBrace), (CHR 0x7D, RBrace), (CHR 0x28, LParen), (CHR 0x29, RParen),
      (CHR 0x5B, LBracket), (CHR 0x5D, RBracket), (CHR 0x3D, TkEq), (CHR 0x3A, TkColon),
      (CHR 0x2C, TkComma), (CHR 0x2E, TkDot)]"

text \<open>\<open>next_token\<close>; \<open>n\<close> is the length of the whole input, from which the error position is taken.\<close>

definition next_token :: "nat \<Rightarrow> string \<Rightarrow> lex_error + token \<times> string" where
  "next_token n input =
     (let s = skip_ws input in
      case s of
        [] \<Rightarrow> Inr (TkEof, [])
      | ch # rest \<Rightarrow>
          (case map_of symbol_table ch of
             Some t \<Rightarrow> Inr (t, rest)
           | None \<Rightarrow>
               if ch = quote_char then read_string s
               else if is_ascii_digit ch \<or> ch = CHR ''-'' then read_number s
               else if is_word_start ch then read_word s
               else Inl (LexUnexpected ch (n - length s))))"

lemma length_skip_ws: "length (skip_ws s) \<le> length s"
proof (induction s rule: skip_ws.induct)
  case (2 c cs)
  let ?d = "dropWhile (\<lambda>d. d \<noteq> CHR 0x0A) (c # cs)"
  let ?comment = "c = CHR ''/'' \<and> (case cs of [] \<Rightarrow> False | d # _ \<Rightarrow> d = CHR ''/'')"
  consider "is_ascii_whitespace c" | "\<not> is_ascii_whitespace c" "?comment"
    | "\<not> is_ascii_whitespace c" "\<not> ?comment" by blast
  then show ?case
  proof cases
    case 1
    with "2.IH"(1) show ?thesis by simp
  next
    case 2
    from "2.IH"(2) [OF 2] have "length (skip_ws ?d) \<le> length ?d" .
    also have "\<dots> \<le> length (c # cs)" by (rule length_dropWhile_le)
    finally show ?thesis using 2 by simp
  next
    case 3
    then have "skip_ws (c # cs) = c # cs" by auto
    then show ?thesis by simp
  qed
qed simp

lemma scan_string_length: "scan_string s = Some (w, r) \<Longrightarrow> length r < length s"
  by (induction s arbitrary: w r rule: scan_string.induct)
    (fastforce split: if_splits list.splits)+

lemma read_number_length:
  assumes "read_number (c # cs) = Inr (t, r)" and "is_ascii_digit c \<or> c = CHR ''-''"
  shows "length r < length (c # cs)"
proof -
  have le: "length (dropWhile is_ascii_digit (tl (dropWhile is_ascii_digit x))) \<le> length x" for x
    using length_dropWhile_le [of is_ascii_digit "tl (dropWhile is_ascii_digit x)"]
      length_dropWhile_le [of is_ascii_digit x] by simp
  show ?thesis
    using assms le [of cs] length_dropWhile_le [of is_ascii_digit cs]
    by (auto simp: read_number_def Let_def less_Suc_eq_le split: if_splits sum.splits)
qed

lemma next_token_length:
  assumes "next_token n s = Inr (t, r)" and "t \<noteq> TkEof"
  shows "length r < length s"
proof -
  obtain ch rest where s': "skip_ws s = ch # rest"
    using assms by (cases "skip_ws s") (auto simp: next_token_def)
  then have le: "Suc (length rest) \<le> length s" using length_skip_ws [of s] by simp
  have word: "is_word_start ch \<Longrightarrow> length (dropWhile is_word_char (ch # rest)) \<le> length rest"
    by (auto simp: is_word_start_def is_word_char_def is_ascii_alphanumeric_def length_dropWhile_le)
  show ?thesis
  proof (cases "map_of symbol_table ch")
    case (Some a)
    with assms s' le show ?thesis by (simp add: next_token_def)
  next
    case None
    consider "ch = quote_char" | "ch \<noteq> quote_char" "is_ascii_digit ch \<or> ch = CHR ''-''"
      | "ch \<noteq> quote_char" "\<not> (is_ascii_digit ch \<or> ch = CHR ''-'')" by blast
    then show ?thesis
    proof cases
      case 1
      with None assms s' have "\<exists>w. scan_string rest = Some (w, r)"
        by (auto simp: next_token_def read_string_def split: option.splits)
      with le show ?thesis by (auto dest!: scan_string_length)
    next
      case 2
      with None assms s' have "read_number (ch # rest) = Inr (t, r)"
        by (auto simp: next_token_def)
      with 2 le show ?thesis using read_number_length by fastforce
    next
      case 3
      with None assms s' have "is_word_start ch" "r = dropWhile is_word_char (ch # rest)"
        by (auto simp: next_token_def read_word_def Let_def split: if_splits)
      with word le show ?thesis by simp
    qed
  qed
qed

function tokenize_from :: "nat \<Rightarrow> string \<Rightarrow> lex_error + token list" where
  "tokenize_from n s =
     and_then (next_token n s) (\<lambda>(tok, rest).
       if tok = TkEof then Inr [tok]
       else and_then (tokenize_from n rest) (\<lambda>ts. Inr (tok # ts)))"
  by pat_completeness auto
termination
  by (relation "measure (\<lambda>(n, s). length s)") (auto dest: next_token_length)

declare tokenize_from.simps [simp del]

definition tokenize :: "string \<Rightarrow> lex_error + token list" where
  "tokenize input = tokenize_from (length input) input"

section \<open>Escapes\<close>

fun unescape_string_literal :: "string \<Rightarrow> string" where
  "unescape_string_literal [] = []"
| "unescape_string_literal (c # cs) =
     (if c \<noteq> backslash_char then c # unescape_string_literal cs
      else (case cs of
              [] \<Rightarrow> [backslash_char]
            | d # ds \<Rightarrow>
                if d = quote_char then quote_char # unescape_string_literal ds
                else if d = backslash_char then backslash_char # unescape_string_literal ds
                else backslash_char # d # unescape_string_literal ds))"

section \<open>Rendering tokens\<close>

text \<open>
  A printer for tokens, the inverse of the lexer: the text of each token followed by a space.
  \<open>token_ok\<close> says which tokens have a spelling: an identifier is a word that is not a keyword, a
  string literal shields every inner quote with a backslash, an integer fits in an \<open>i64\<close>.
\<close>

fun raw_literal :: "string \<Rightarrow> bool" where
  "raw_literal [] \<longleftrightarrow> True"
| "raw_literal (c # cs) \<longleftrightarrow>
     c \<noteq> quote_char \<and>
     (if c = backslash_char then (case cs of [] \<Rightarrow> False | _ # ds \<Rightarrow> raw_literal ds)
      else raw_literal cs)"

definition word_ok :: "string \<Rightarrow> bool" where
  "word_ok w \<longleftrightarrow> w \<noteq> [] \<and> is_word_start (hd w) \<and> list_all is_word_char w"

definition float_text_ok :: "string \<Rightarrow> bool" where
  "float_text_ok t \<longleftrightarrow>
     (let u = (if take 1 t = ''-'' then tl t else t);
          r = dropWhile is_ascii_digit u
      in hd t \<noteq> CHR ''.'' \<and> r \<noteq> [] \<and> hd r = CHR ''.'' \<and> tl r \<noteq> [] \<and>
         list_all is_ascii_digit (tl r))"

fun token_ok :: "token \<Rightarrow> bool" where
  "token_ok (StringLit s) = raw_literal s"
| "token_ok (IntLit n) = (i64_min \<le> n \<and> n \<le> i64_max)"
| "token_ok (FloatLit f) = float_text_ok (f64_text f)"
| "token_ok (Ident w) = (word_ok w \<and> map_of keyword_table w = None)"
| "token_ok TkEof = False"
| "token_ok _ = True"

definition show_int :: "int \<Rightarrow> string" where
  "show_int n = (if n < 0 then CHR ''-'' # show_nat (nat (- n)) else show_nat (nat n))"

primrec token_text :: "token \<Rightarrow> string" where
  "token_text TkMission = ''mission''"
| "token_text TkLet = ''let''"
| "token_text TkCall = ''call''"
| "token_text TkEmit = ''emit''"
| "token_text TkOn = ''on''"
| "token_text TkWith = ''with''"
| "token_text TkTimeout = ''timeout''"
| "token_text TkRetries = ''retries''"
| "token_text TkOnFailure = ''on_failure''"
| "token_text TkOptional = ''optional''"
| "token_text TkAbort = ''abort''"
| "token_text TkSkip = ''skip''"
| "token_text TkRetry = ''retry''"
| "token_text TkContinue = ''continue''"
| "token_text TkLoop = ''loop''"
| "token_text TkBody = ''body''"
| "token_text TkVerify = ''verify''"
| "token_text (StringLit s) = quote_char # s @ [quote_char]"
| "token_text (IntLit n) = show_int n"
| "token_text (FloatLit f) = f64_text f"
| "token_text (BoolLit b) = (if b then ''true'' else ''false'')"
| "token_text (Ident w) = w"
| "token_text LBrace = [CHR 0x7B]"
| "token_text RBrace = [CHR 0x7D]"
| "token_text LParen = [CHR 0x28]"
| "token_text RParen = [CHR 0x29]"
| "token_text LBracket = [CHR 0x5B]"
| "token_text RBracket = [CHR 0x5D]"
| "token_text TkEq = [CHR 0x3D]"
| "token_text TkColon = [CHR 0x3A]"
| "token_text TkComma = [CHR 0x2C]"
| "token_text TkDot = [CHR 0x2E]"
| "token_text TkEof = []"

definition render :: "token list \<Rightarrow> string" where
  "render ts = concat (map (\<lambda>t. token_text t @ '' '') ts)"

lemma skip_ws_space [simp]: "skip_ws (CHR '' '' # s) = skip_ws s"
  by (simp add: is_ascii_whitespace_def)

lemma skip_ws_id:
  assumes "\<not> is_ascii_whitespace c" "c \<noteq> CHR ''/''"
  shows "skip_ws (c # cs) = c # cs"
  using assms by simp

lemma skip_ws_idem: "skip_ws (skip_ws s) = skip_ws s"
  by (induction s rule: skip_ws.induct) (auto split: list.splits)

lemma next_token_skip_space: "next_token n (CHR '' '' # s) = next_token n s"
  by (simp only: next_token_def skip_ws_space)

lemma scan_string_raw: "raw_literal s \<Longrightarrow> scan_string (s @ quote_char # r) = Some (s, r)"
  by (induction s rule: raw_literal.induct) (auto split: list.splits if_splits)

lemma scan_string_SomeD:
  "scan_string t = Some (s, r) \<Longrightarrow> raw_literal s \<and> t = s @ quote_char # r"
  by (induction t arbitrary: s r rule: scan_string.induct)
    (fastforce split: if_splits list.splits)+

lemma takeWhile_stop: "list_all p xs \<Longrightarrow> \<not> p y \<Longrightarrow> takeWhile p (xs @ y # ys) = xs"
  by (induction xs) auto

lemma dropWhile_stop: "list_all p xs \<Longrightarrow> \<not> p y \<Longrightarrow> dropWhile p (xs @ y # ys) = y # ys"
  by (induction xs) auto

lemma map_of_None_class: "list_all (\<lambda>(k, _). \<not> p k) tbl \<Longrightarrow> p c \<Longrightarrow> map_of tbl c = None"
  by (induction tbl) auto

lemmas char_class_defs = is_word_start_def is_word_char_def is_ascii_alphanumeric_def
  is_ascii_lowercase_def is_ascii_uppercase_def is_ascii_digit_def is_ascii_whitespace_def

lemma symbol_table_class:
  "list_all (\<lambda>(k, _). \<not> is_word_start k) symbol_table"
  "list_all (\<lambda>(k, _). \<not> is_ascii_digit k) symbol_table"
  by (simp_all add: symbol_table_def char_class_defs)

lemma word_start_not: "is_word_start c \<Longrightarrow> \<not> is_word_start d \<Longrightarrow> c \<noteq> d"
  by auto

lemma word_start_class:
  assumes "is_word_start c"
  shows "map_of symbol_table c = None" "c \<noteq> quote_char" "\<not> is_ascii_digit c" "c \<noteq> CHR ''-''"
    "\<not> is_ascii_whitespace c" "c \<noteq> CHR ''/''" "is_word_char c"
proof -
  show "map_of symbol_table c = None"
    by (rule map_of_None_class [OF symbol_table_class(1) assms])
  show "c \<noteq> quote_char" "c \<noteq> CHR ''-''" "c \<noteq> CHR ''/''"
    by (rule word_start_not [OF assms], simp add: char_class_defs)+
  show "is_word_char c"
    using assms by (auto simp: is_word_start_def is_word_char_def is_ascii_alphanumeric_def)
  show "\<not> is_ascii_digit c" "\<not> is_ascii_whitespace c"
    using assms by (auto simp: char_class_defs)
qed

lemma digit_not: "is_ascii_digit c \<Longrightarrow> \<not> is_ascii_digit d \<Longrightarrow> c \<noteq> d"
  by auto

lemma digit_class:
  assumes "is_ascii_digit c"
  shows "map_of symbol_table c = None" "c \<noteq> quote_char" "c \<noteq> CHR ''-''" "c \<noteq> CHR ''.''"
    "\<not> is_ascii_whitespace c" "c \<noteq> CHR ''/''"
proof -
  show "map_of symbol_table c = None"
    by (rule map_of_None_class [OF symbol_table_class(2) assms])
  show "c \<noteq> quote_char" "c \<noteq> CHR ''-''" "c \<noteq> CHR ''.''" "c \<noteq> CHR ''/''"
    by (rule digit_not [OF assms], simp add: char_class_defs)+
  show "\<not> is_ascii_whitespace c"
    using assms by (auto simp: char_class_defs)
qed

lemma next_token_word:
  assumes "word_ok w" and "\<not> is_word_char d"
  shows "next_token n (w @ d # s) = Inr (word_token w, d # s)"
proof -
  obtain c cs where w: "w = c # cs" using assms by (cases w) (auto simp: word_ok_def)
  with assms have start: "is_word_start c" and all: "list_all is_word_char (c # cs)"
    by (auto simp: word_ok_def)
  note cls = word_start_class [OF start]
  have ws: "skip_ws ((c # cs) @ d # s) = (c # cs) @ d # s" using cls by simp
  show ?thesis
    using cls start takeWhile_stop [OF all assms(2)] dropWhile_stop [OF all assms(2)]
    by (simp add: next_token_def ws w read_word_def Let_def)
qed

lemma next_token_string:
  assumes "raw_literal s"
  shows "next_token n (quote_char # s @ quote_char # r) = Inr (StringLit s, r)"
  using scan_string_raw [OF assms, of r]
  by (simp add: next_token_def read_string_def symbol_table_def is_ascii_whitespace_def Let_def)

lemma parse_i64_show_int:
  assumes "i64_min \<le> n" "n \<le> i64_max"
  shows "parse_i64 (show_int n) = Inr n"
proof (cases "n < 0")
  case True
  with assms show ?thesis
    by (simp add: parse_i64_def show_int_def show_nat_digits Let_def)
next
  case False
  obtain c cs where cs: "show_nat (nat n) = c # cs" by (cases "show_nat (nat n)") auto
  then have "is_ascii_digit c" using show_nat_digits [of "nat n"] by simp
  then have "c \<noteq> CHR ''-''" by (rule digit_class)
  moreover have "digits_value (c # cs) = nat n" using cs digits_value_show_nat by metis
  ultimately show ?thesis
    using False assms cs show_nat_digits [of "nat n"]
    by (simp add: parse_i64_def show_int_def Let_def)
qed

lemma space_class [simp]: "\<not> is_ascii_digit (CHR '' '')" "\<not> is_word_char (CHR '' '')"
  by (simp_all add: is_ascii_digit_def is_word_char_def is_ascii_alphanumeric_def
      is_ascii_lowercase_def is_ascii_uppercase_def)

lemma minus_class:
  "map_of symbol_table (CHR ''-'') = None" "CHR ''-'' \<noteq> quote_char"
  "\<not> is_ascii_whitespace (CHR ''-'')"
  by (simp_all add: symbol_table_def is_ascii_whitespace_def)

lemma next_token_number:
  assumes "input = c # cs" "is_ascii_digit c \<or> c = CHR ''-''"
  shows "next_token n input = read_number input"
proof -
  have cls: "map_of symbol_table c = None \<and> c \<noteq> quote_char \<and> \<not> is_ascii_whitespace c \<and>
    c \<noteq> CHR ''/''"
    using assms(2)
  proof
    assume "is_ascii_digit c"
    then show ?thesis using digit_class by blast
  next
    assume "c = CHR ''-''"
    then show ?thesis using minus_class by simp
  qed
  then have "skip_ws input = input" using assms(1) by simp
  with cls assms show ?thesis by (simp add: next_token_def Let_def)
qed

lemma next_token_int:
  assumes "i64_min \<le> n" "n \<le> i64_max"
  shows "next_token k (show_int n @ CHR '' '' # s) = Inr (IntLit n, CHR '' '' # s)"
proof -
  have num: "read_number (show_int n @ CHR '' '' # s) = Inr (IntLit n, CHR '' '' # s)"
  proof (cases "n < 0")
    case True
    with parse_i64_show_int [OF assms] show ?thesis
      by (simp add: read_number_def show_int_def takeWhile_stop dropWhile_stop show_nat_digits
          Let_def split: list.splits)
  next
    case False
    obtain c cs where cs: "show_nat (nat n) = c # cs" by (cases "show_nat (nat n)") auto
    then have d: "is_ascii_digit c" "list_all is_ascii_digit (c # cs)"
      using show_nat_digits [of "nat n"] by auto
    have "c \<noteq> CHR ''-''" using d by (auto dest: digit_class)
    with False cs parse_i64_show_int [OF assms] show ?thesis
      using takeWhile_stop [OF d(2), of "CHR '' ''" s] dropWhile_stop [OF d(2), of "CHR '' ''" s]
      by (simp add: read_number_def show_int_def Let_def split: list.splits)
  qed
  have "\<exists>c cs. show_int n = c # cs \<and> (is_ascii_digit c \<or> c = CHR ''-'')"
    using show_nat_digits [of "nat n"]
    by (cases "n < 0"; cases "show_nat (nat n)") (auto simp: show_int_def)
  with num show ?thesis using next_token_number by fastforce
qed

lemma float_text_cases:
  assumes "float_text_ok t"
  obtains sg ds fs where "t = sg @ ds @ CHR ''.'' # fs" "sg = [] \<or> sg = ''-''"
    "list_all is_ascii_digit ds" "fs \<noteq> []" "list_all is_ascii_digit fs"
proof -
  define u where "u = (if take 1 t = ''-'' then tl t else t)"
  define r where "r = dropWhile is_ascii_digit u"
  have r0: "r \<noteq> []" "hd r = CHR ''.''" "tl r \<noteq> []" "list_all is_ascii_digit (tl r)"
    using assms unfolding float_text_ok_def u_def r_def Let_def by blast+
  then have r: "r = CHR ''.'' # tl r" by (cases r) simp_all
  have u: "u = takeWhile is_ascii_digit u @ r" by (simp add: r_def)
  have t: "t = (if take 1 t = ''-'' then ''-'' else []) @ u"
    by (cases t) (auto simp: u_def)
  have "list_all is_ascii_digit (takeWhile is_ascii_digit u)"
    by (auto simp: list_all_iff dest: set_takeWhileD)
  moreover have "t = (if take 1 t = ''-'' then ''-'' else []) @ takeWhile is_ascii_digit u @
      CHR ''.'' # tl r"
    using t u r by simp
  ultimately show thesis
    using r0 by (intro that [of "if take 1 t = ''-'' then ''-'' else []" _ "tl r"]) auto
qed

lemma dot_not_digit [simp]: "\<not> is_ascii_digit (CHR ''.'')"
  by (simp add: is_ascii_digit_def)

lemma minus_not_digit [simp]: "\<not> is_ascii_digit (CHR ''-'')"
  by (simp add: is_ascii_digit_def)

lemma next_token_float:
  assumes "float_text_ok t"
  shows "next_token k (t @ CHR '' '' # s) = Inr (FloatLit (F64 t), CHR '' '' # s)"
proof -
  obtain sg ds fs where t: "t = sg @ ds @ CHR ''.'' # fs" and sg: "sg = [] \<or> sg = ''-''"
    and ds: "list_all is_ascii_digit ds" and fs: "fs \<noteq> []" "list_all is_ascii_digit fs"
    using float_text_cases [OF assms] by metis
  obtain f fs' where f: "fs = f # fs'" "is_ascii_digit f" using fs by (cases fs) auto
  have tk: "takeWhile is_ascii_digit (ds @ CHR ''.'' # fs @ CHR '' '' # s) = ds"
    "dropWhile is_ascii_digit (ds @ CHR ''.'' # fs @ CHR '' '' # s) = CHR ''.'' # fs @ CHR '' '' # s"
    "takeWhile is_ascii_digit (fs @ CHR '' '' # s) = fs"
    "dropWhile is_ascii_digit (fs @ CHR '' '' # s) = CHR '' '' # s"
    using ds fs by (simp_all add: takeWhile_stop dropWhile_stop)
  have nonempty: "\<not> (sg = [] \<and> ds = [])"
    using assms t by (auto simp: float_text_ok_def Let_def)
  then obtain c cs where c: "t = c # cs" "is_ascii_digit c \<or> c = CHR ''-''"
    using t sg ds by (cases ds) auto
  have "read_number (t @ CHR '' '' # s) = Inr (FloatLit (F64 t), CHR '' '' # s)"
  proof (cases "sg = []")
    case True
    then have "c \<noteq> CHR ''-''" using c t nonempty ds by (cases ds) (auto dest: digit_class)
    then have pos: "(case t @ CHR '' '' # s of [] \<Rightarrow> False | c # _ \<Rightarrow> c = CHR ''-'') = False"
      using c by simp
    have "t @ CHR '' '' # s = ds @ CHR ''.'' # fs @ CHR '' '' # s" using True t by simp
    with pos True t tk f show ?thesis by (simp add: read_number_def Let_def)
  next
    case False
    with sg t tk f show ?thesis by (simp add: read_number_def Let_def)
  qed
  with c show ?thesis using next_token_number by simp
qed

section \<open>The lexer inverts the printer\<close>

lemma next_token_keyword:
  assumes "(w, t) \<in> set keyword_table"
  shows "next_token n (w @ CHR '' '' # s) = Inr (t, CHR '' '' # s)"
proof -
  have "list_all (\<lambda>(w, t). word_ok w \<and> word_token w = t) keyword_table"
    by (simp add: keyword_table_def word_token_def word_ok_def char_class_defs)
  with assms have "word_ok w" "word_token w = t" by (auto simp: list_all_iff)
  then show ?thesis using next_token_word [of w "CHR '' ''"] by simp
qed

lemma next_token_symbol:
  assumes "(c, t) \<in> set symbol_table"
  shows "next_token n (c # s) = Inr (t, s)"
proof -
  have "list_all (\<lambda>(c, t). map_of symbol_table c = Some t \<and> \<not> is_ascii_whitespace c \<and>
      c \<noteq> CHR ''/'') symbol_table"
    by (simp add: symbol_table_def is_ascii_whitespace_def)
  with assms have "map_of symbol_table c = Some t" "\<not> is_ascii_whitespace c" "c \<noteq> CHR ''/''"
    by (auto simp: list_all_iff)
  then show ?thesis by (simp add: next_token_def)
qed

lemma keyword_table_mem:
  "(''mission'', TkMission) \<in> set keyword_table"
  "(''let'', TkLet) \<in> set keyword_table"
  "(''call'', TkCall) \<in> set keyword_table"
  "(''emit'', TkEmit) \<in> set keyword_table"
  "(''on'', TkOn) \<in> set keyword_table"
  "(''with'', TkWith) \<in> set keyword_table"
  "(''timeout'', TkTimeout) \<in> set keyword_table"
  "(''retries'', TkRetries) \<in> set keyword_table"
  "(''on_failure'', TkOnFailure) \<in> set keyword_table"
  "(''optional'', TkOptional) \<in> set keyword_table"
  "(''abort'', TkAbort) \<in> set keyword_table"
  "(''skip'', TkSkip) \<in> set keyword_table"
  "(''retry'', TkRetry) \<in> set keyword_table"
  "(''continue'', TkContinue) \<in> set keyword_table"
  "(''loop'', TkLoop) \<in> set keyword_table"
  "(''body'', TkBody) \<in> set keyword_table"
  "(''verify'', TkVerify) \<in> set keyword_table"
  "(''true'', BoolLit True) \<in> set keyword_table"
  "(''false'', BoolLit False) \<in> set keyword_table"
  by (simp_all add: keyword_table_def)

lemma symbol_table_mem:
  "(CHR 0x7B, LBrace) \<in> set symbol_table"
  "(CHR 0x7D, RBrace) \<in> set symbol_table"
  "(CHR 0x28, LParen) \<in> set symbol_table"
  "(CHR 0x29, RParen) \<in> set symbol_table"
  "(CHR 0x5B, LBracket) \<in> set symbol_table"
  "(CHR 0x5D, RBracket) \<in> set symbol_table"
  "(CHR 0x3D, TkEq) \<in> set symbol_table"
  "(CHR 0x3A, TkColon) \<in> set symbol_table"
  "(CHR 0x2C, TkComma) \<in> set symbol_table"
  "(CHR 0x2E, TkDot) \<in> set symbol_table"
  by (simp_all add: symbol_table_def)

lemma token_text_classify:
  "token_ok t \<Longrightarrow>
     (\<exists>s. t = StringLit s) \<or> (\<exists>n. t = IntLit n) \<or> (\<exists>f. t = FloatLit f) \<or> (\<exists>w. t = Ident w) \<or>
     (token_text t, t) \<in> set keyword_table \<or>
     (\<exists>c. token_text t = [c] \<and> (c, t) \<in> set symbol_table)"
  by (cases t) (simp_all add: keyword_table_mem symbol_table_mem split: if_splits)

lemma next_token_render:
  assumes "token_ok t"
  shows "next_token n (token_text t @ CHR '' '' # s) = Inr (t, CHR '' '' # s)"
proof -
  consider (string) w where "t = StringLit w" | (int) i where "t = IntLit i"
    | (float) f where "t = FloatLit f" | (ident) w where "t = Ident w"
    | (keyword) "(token_text t, t) \<in> set keyword_table"
    | (symbol) c where "token_text t = [c]" "(c, t) \<in> set symbol_table"
    using token_text_classify [OF assms] by blast
  then show ?thesis
  proof cases
    case string
    with assms show ?thesis using next_token_string by simp
  next
    case int
    with assms show ?thesis using next_token_int by simp
  next
    case float
    with assms show ?thesis using next_token_float by simp
  next
    case ident
    with assms show ?thesis
      using next_token_word [of _ "CHR '' ''"] by (simp add: word_token_def)
  next
    case keyword
    then show ?thesis by (rule next_token_keyword)
  next
    case symbol
    then show ?thesis using next_token_symbol by simp
  qed
qed

lemma token_ok_not_eof: "token_ok t \<Longrightarrow> t \<noteq> TkEof"
  by auto

lemma tokenize_from_space: "tokenize_from n (CHR '' '' # s) = tokenize_from n s"
  by (subst (1 2) tokenize_from.simps) (simp only: next_token_skip_space)

lemma tokenize_from_render:
  "list_all token_ok ts \<Longrightarrow> tokenize_from n (render ts) = Inr (ts @ [TkEof])"
proof (induction ts)
  case Nil
  show ?case by (subst tokenize_from.simps) (simp add: render_def next_token_def)
next
  case (Cons t ts)
  then have "next_token n (token_text t @ CHR '' '' # render ts) = Inr (t, CHR '' '' # render ts)"
    by (intro next_token_render) simp
  moreover have "render (t # ts) = token_text t @ CHR '' '' # render ts"
    by (simp add: render_def)
  ultimately show ?case
    using Cons token_ok_not_eof [of t]
    by (subst tokenize_from.simps) (simp add: tokenize_from_space)
qed

lemma tokenize_render: "list_all token_ok ts \<Longrightarrow> tokenize (render ts) = Inr (ts @ [TkEof])"
  by (simp add: tokenize_def tokenize_from_render)

section \<open>The escape contract\<close>

text \<open>What an author writes to embed a payload: a backslash before every quote and backslash.\<close>

fun escape_payload :: "string \<Rightarrow> string" where
  "escape_payload [] = []"
| "escape_payload (c # cs) =
     (if c = quote_char \<or> c = backslash_char then backslash_char # c # escape_payload cs
      else c # escape_payload cs)"

lemma raw_literal_escape: "raw_literal (escape_payload s)"
  by (induction s) auto

lemma unescape_escape: "unescape_string_literal (escape_payload s) = s"
  by (induction s) auto

lemma unescape_no_backslash: "backslash_char \<notin> set s \<Longrightarrow> unescape_string_literal s = s"
  by (induction s) auto

section \<open>Errors\<close>

lemma skip_ws_suffix: "\<exists>p. s = p @ skip_ws s"
proof (induction s rule: skip_ws.induct)
  case (2 c cs)
  let ?d = "dropWhile (\<lambda>d. d \<noteq> CHR 0x0A) (c # cs)"
  let ?comment = "c = CHR ''/'' \<and> (case cs of [] \<Rightarrow> False | d # _ \<Rightarrow> d = CHR ''/'')"
  consider "is_ascii_whitespace c" | "\<not> is_ascii_whitespace c" "?comment"
    | "\<not> is_ascii_whitespace c" "\<not> ?comment" by blast
  then show ?case
  proof cases
    case 1
    with "2.IH"(1) obtain p where "cs = p @ skip_ws cs" by blast
    with 1 show ?thesis by (intro exI [of _ "c # p"]) simp
  next
    case 2
    from "2.IH"(2) [OF 2] obtain p where p: "?d = p @ skip_ws ?d" by blast
    have "c # cs = takeWhile (\<lambda>d. d \<noteq> CHR 0x0A) (c # cs) @ ?d"
      by (rule takeWhile_dropWhile_id [symmetric])
    also have "\<dots> = (takeWhile (\<lambda>d. d \<noteq> CHR 0x0A) (c # cs) @ p) @ skip_ws ?d"
      by (subst p) simp
    finally show ?thesis using 2 by (metis skip_ws.simps(2))
  next
    case 3
    then have "skip_ws (c # cs) = c # cs" by auto
    then show ?thesis by simp
  qed
qed simp

lemma dropWhile_suffix: "\<exists>p. s = p @ dropWhile P s"
  by (metis takeWhile_dropWhile_id)

lemma read_number_suffix:
  assumes "read_number s = Inr (t, r)"
  shows "\<exists>p. s = p @ r"
proof -
  define r0 where "r0 = (if (case s of [] \<Rightarrow> False | c # _ \<Rightarrow> c = CHR ''-'') then tl s else s)"
  define r1 where "r1 = dropWhile is_ascii_digit r0"
  have s: "\<exists>p. s = p @ r0" by (cases s) (auto simp: r0_def)
  obtain p1 where r0: "r0 = p1 @ r1" using dropWhile_suffix r1_def by metis
  obtain p2 where r2: "tl r1 = p2 @ dropWhile is_ascii_digit (tl r1)"
    using dropWhile_suffix by metis
  let ?float = "case r1 of c # d # _ \<Rightarrow> c = CHR ''.'' \<and> is_ascii_digit d | _ \<Rightarrow> False"
  have float: "?float \<Longrightarrow> r1 \<noteq> []" by auto
  have "\<exists>f i. read_number s =
      (if ?float then Inr (f, dropWhile is_ascii_digit (tl r1))
       else (case i of Inl e \<Rightarrow> Inl (BadInt e) | Inr n \<Rightarrow> Inr (IntLit n, r1)))"
    unfolding read_number_def Let_def r0_def [symmetric] r1_def [symmetric] by blast
  then obtain f i where eq: "read_number s =
      (if ?float then Inr (f, dropWhile is_ascii_digit (tl r1))
       else (case i of Inl e \<Rightarrow> Inl (BadInt e) | Inr n \<Rightarrow> Inr (IntLit n, r1)))" by blast
  have "r = r1 \<or> (r = dropWhile is_ascii_digit (tl r1) \<and> r1 \<noteq> [])"
  proof (cases "?float")
    case True
    with eq assms float show ?thesis by simp
  next
    case False
    then have "(case i of Inl e \<Rightarrow> Inl (BadInt e) | Inr n \<Rightarrow> Inr (IntLit n, r1)) = Inr (t, r)"
      using eq assms by (simp only: if_False)
    then show ?thesis by (cases i) simp_all
  qed
  then have "\<exists>q. r1 = q @ r"
  proof
    assume "r = dropWhile is_ascii_digit (tl r1) \<and> r1 \<noteq> []"
    then have "r1 = (hd r1 # p2) @ r" using r2 by simp
    then show ?thesis by blast
  qed simp
  with s r0 show ?thesis by (metis append.assoc)
qed

lemma next_token_suffix:
  assumes "next_token n s = Inr (t, r)"
  shows "\<exists>p. s = p @ r"
proof -
  have "\<exists>p. skip_ws s = p @ r"
  proof (cases "skip_ws s")
    case (Cons ch rest)
    have "ch # rest = [ch] @ rest" by simp
    moreover have "scan_string rest = Some (w, r) \<Longrightarrow> \<exists>p. ch # rest = p @ r" for w
      using scan_string_SomeD [of rest w r] by (metis append.assoc append_Cons append_Nil)
    moreover have "read_number (ch # rest) = Inr (t, r) \<Longrightarrow> \<exists>p. ch # rest = p @ r"
      by (rule read_number_suffix)
    moreover have "\<exists>p. ch # rest = p @ dropWhile is_word_char (ch # rest)"
      by (rule dropWhile_suffix)
    ultimately show ?thesis
      using assms Cons
      by (auto simp: next_token_def read_string_def read_word_def Let_def
          simp del: dropWhile.simps split: option.splits if_splits)
  qed (use assms in \<open>simp add: next_token_def\<close>)
  then show ?thesis using skip_ws_suffix [of s] by (metis append.assoc)
qed

lemma next_token_unexpected:
  assumes "next_token n s = Inl (LexUnexpected c p)"
  shows "\<exists>rest. skip_ws s = c # rest \<and> p = n - Suc (length rest)"
  using assms
  by (auto simp: next_token_def read_string_def read_word_def read_number_def Let_def
      split: list.splits option.splits if_splits sum.splits)

lemma tokenize_from_unexpected:
  "tokenize_from (length input) s = Inl (LexUnexpected c p) \<Longrightarrow> input = pre @ s \<Longrightarrow>
     p < length input \<and> input ! p = c"
proof (induction "length input" s arbitrary: pre rule: tokenize_from.induct)
  case (1 s)
  from "1.prems"(1) consider "next_token (length input) s = Inl (LexUnexpected c p)"
    | t r where "next_token (length input) s = Inr (t, r)" "t \<noteq> TkEof"
        "tokenize_from (length input) r = Inl (LexUnexpected c p)"
    by (subst (asm) tokenize_from.simps) (auto simp: result_simps split: if_splits)
  then show ?case
  proof cases
    case 1
    then obtain rest where "skip_ws s = c # rest" and p: "p = length input - Suc (length rest)"
      using next_token_unexpected by blast
    then obtain q where "s = q @ c # rest" using skip_ws_suffix [of s] by auto
    with "1.prems"(2) have "input = (pre @ q) @ c # rest" by simp
    with p show ?thesis by (simp add: nth_append)
  next
    case (2 t r)
    from next_token_suffix [OF 2(1)] obtain q where "s = q @ r" by blast
    with "1.prems"(2) have "input = (pre @ q) @ r" by simp
    with "1.hyps" 2 show ?thesis by blast
  qed
qed

end
