(* ===== verification/EalAst.thy ===== *)
theory EalAst
  imports EalLexer
begin

text \<open>
  The abstract syntax of EAL programs, \<open>src/eal/parser/ast.rs\<close>. An \<open>i64\<close> or \<open>i32\<close> is an \<^typ>\<open>int\<close>
  and a \<open>u32\<close> a \<^typ>\<open>nat\<close>; the parser establishes their ranges (\<open>EalParser\<close>).
\<close>

datatype field_value =
    FString string
  | FInt int
  | FFloat f64
  | FBool bool
  | VarRef string
  | Object "field list"
and field = Field (fkey: string) (fval: field_value)

datatype failure_policy = Abort | Skip | Retry | Continue

record step_options =
  timeout_seconds :: "int option"
  max_retries :: "int option"
  on_failure :: "failure_policy option"
  optional :: bool

definition default_options :: step_options where
  "default_options =
     \<lparr>timeout_seconds = None, max_retries = None, on_failure = None, optional = False\<rparr>"

datatype target_kind = AgentKind | DeviceKind

record call_expr =
  function_name :: string
  target_node :: "string option"
  target_kind :: target_kind
  arguments :: "field list"
  call_options :: step_options

record emit_statement =
  emit_name :: string
  emit_kind :: string
  emit_value :: field_value

datatype statement =
    LetCall string call_expr
  | CallStmt call_expr
  | EmitStmt emit_statement
  | LoopStmt loop_block
and loop_block =
  LoopBlock (loop_name: "string option") (max_iters: nat)
    (loop_body: "statement list") (loop_verify: "statement list")

record mission_decl =
  mission_name :: string
  statements :: "statement list"

record eal_program =
  mission :: mission_decl

end
