(* ===== verification/EalParser.thy ===== *)
theory EalParser
  imports EalAst
begin

text \<open>
  The recursive-descent parser, \<open>src/eal/parser/mod.rs\<close>. \<open>Parser { tokens, pos }\<close> is the list of
  tokens not yet read; reading past the end yields \<open>Eof\<close>, as \<open>peek\<close> and \<open>advance\<close> do. Every
  \<open>bail!\<close> and \<open>ensure!\<close> is a constructor of \<open>parse_error\<close>.

  The recursion of the parser is not structural. The functions take a fuel argument that every
  recursive call spends; \<open>parse\<close> supplies the number of tokens plus three, and running out is the
  separate error \<open>OutOfFuel\<close>, which \<open>parse\<close> never returns (\<open>parse_tokens_fuel\<close>).
\<close>

section \<open>Errors\<close>

datatype parse_error =
    LexError lex_error
  | ExpectedToken token token
  | ExpectedString token
  | ExpectedIdent token
  | ExpectedInt token
  | ExpectedIdentNamed string token
  | ExpectedEmitKind token
  | ReservedBlockForm string
  | ExpectedCall token
  | ExpectedAgent token
  | ExpectedValue token
  | UnknownAccessor string
  | BareIdentifier string
  | NegativeU32 int
  | U32OutOfRange int
  | ExpectedIntegerLiteral token
  | I32OutOfRange string int
  | ExpectedPolicy token
  | DuplicateBody
  | DuplicateVerify
  | ExpectedSection token
  | MissingBody
  | MissingVerify
  | OutOfFuel

type_synonym 'a parser = "token list \<Rightarrow> parse_error + 'a \<times> token list"

section \<open>Token access\<close>

definition peek :: "token list \<Rightarrow> token" where
  "peek ts = (case ts of [] \<Rightarrow> TkEof | t # _ \<Rightarrow> t)"

definition peek_at1 :: "token list \<Rightarrow> token" where
  "peek_at1 ts = (case ts of _ # t # _ \<Rightarrow> t | _ \<Rightarrow> TkEof)"

definition advance :: "token list \<Rightarrow> token \<times> token list" where
  "advance ts = (case ts of [] \<Rightarrow> (TkEof, []) | t # r \<Rightarrow> (t, r))"

definition ident_of :: "token \<Rightarrow> string option" where
  "ident_of t = (case t of Ident s \<Rightarrow> Some s | _ \<Rightarrow> None)"

definition string_of :: "token \<Rightarrow> string option" where
  "string_of t = (case t of StringLit s \<Rightarrow> Some s | _ \<Rightarrow> None)"

definition int_of :: "token \<Rightarrow> int option" where
  "int_of t = (case t of IntLit n \<Rightarrow> Some n | _ \<Rightarrow> None)"

definition scalar_of :: "token \<Rightarrow> field_value option" where
  "scalar_of t =
     (case t of
        StringLit s \<Rightarrow> Some (FString s)
      | IntLit n \<Rightarrow> Some (FInt n)
      | FloatLit f \<Rightarrow> Some (FFloat f)
      | BoolLit b \<Rightarrow> Some (FBool b)
      | _ \<Rightarrow> None)"

definition policy_of :: "token \<Rightarrow> failure_policy option" where
  "policy_of t =
     (case t of
        TkAbort \<Rightarrow> Some Abort
      | TkSkip \<Rightarrow> Some Skip
      | TkRetry \<Rightarrow> Some Retry
      | TkContinue \<Rightarrow> Some Continue
      | _ \<Rightarrow> None)"

definition expect :: "token \<Rightarrow> unit parser" where
  "expect e ts =
     (case advance ts of (t, r) \<Rightarrow> if t = e then Inr ((), r) else Inl (ExpectedToken e t))"

definition expect_string :: "string parser" where
  "expect_string ts =
     (case advance ts of (t, r) \<Rightarrow>
        (case string_of t of Some s \<Rightarrow> Inr (s, r) | None \<Rightarrow> Inl (ExpectedString t)))"

definition expect_ident :: "string parser" where
  "expect_ident ts =
     (case advance ts of (t, r) \<Rightarrow>
        (case ident_of t of Some s \<Rightarrow> Inr (s, r) | None \<Rightarrow> Inl (ExpectedIdent t)))"

definition expect_int :: "int parser" where
  "expect_int ts =
     (case advance ts of (t, r) \<Rightarrow>
        (case int_of t of Some n \<Rightarrow> Inr (n, r) | None \<Rightarrow> Inl (ExpectedInt t)))"

definition expect_contextual_ident :: "string \<Rightarrow> unit parser" where
  "expect_contextual_ident e ts =
     (if peek ts = Ident e then Inr ((), snd (advance ts))
      else Inl (ExpectedIdentNamed e (peek ts)))"

definition parse_optional_block_name :: "string option parser" where
  "parse_optional_block_name ts =
     (case string_of (peek ts) of
        Some _ \<Rightarrow> and_then (expect_string ts) (\<lambda>(s, r). Inr (Some s, r))
      | None \<Rightarrow> Inr (None, ts))"

definition expect_u32 :: "nat parser" where
  "expect_u32 ts =
     (case int_of (peek ts) of
        Some n \<Rightarrow>
          (if n < 0 then Inl (NegativeU32 n)
           else if 2 ^ 32 \<le> n then Inl (U32OutOfRange n)
           else Inr (nat n, snd (advance ts)))
      | None \<Rightarrow> Inl (ExpectedIntegerLiteral (peek ts)))"

definition is_member_call_start :: "token list \<Rightarrow> bool" where
  "is_member_call_start ts \<longleftrightarrow> peek_at1 ts = TkDot \<or> peek_at1 ts = LParen"

section \<open>Values and options\<close>

definition i32_max :: int where "i32_max = 2 ^ 31 - 1"

definition expect_i32_in_range :: "string \<Rightarrow> int parser" where
  "expect_i32_in_range field ts =
     and_then (expect_int ts) (\<lambda>(n, r).
       if 0 \<le> n \<and> n \<le> i32_max then Inr (n, r) else Inl (I32OutOfRange field n))"

definition parse_policy :: "failure_policy parser" where
  "parse_policy ts =
     (case advance ts of (t, r) \<Rightarrow>
        (case policy_of t of Some p \<Rightarrow> Inr (p, r) | None \<Rightarrow> Inl (ExpectedPolicy t)))"

fun parse_options_from :: "nat \<Rightarrow> step_options \<Rightarrow> step_options parser" where
  "parse_options_from 0 opts ts = Inl OutOfFuel"
| "parse_options_from (Suc n) opts ts =
     (if peek ts = TkTimeout then
        and_then (expect_i32_in_range ''timeout'' (snd (advance ts))) (\<lambda>(v, r).
          parse_options_from n (opts\<lparr>timeout_seconds := Some v\<rparr>) r)
      else if peek ts = TkRetries then
        and_then (expect_i32_in_range ''retries'' (snd (advance ts))) (\<lambda>(v, r).
          parse_options_from n (opts\<lparr>max_retries := Some v\<rparr>) r)
      else if peek ts = TkOnFailure then
        and_then (parse_policy (snd (advance ts))) (\<lambda>(p, r).
          parse_options_from n (opts\<lparr>on_failure := Some p\<rparr>) r)
      else if peek ts = TkOptional then
        parse_options_from n (opts\<lparr>optional := True\<rparr>) (snd (advance ts))
      else Inr (opts, ts))"

definition parse_options :: "step_options parser" where
  "parse_options ts = parse_options_from (Suc (length ts)) default_options ts"

text \<open>The value after an identifier: \<open>.output\<close> or \<open>.result\<close>, shared by both value grammars.\<close>

definition parse_ident_value :: "field_value parser" where
  "parse_ident_value ts =
     and_then (expect_ident ts) (\<lambda>(ident, r).
       if peek r = TkDot then
         and_then (expect_ident (snd (advance r))) (\<lambda>(acc, r').
           if acc = ''output'' then Inr (VarRef ident, r')
           else if acc = ''result'' then Inr (VarRef (ident @ ''.result''), r')
           else Inl (UnknownAccessor acc))
       else Inl (BareIdentifier ident))"

definition parse_scalar :: "field_value parser" where
  "parse_scalar ts =
     (case advance ts of (t, r) \<Rightarrow>
        (case scalar_of t of Some v \<Rightarrow> Inr (v, r) | None \<Rightarrow> Inl (ExpectedValue t)))"

definition parse_value :: "field_value parser" where
  "parse_value ts =
     (if ident_of (peek ts) \<noteq> None then parse_ident_value ts else parse_scalar ts)"

fun parse_arg_value :: "nat \<Rightarrow> field_value parser"
  and parse_object_fields :: "nat \<Rightarrow> field list parser" where
  "parse_arg_value 0 ts = Inl OutOfFuel"
| "parse_arg_value (Suc n) ts =
     (if peek ts = LBrace then
        and_then (parse_object_fields n (snd (advance ts))) (\<lambda>(fields, r).
        and_then (expect RBrace r) (\<lambda>(_, r').
        Inr (Object fields, r')))
      else if ident_of (peek ts) \<noteq> None then parse_ident_value ts
      else parse_scalar ts)"
| "parse_object_fields 0 ts = Inl OutOfFuel"
| "parse_object_fields (Suc n) ts =
     (if peek ts \<noteq> RBrace \<and> peek ts \<noteq> TkEof then
        and_then (expect_ident ts) (\<lambda>(key, r).
        and_then (expect TkColon r) (\<lambda>(_, r1).
        and_then (parse_arg_value n r1) (\<lambda>(v, r2).
          if peek r2 = TkComma then
            and_then (parse_object_fields n (snd (advance r2))) (\<lambda>(fs, r3).
              Inr (Field key v # fs, r3))
          else Inr ([Field key v], r2))))
      else Inr ([], ts))"

fun parse_named_args :: "nat \<Rightarrow> field list parser" where
  "parse_named_args 0 ts = Inl OutOfFuel"
| "parse_named_args (Suc n) ts =
     (if peek ts \<noteq> RParen \<and> peek ts \<noteq> TkEof then
        and_then (expect_ident ts) (\<lambda>(key, r).
        and_then (expect TkColon r) (\<lambda>(_, r1).
        and_then (parse_arg_value n r1) (\<lambda>(v, r2).
          if peek r2 = TkComma then
            and_then (parse_named_args n (snd (advance r2))) (\<lambda>(fs, r3).
              Inr (Field key v # fs, r3))
          else Inr ([Field key v], r2))))
      else Inr ([], ts))"

fun parse_fields :: "nat \<Rightarrow> field list parser" where
  "parse_fields 0 ts = Inl OutOfFuel"
| "parse_fields (Suc n) ts =
     (if peek ts \<noteq> RBrace \<and> peek ts \<noteq> TkEof then
        and_then (expect_ident ts) (\<lambda>(key, r).
        and_then (expect TkEq r) (\<lambda>(_, r1).
        and_then (parse_value r1) (\<lambda>(v, r2).
        and_then (parse_fields n (if peek r2 = TkComma then snd (advance r2) else r2))
          (\<lambda>(fs, r3). Inr (Field key v # fs, r3)))))
      else Inr ([], ts))"

section \<open>Calls\<close>

definition parse_call_expr :: "call_expr parser" where
  "parse_call_expr ts =
     and_then (expect TkCall ts) (\<lambda>(_, r).
     and_then (expect_string r) (\<lambda>(fn, r).
     and_then (expect TkOn r) (\<lambda>(_, r).
     and_then (expect_string r) (\<lambda>(node, r).
     and_then
       (if peek r = TkWith then
          and_then (expect LBrace (snd (advance r))) (\<lambda>(_, r).
          and_then (parse_fields (Suc (length r)) r) (\<lambda>(fs, r).
          and_then (expect RBrace r) (\<lambda>(_, r).
          Inr (fs, r))))
        else Inr ([], r)) (\<lambda>(args, r).
     and_then (parse_options r) (\<lambda>(opts, r).
     Inr (\<lparr>function_name = fn, target_node = Some node, target_kind = DeviceKind,
           arguments = args, call_options = opts\<rparr>, r)))))))"

definition parse_member_call :: "call_expr parser" where
  "parse_member_call ts =
     and_then
       (case advance ts of (t, r) \<Rightarrow>
          (case ident_of t of
             Some s \<Rightarrow> Inr (s, r)
           | None \<Rightarrow> (case string_of t of Some s \<Rightarrow> Inr (s, r) | None \<Rightarrow> Inl (ExpectedAgent t))))
       (\<lambda>(agent, r).
     and_then (expect TkDot r) (\<lambda>(_, r).
     and_then (expect_ident r) (\<lambda>(ability, r).
     and_then (expect LParen r) (\<lambda>(_, r).
     and_then (parse_named_args (Suc (length r)) r) (\<lambda>(args, r).
     and_then (expect RParen r) (\<lambda>(_, r).
     and_then (parse_options r) (\<lambda>(opts, r).
     Inr (\<lparr>function_name = ability, target_node = Some agent, target_kind = AgentKind,
           arguments = args, call_options = opts\<rparr>, r))))))))"

definition parse_rhs :: "call_expr parser" where
  "parse_rhs ts =
     (if peek ts = TkCall then parse_call_expr ts
      else if ident_of (peek ts) \<noteq> None \<and> peek_at1 ts = TkDot then parse_member_call ts
      else if string_of (peek ts) \<noteq> None \<and> peek_at1 ts = TkDot then parse_member_call ts
      else Inl (ExpectedCall (peek ts)))"

section \<open>Statements\<close>

definition expect_emit_kind :: "string parser" where
  "expect_emit_kind ts =
     (case advance ts of (t, r) \<Rightarrow>
        (case string_of t of
           Some s \<Rightarrow> Inr (s, r)
         | None \<Rightarrow> (case ident_of t of Some s \<Rightarrow> Inr (s, r) | None \<Rightarrow> Inl (ExpectedEmitKind t))))"

definition parse_emit_statement :: "emit_statement parser" where
  "parse_emit_statement ts =
     and_then (expect TkEmit ts) (\<lambda>(_, r).
     and_then (expect_string r) (\<lambda>(nm, r).
     and_then (expect_contextual_ident ''kind'' r) (\<lambda>(_, r).
     and_then (expect_emit_kind r) (\<lambda>(kd, r).
     and_then (expect_contextual_ident ''value'' r) (\<lambda>(_, r).
     and_then (parse_arg_value (Suc (length r)) r) (\<lambda>(v, r).
     Inr (\<lparr>emit_name = nm, emit_kind = kd, emit_value = v\<rparr>, r)))))))"

definition is_reserved_block :: "string \<Rightarrow> bool" where
  "is_reserved_block s \<longleftrightarrow> s = ''chat'' \<or> s = ''handoff'' \<or> s = ''discuss''"

definition parse_let :: "statement parser" where
  "parse_let ts =
     and_then (expect_ident (snd (advance ts))) (\<lambda>(binding, r).
     and_then (expect TkEq r) (\<lambda>(_, r).
     and_then (parse_rhs r) (\<lambda>(call, r).
     Inr (LetCall binding call, r))))"

text \<open>The statement forms other than \<open>loop\<close>: \<open>parse_statement\<close> without its recursive branch.\<close>

definition parse_flat_statement :: "statement parser" where
  "parse_flat_statement ts =
     (if peek ts = TkLet then parse_let ts
      else if (case ident_of (peek ts) of Some s \<Rightarrow> is_reserved_block s | None \<Rightarrow> False)
              \<and> \<not> is_member_call_start ts
        then Inl (ReservedBlockForm (the (ident_of (peek ts))))
      else if peek ts = TkEmit then
        and_then (parse_emit_statement ts) (\<lambda>(e, r). Inr (EmitStmt e, r))
      else and_then (parse_rhs ts) (\<lambda>(c, r). Inr (CallStmt c, r)))"

fun parse_statement :: "nat \<Rightarrow> statement parser"
  and parse_loop_block :: "nat \<Rightarrow> loop_block parser"
  and parse_loop_sections ::
    "nat \<Rightarrow> statement list option \<Rightarrow> statement list option
      \<Rightarrow> (statement list option \<times> statement list option) parser"
  and parse_block :: "nat \<Rightarrow> statement list parser" where
  "parse_statement 0 ts = Inl OutOfFuel"
| "parse_statement (Suc n) ts =
     (if peek ts = TkLoop then and_then (parse_loop_block n ts) (\<lambda>(l, r). Inr (LoopStmt l, r))
      else parse_flat_statement ts)"
| "parse_loop_block 0 ts = Inl OutOfFuel"
| "parse_loop_block (Suc n) ts =
     and_then (expect TkLoop ts) (\<lambda>(_, r).
     and_then (parse_optional_block_name r) (\<lambda>(nm, r).
     and_then (expect_contextual_ident ''max_iters'' r) (\<lambda>(_, r).
     and_then (expect TkColon r) (\<lambda>(_, r).
     and_then (expect_u32 r) (\<lambda>(iters, r).
     and_then (expect LBrace r) (\<lambda>(_, r).
     and_then (parse_loop_sections n None None r) (\<lambda>((body, verify), r).
     and_then (expect RBrace r) (\<lambda>(_, r).
       (case body of
          None \<Rightarrow> Inl MissingBody
        | Some b \<Rightarrow>
            (case verify of
               None \<Rightarrow> Inl MissingVerify
             | Some v \<Rightarrow> Inr (LoopBlock nm iters b v, r)))))))))))"
| "parse_loop_sections 0 body verify ts = Inl OutOfFuel"
| "parse_loop_sections (Suc n) body verify ts =
     (if peek ts = RBrace then Inr ((body, verify), ts)
      else if peek ts = TkBody then
        (if body \<noteq> None then Inl DuplicateBody
         else
           and_then (expect LBrace (snd (advance ts))) (\<lambda>(_, r).
           and_then (parse_block n r) (\<lambda>(ss, r).
           and_then (expect RBrace r) (\<lambda>(_, r).
           parse_loop_sections n (Some ss) verify r))))
      else if peek ts = TkVerify then
        (if verify \<noteq> None then Inl DuplicateVerify
         else
           and_then (expect LBrace (snd (advance ts))) (\<lambda>(_, r).
           and_then (parse_block n r) (\<lambda>(ss, r).
           and_then (expect RBrace r) (\<lambda>(_, r).
           parse_loop_sections n body (Some ss) r))))
      else Inl (ExpectedSection (peek ts)))"
| "parse_block 0 ts = Inl OutOfFuel"
| "parse_block (Suc n) ts =
     (if peek ts \<noteq> RBrace then
        and_then (parse_statement n ts) (\<lambda>(s, r).
        and_then (parse_block n r) (\<lambda>(ss, r).
        Inr (s # ss, r)))
      else Inr ([], ts))"

fun parse_mission_statements :: "nat \<Rightarrow> statement list parser" where
  "parse_mission_statements 0 ts = Inl OutOfFuel"
| "parse_mission_statements (Suc n) ts =
     (if peek ts \<noteq> RBrace \<and> peek ts \<noteq> TkEof then
        and_then (parse_statement (length ts + 3) ts) (\<lambda>(s, r).
        and_then (parse_mission_statements n r) (\<lambda>(ss, r).
        Inr (s # ss, r)))
      else Inr ([], ts))"

definition parse_mission :: "mission_decl parser" where
  "parse_mission ts =
     and_then (expect TkMission ts) (\<lambda>(_, r).
     and_then (expect_string r) (\<lambda>(nm, r).
     and_then (expect LBrace r) (\<lambda>(_, r).
     and_then (parse_mission_statements (Suc (length r)) r) (\<lambda>(ss, r).
     and_then (expect RBrace r) (\<lambda>(_, r).
     Inr (\<lparr>mission_name = nm, statements = ss\<rparr>, r))))))"

definition parse_program :: "eal_program parser" where
  "parse_program ts = and_then (parse_mission ts) (\<lambda>(m, r). Inr (\<lparr>mission = m\<rparr>, r))"

text \<open>\<open>parse\<close>: the tokens left after the mission are dropped.\<close>

definition parse :: "string \<Rightarrow> parse_error + eal_program" where
  "parse source =
     (case tokenize source of
        Inl e \<Rightarrow> Inl (LexError e)
      | Inr ts \<Rightarrow> and_then (parse_program ts) (\<lambda>(p, _). Inr p))"

end
