(* ===== verification/EalSyntax.thy ===== *)
theory EalSyntax
  imports EalParser
begin

text \<open>
  The parser of \<open>EalParser\<close> against the concrete syntax: inversion rules for every token
  accessor, elimination rules for the compound parsers, and termination: every parser consumes input,
  and no input exhausts the fuel.
\<close>

named_theorems parser_iff \<open>what the input of a successful token accessor looks like\<close>
named_theorems parser_fuel \<open>parsers that never report OutOfFuel\<close>

section \<open>Inversion\<close>

lemma peek_simps [simp]: "peek [] = TkEof" "peek (t # r) = t"
  by (simp_all add: peek_def)

lemma peek_at1_simps [simp]:
  "peek_at1 [] = TkEof" "peek_at1 [t] = TkEof" "peek_at1 (t # u # r) = u"
  by (simp_all add: peek_at1_def)

lemma advance_simps [simp]: "advance [] = (TkEof, [])" "advance (t # r) = (t, r)"
  by (simp_all add: advance_def)

lemma peek_iff: "t \<noteq> TkEof \<Longrightarrow> peek ts = t \<longleftrightarrow> (\<exists>r. ts = t # r)"
  by (cases ts) auto

lemma ident_of_Some [simp]: "ident_of t = Some s \<longleftrightarrow> t = Ident s"
  by (auto simp: ident_of_def split: token.splits)

lemma string_of_Some [simp]: "string_of t = Some s \<longleftrightarrow> t = StringLit s"
  by (auto simp: string_of_def split: token.splits)

lemma int_of_Some [simp]: "int_of t = Some n \<longleftrightarrow> t = IntLit n"
  by (auto simp: int_of_def split: token.splits)

lemma token_of_simps [simp]:
  "ident_of (Ident s) = Some s" "string_of (StringLit s) = Some s" "int_of (IntLit n) = Some n"
  "ident_of (StringLit s) = None" "string_of (Ident s) = None" "ident_of LBrace = None"
  "string_of TkLoop = None" "ident_of TkEof = None" "ident_of TkLet = None"
  "ident_of TkEmit = None" "ident_of TkCall = None"
  by (simp_all add: ident_of_def string_of_def int_of_def)

lemma accessor_simps [simp]:
  "expect e (e # r) = Inr ((), r)" "expect_string (StringLit s # r) = Inr (s, r)"
  "expect_ident (Ident s # r) = Inr (s, r)" "expect_int (IntLit n # r) = Inr (n, r)"
  "expect_contextual_ident s (Ident s # r) = Inr ((), r)"
  "expect_emit_kind (StringLit s # r) = Inr (s, r)"
  "parse_optional_block_name (StringLit s # r) = Inr (Some s, r)"
  by (simp_all add: expect_def expect_string_def expect_ident_def expect_int_def
      expect_contextual_ident_def expect_emit_kind_def parse_optional_block_name_def)

lemma expect_iff [parser_iff]: "e \<noteq> TkEof \<Longrightarrow> expect e ts = Inr (u, r) \<longleftrightarrow> ts = e # r"
  by (cases ts) (auto simp: expect_def)

lemma expect_string_iff [parser_iff]: "expect_string ts = Inr (s, r) \<longleftrightarrow> ts = StringLit s # r"
  by (cases ts) (auto simp: expect_string_def string_of_def split: option.splits token.splits)

lemma expect_ident_iff [parser_iff]: "expect_ident ts = Inr (s, r) \<longleftrightarrow> ts = Ident s # r"
  by (cases ts) (auto simp: expect_ident_def ident_of_def split: option.splits token.splits)

lemma expect_int_iff [parser_iff]: "expect_int ts = Inr (n, r) \<longleftrightarrow> ts = IntLit n # r"
  by (cases ts) (auto simp: expect_int_def int_of_def split: option.splits token.splits)

lemma expect_contextual_ident_iff [parser_iff]:
  "expect_contextual_ident e ts = Inr (u, r) \<longleftrightarrow> ts = Ident e # r"
  by (cases ts) (auto simp: expect_contextual_ident_def)

lemma expect_u32_iff [parser_iff]:
  "expect_u32 ts = Inr (n, r) \<longleftrightarrow> ts = IntLit (int n) # r \<and> n < 2 ^ 32"
  by (cases ts)
    (auto simp: expect_u32_def int_of_def nat_less_iff split: option.splits token.splits if_splits)

lemma expect_i32_iff [parser_iff]:
  "expect_i32_in_range f ts = Inr (n, r) \<longleftrightarrow> ts = IntLit n # r \<and> 0 \<le> n \<and> n \<le> i32_max"
  by (auto simp: expect_i32_in_range_def result_simps parser_iff split: if_splits)

lemma parse_policy_iff [parser_iff]:
  "parse_policy ts = Inr (p, r) \<longleftrightarrow> (\<exists>t. ts = t # r \<and> policy_of t = Some p)"
  by (cases ts) (auto simp: parse_policy_def policy_of_def split: option.splits)

lemma parse_scalar_iff [parser_iff]:
  "parse_scalar ts = Inr (v, r) \<longleftrightarrow> (\<exists>t. ts = t # r \<and> scalar_of t = Some v)"
  by (cases ts) (auto simp: parse_scalar_def scalar_of_def split: option.splits)

lemma expect_emit_kind_iff [parser_iff]:
  "expect_emit_kind ts = Inr (s, r) \<longleftrightarrow> ts = StringLit s # r \<or> ts = Ident s # r"
  by (cases ts)
    (auto simp: expect_emit_kind_def string_of_def ident_of_def split: option.splits token.splits)

lemma parse_optional_block_name_iff [parser_iff]:
  "parse_optional_block_name ts = Inr (nm, r) \<longleftrightarrow>
     (case nm of Some s \<Rightarrow> ts = StringLit s # r | None \<Rightarrow> ts = r \<and> string_of (peek ts) = None)"
  by (cases nm)
    (auto simp: parse_optional_block_name_def result_simps parser_iff split: option.splits)

lemma parse_ident_value_iff [parser_iff]:
  "parse_ident_value ts = Inr (v, r) \<longleftrightarrow>
     (\<exists>i. ts = Ident i # TkDot # Ident ''output'' # r \<and> v = VarRef i) \<or>
     (\<exists>i. ts = Ident i # TkDot # Ident ''result'' # r \<and> v = VarRef (i @ ''.result''))"
  (is "?l \<longleftrightarrow> ?r")
proof
  show "?l \<Longrightarrow> ?r"
    by (auto simp: parse_ident_value_def result_simps parser_iff peek_iff split: if_splits)
  show "?r \<Longrightarrow> ?l"
    by (auto simp: parse_ident_value_def)
qed

section \<open>Consumption and fuel\<close>

lemma basic_fuel [simp, parser_fuel]:
  "expect e ts \<noteq> Inl OutOfFuel" "expect_string ts \<noteq> Inl OutOfFuel"
  "expect_ident ts \<noteq> Inl OutOfFuel" "expect_int ts \<noteq> Inl OutOfFuel"
  "expect_contextual_ident s ts \<noteq> Inl OutOfFuel" "expect_u32 ts \<noteq> Inl OutOfFuel"
  "parse_policy ts \<noteq> Inl OutOfFuel" "parse_scalar ts \<noteq> Inl OutOfFuel"
  "expect_emit_kind ts \<noteq> Inl OutOfFuel"
  by (auto simp: expect_def expect_string_def expect_ident_def expect_int_def
      expect_contextual_ident_def expect_u32_def parse_policy_def parse_scalar_def
      expect_emit_kind_def split: prod.splits option.splits)

lemma basic_fuel2 [simp, parser_fuel]:
  "expect_i32_in_range f ts \<noteq> Inl OutOfFuel" "parse_ident_value ts \<noteq> Inl OutOfFuel"
  "parse_optional_block_name ts \<noteq> Inl OutOfFuel" "parse_value ts \<noteq> Inl OutOfFuel"
  by (auto simp: expect_i32_in_range_def parse_ident_value_def parse_optional_block_name_def
      parse_value_def result_simps split: option.splits if_splits)

lemma parse_options_from_length:
  "parse_options_from n o1 ts = Inr (o2, r) \<Longrightarrow> length r \<le> length ts"
  by (induction n o1 ts rule: parse_options_from.induct)
    (fastforce simp: result_simps parser_iff peek_iff split: if_splits)+

lemma parse_options_from_fuel:
  "length ts < n \<Longrightarrow> parse_options_from n o1 ts \<noteq> Inl OutOfFuel"
  by (induction n o1 ts rule: parse_options_from.induct)
    (auto simp: result_simps parser_iff peek_iff split: if_splits)

lemma parse_options_length: "parse_options ts = Inr (o2, r) \<Longrightarrow> length r \<le> length ts"
  unfolding parse_options_def by (rule parse_options_from_length)

lemma parse_options_fuel [simp, parser_fuel]: "parse_options ts \<noteq> Inl OutOfFuel"
  by (simp add: parse_options_def parse_options_from_fuel del: parse_options_from.simps)

lemma parse_value_length: "parse_value ts = Inr (v, r) \<Longrightarrow> length r < length ts"
  by (auto simp: parse_value_def parser_iff split: if_splits)

lemma parse_arg_value_cases:
  assumes "parse_arg_value (Suc n) ts = Inr (v, r)"
  obtains (object) ts' fs where "ts = LBrace # ts'" "v = Object fs"
      "parse_object_fields n ts' = Inr (fs, RBrace # r)"
    | (ident) "parse_ident_value ts = Inr (v, r)" "ident_of (peek ts) \<noteq> None"
    | (scalar) "parse_scalar ts = Inr (v, r)"
proof (cases "peek ts = LBrace")
  case True
  then obtain ts' where ts: "ts = LBrace # ts'" by (auto simp: peek_iff)
  with assms show ?thesis by (auto simp: result_simps parser_iff intro: object)
next
  case False
  with assms show ?thesis by (auto split: if_splits intro: ident scalar)
qed

text \<open>
  One step of the two comma-separated field loops (\<open>parse_object_fields\<close>, \<open>parse_named_args\<close>)
  and of the \<open>with\<close> block (\<open>parse_fields\<close>).
\<close>

lemma parse_object_fields_cases:
  assumes "parse_object_fields (Suc n) ts = Inr (fs, r)"
  obtains (stop) "fs = []" "r = ts" "peek ts = RBrace \<or> peek ts = TkEof"
    | (comma) key r1 v r2 fs' where "ts = Ident key # TkColon # r1" "fs = Field key v # fs'"
      "parse_arg_value n r1 = Inr (v, TkComma # r2)" "parse_object_fields n r2 = Inr (fs', r)"
    | (last) key r1 v where "ts = Ident key # TkColon # r1" "fs = [Field key v]"
      "parse_arg_value n r1 = Inr (v, r)" "peek r \<noteq> TkComma"
proof (cases "peek ts = RBrace \<or> peek ts = TkEof")
  case True
  with assms show ?thesis by (auto intro: stop)
next
  case False
  with assms obtain key r1 v r2 where *: "ts = Ident key # TkColon # r1"
    "parse_arg_value n r1 = Inr (v, r2)"
    "(if peek r2 = TkComma then and_then (parse_object_fields n (snd (advance r2)))
        (\<lambda>(fs, r3). Inr (Field key v # fs, r3)) else Inr ([Field key v], r2)) = Inr (fs, r)"
    by (auto simp: result_simps parser_iff)
  show ?thesis
  proof (cases "peek r2 = TkComma")
    case True
    then obtain r2' where "r2 = TkComma # r2'" by (auto simp: peek_iff)
    with * show ?thesis by (auto simp: result_simps intro: comma)
  next
    case False
    with * show ?thesis by (auto intro: last)
  qed
qed

lemma parse_named_args_cases:
  assumes "parse_named_args (Suc n) ts = Inr (fs, r)"
  obtains (stop) "fs = []" "r = ts" "peek ts = RParen \<or> peek ts = TkEof"
    | (comma) key r1 v r2 fs' where "ts = Ident key # TkColon # r1" "fs = Field key v # fs'"
      "parse_arg_value n r1 = Inr (v, TkComma # r2)" "parse_named_args n r2 = Inr (fs', r)"
    | (last) key r1 v where "ts = Ident key # TkColon # r1" "fs = [Field key v]"
      "parse_arg_value n r1 = Inr (v, r)" "peek r \<noteq> TkComma"
proof (cases "peek ts = RParen \<or> peek ts = TkEof")
  case True
  with assms show ?thesis by (auto intro: stop)
next
  case False
  with assms obtain key r1 v r2 where *: "ts = Ident key # TkColon # r1"
    "parse_arg_value n r1 = Inr (v, r2)"
    "(if peek r2 = TkComma then and_then (parse_named_args n (snd (advance r2)))
        (\<lambda>(fs, r3). Inr (Field key v # fs, r3)) else Inr ([Field key v], r2)) = Inr (fs, r)"
    by (auto simp: result_simps parser_iff)
  show ?thesis
  proof (cases "peek r2 = TkComma")
    case True
    then obtain r2' where "r2 = TkComma # r2'" by (auto simp: peek_iff)
    with * show ?thesis by (auto simp: result_simps intro: comma)
  next
    case False
    with * show ?thesis by (auto intro: last)
  qed
qed

lemma parse_arg_value_length:
  "parse_arg_value n ts = Inr (v, r) \<Longrightarrow> length r < length ts"
  "parse_object_fields n ts = Inr (fs, r) \<Longrightarrow> length r \<le> length ts"
proof (induction n arbitrary: ts v r fs)
  case (Suc n)
  {
    case 1
    then show ?case
    proof (cases rule: parse_arg_value_cases)
      case object
      with Suc.IH(2) show ?thesis by fastforce
    qed (auto simp: parser_iff)
  next
    case 2
    then show ?case
    proof (cases rule: parse_object_fields_cases)
      case (comma key r1 v r2 fs')
      with Suc.IH(1) [OF comma(3)] Suc.IH(2) [OF comma(4)] show ?thesis by simp
    next
      case (last key r1 v)
      with Suc.IH(1) [OF last(3)] show ?thesis by simp
    qed simp
  }
qed simp_all

lemma parse_arg_value_fuel:
  "length ts < n \<Longrightarrow> parse_arg_value n ts \<noteq> Inl OutOfFuel"
  "length ts < n \<Longrightarrow> parse_object_fields n ts \<noteq> Inl OutOfFuel"
proof (induction n arbitrary: ts)
  case (Suc n)
  {
    case 1
    show ?case
    proof (cases "peek ts = LBrace")
      case True
      then obtain ts' where "ts = LBrace # ts'" by (auto simp: peek_iff)
      with Suc.IH(2) [of ts'] 1 show ?thesis by (auto simp: result_simps)
    qed simp
  next
    case 2
    show ?case
    proof
      assume "parse_object_fields (Suc n) ts = Inl OutOfFuel"
      then obtain key r1 where ts: "ts = Ident key # TkColon # r1"
        and step: "parse_arg_value n r1 = Inl OutOfFuel \<or>
          (\<exists>v r2. parse_arg_value n r1 = Inr (v, r2) \<and> peek r2 = TkComma \<and>
            parse_object_fields n (snd (advance r2)) = Inl OutOfFuel)"
        by (auto simp: result_simps parser_iff split: if_splits)
      with 2 Suc.IH(1) [of r1] obtain v r2 where "parse_arg_value n r1 = Inr (v, r2)"
        "parse_object_fields n (snd (advance r2)) = Inl OutOfFuel" by auto
      moreover from this parse_arg_value_length(1) 2 ts have "length (snd (advance r2)) < n"
        by (cases r2) fastforce+
      ultimately show False using Suc.IH(2) by blast
    qed
  }
qed simp_all

lemma parse_named_args_length: "parse_named_args n ts = Inr (fs, r) \<Longrightarrow> length r \<le> length ts"
proof (induction n arbitrary: ts fs r)
  case (Suc n)
  from Suc.prems show ?case
  proof (cases rule: parse_named_args_cases)
    case (comma key r1 v r2 fs')
    with parse_arg_value_length(1) [OF comma(3)] Suc.IH [OF comma(4)] show ?thesis by simp
  next
    case (last key r1 v)
    with parse_arg_value_length(1) [OF last(3)] show ?thesis by simp
  qed simp
qed simp

lemma parse_named_args_fuel: "length ts < n \<Longrightarrow> parse_named_args n ts \<noteq> Inl OutOfFuel"
proof (induction n arbitrary: ts)
  case (Suc n)
  show ?case
  proof
    assume "parse_named_args (Suc n) ts = Inl OutOfFuel"
    then obtain key r1 where ts: "ts = Ident key # TkColon # r1"
      and step: "parse_arg_value n r1 = Inl OutOfFuel \<or>
        (\<exists>v r2. parse_arg_value n r1 = Inr (v, r2) \<and> peek r2 = TkComma \<and>
          parse_named_args n (snd (advance r2)) = Inl OutOfFuel)"
      by (auto simp: result_simps parser_iff split: if_splits)
    with Suc.prems parse_arg_value_fuel(1) [of r1 n] obtain v r2
      where v: "parse_arg_value n r1 = Inr (v, r2)"
        "parse_named_args n (snd (advance r2)) = Inl OutOfFuel" by auto
    moreover from v(1) parse_arg_value_length(1) Suc.prems ts have "length (snd (advance r2)) < n"
      by (cases r2) fastforce+
    ultimately show False using Suc.IH by blast
  qed
qed simp

lemma parse_fields_cases:
  assumes "parse_fields (Suc n) ts = Inr (fs, r)"
  obtains (stop) "fs = []" "r = ts" "peek ts = RBrace \<or> peek ts = TkEof"
    | (field) key r1 v r2 fs' where "ts = Ident key # TkEq # r1" "fs = Field key v # fs'"
      "parse_value r1 = Inr (v, r2)"
      "parse_fields n (if peek r2 = TkComma then snd (advance r2) else r2) = Inr (fs', r)"
proof (cases "peek ts = RBrace \<or> peek ts = TkEof")
  case True
  with assms show ?thesis by (auto intro: stop)
next
  case False
  with assms show ?thesis by (auto simp: result_simps parser_iff intro: field)
qed

lemma length_skip_comma: "length (if peek r = t then snd (advance r) else r) \<le> length r"
  by (cases r) auto

lemma parse_fields_length: "parse_fields n ts = Inr (fs, r) \<Longrightarrow> length r \<le> length ts"
proof (induction n arbitrary: ts fs r)
  case (Suc n)
  from Suc.prems show ?case
  proof (cases rule: parse_fields_cases)
    case (field key r1 v r2 fs')
    with parse_value_length [OF field(3)] Suc.IH [OF field(4)] length_skip_comma [of r2 TkComma]
    show ?thesis by simp
  qed simp
qed simp

lemma parse_fields_fuel: "length ts < n \<Longrightarrow> parse_fields n ts \<noteq> Inl OutOfFuel"
proof (induction n arbitrary: ts)
  case (Suc n)
  show ?case
  proof
    assume "parse_fields (Suc n) ts = Inl OutOfFuel"
    then obtain key r1 v r2 where ts: "ts = Ident key # TkEq # r1" and v: "parse_value r1 = Inr (v, r2)"
      and "parse_fields n (if peek r2 = TkComma then snd (advance r2) else r2) = Inl OutOfFuel"
      by (auto simp: result_simps parser_iff split: if_splits)
    moreover have "length (if peek r2 = TkComma then snd (advance r2) else r2) < n"
      using Suc.prems ts parse_value_length [OF v] length_skip_comma [of r2 TkComma] by simp
    ultimately show False using Suc.IH by blast
  qed
qed simp

lemma parse_call_expr_cases:
  assumes "parse_call_expr ts = Inr (c, r)"
  obtains fn node r1 r2 args opts where
    "ts = TkCall # StringLit fn # TkOn # StringLit node # r1"
    "(args = [] \<and> r2 = r1 \<and> peek r1 \<noteq> TkWith) \<or>
       (\<exists>r3. r1 = TkWith # LBrace # r3 \<and> parse_fields (Suc (length r3)) r3 = Inr (args, RBrace # r2))"
    "parse_options r2 = Inr (opts, r)"
    "c = \<lparr>function_name = fn, target_node = Some node, target_kind = DeviceKind,
          arguments = args, call_options = opts\<rparr>"
proof -
  from assms obtain fn node r1 r2 args opts where
    ts: "ts = TkCall # StringLit fn # TkOn # StringLit node # r1"
    and opts: "parse_options r2 = Inr (opts, r)"
      "c = \<lparr>function_name = fn, target_node = Some node, target_kind = DeviceKind,
            arguments = args, call_options = opts\<rparr>"
    and block: "(if peek r1 = TkWith then
          and_then (expect LBrace (snd (advance r1))) (\<lambda>(_, r).
          and_then (parse_fields (Suc (length r)) r) (\<lambda>(fs, r).
          and_then (expect RBrace r) (\<lambda>(_, r).
          Inr (fs, r))))
        else Inr ([], r1)) = Inr (args, r2)"
    unfolding parse_call_expr_def
    by (auto simp: result_simps parser_iff simp del: parse_fields.simps)
  have "(args = [] \<and> r2 = r1 \<and> peek r1 \<noteq> TkWith) \<or>
      (\<exists>r3. r1 = TkWith # LBrace # r3 \<and> parse_fields (Suc (length r3)) r3 = Inr (args, RBrace # r2))"
  proof (cases "peek r1 = TkWith")
    case True
    then obtain r1' where "r1 = TkWith # r1'" by (auto simp: peek_iff)
    with block show ?thesis by (auto simp: result_simps parser_iff simp del: parse_fields.simps)
  next
    case False
    with block show ?thesis by simp
  qed
  then show thesis by (rule that [OF ts _ opts])
qed

lemma parse_member_call_cases:
  assumes "parse_member_call ts = Inr (c, r)"
  obtains t agent ability r1 r2 args opts where
    "ts = t # TkDot # Ident ability # LParen # r1" "t = Ident agent \<or> t = StringLit agent"
    "parse_named_args (Suc (length r1)) r1 = Inr (args, RParen # r2)"
    "parse_options r2 = Inr (opts, r)"
    "c = \<lparr>function_name = ability, target_node = Some agent, target_kind = AgentKind,
          arguments = args, call_options = opts\<rparr>"
proof -
  have agent: "(case advance ts of (t, r) \<Rightarrow>
        (case ident_of t of
           Some s \<Rightarrow> Inr (s, r)
         | None \<Rightarrow> (case string_of t of Some s \<Rightarrow> Inr (s, r) | None \<Rightarrow> Inl (ExpectedAgent t))))
      = Inr (a, r0) \<Longrightarrow> \<exists>t. ts = t # r0 \<and> (t = Ident a \<or> t = StringLit a)" for a r0
    by (cases ts) (auto split: option.splits)
  show thesis
    using assms unfolding parse_member_call_def
    by (auto simp: result_simps parser_iff simp del: parse_named_args.simps
        intro: that dest!: agent)
qed

lemma parse_rhs_cases:
  assumes "parse_rhs ts = Inr (c, r)"
  obtains (device) "parse_call_expr ts = Inr (c, r)" | (agent) "parse_member_call ts = Inr (c, r)"
  using assms by (auto simp: parse_rhs_def split: if_splits)

lemma parse_call_expr_length: "parse_call_expr ts = Inr (c, r) \<Longrightarrow> length r < length ts"
  by (erule parse_call_expr_cases)
    (auto dest!: parse_options_length parse_fields_length simp del: parse_fields.simps)

lemma parse_member_call_length: "parse_member_call ts = Inr (c, r) \<Longrightarrow> length r < length ts"
  by (erule parse_member_call_cases)
    (auto dest!: parse_options_length parse_named_args_length simp del: parse_named_args.simps)

lemma parse_rhs_length: "parse_rhs ts = Inr (c, r) \<Longrightarrow> length r < length ts"
  by (auto elim!: parse_rhs_cases dest: parse_call_expr_length parse_member_call_length)

lemma parse_call_expr_fuel [simp, parser_fuel]: "parse_call_expr ts \<noteq> Inl OutOfFuel"
  unfolding parse_call_expr_def
  by (auto simp: result_simps parse_fields_fuel simp del: parse_fields.simps split: if_splits)

lemma parse_member_call_fuel [simp, parser_fuel]: "parse_member_call ts \<noteq> Inl OutOfFuel"
  unfolding parse_member_call_def
  by (auto simp: result_simps parse_named_args_fuel simp del: parse_named_args.simps
      split: prod.splits option.splits)

lemma parse_rhs_fuel [simp, parser_fuel]: "parse_rhs ts \<noteq> Inl OutOfFuel"
  by (simp add: parse_rhs_def)

lemma parse_emit_cases:
  assumes "parse_emit_statement ts = Inr (e, r)"
  obtains nm kd t v r1 where
    "ts = TkEmit # StringLit nm # Ident ''kind'' # t # Ident ''value'' # r1"
    "t = StringLit kd \<or> t = Ident kd" "parse_arg_value (Suc (length r1)) r1 = Inr (v, r)"
    "e = \<lparr>emit_name = nm, emit_kind = kd, emit_value = v\<rparr>"
  using assms unfolding parse_emit_statement_def
  by (auto simp: result_simps parser_iff simp del: parse_arg_value.simps intro: that)

lemma parse_emit_length: "parse_emit_statement ts = Inr (e, r) \<Longrightarrow> length r < length ts"
  by (erule parse_emit_cases)
    (auto dest!: parse_arg_value_length(1) simp del: parse_arg_value.simps)

lemma parse_emit_fuel [simp, parser_fuel]: "parse_emit_statement ts \<noteq> Inl OutOfFuel"
  unfolding parse_emit_statement_def
  by (auto simp: result_simps parse_arg_value_fuel simp del: parse_arg_value.simps)

lemma parse_flat_statement_cases:
  assumes "parse_flat_statement ts = Inr (s, r)"
  obtains (let_call) b c r1 where "ts = TkLet # Ident b # TkEq # r1" "parse_rhs r1 = Inr (c, r)"
      "s = LetCall b c"
    | (emit) e where "parse_emit_statement ts = Inr (e, r)" "s = EmitStmt e"
    | (call) c where "parse_rhs ts = Inr (c, r)" "s = CallStmt c"
proof (cases "peek ts = TkLet")
  case True
  then obtain ts' where "ts = TkLet # ts'" by (auto simp: peek_iff)
  with assms show ?thesis
    by (auto simp: parse_flat_statement_def parse_let_def result_simps parser_iff intro: let_call)
next
  case False
  with assms show ?thesis
    by (auto simp: parse_flat_statement_def result_simps split: if_splits intro: emit call)
qed

lemma parse_flat_statement_length: "parse_flat_statement ts = Inr (s, r) \<Longrightarrow> length r < length ts"
  by (erule parse_flat_statement_cases) (auto dest: parse_rhs_length parse_emit_length)

lemma parse_flat_statement_fuel [simp, parser_fuel]: "parse_flat_statement ts \<noteq> Inl OutOfFuel"
  by (auto simp: parse_flat_statement_def parse_let_def result_simps)

lemma parse_loop_block_cases:
  assumes "parse_loop_block (Suc n) ts = Inr (l, r)"
  obtains nm iters r1 b v where
    "ts = TkLoop # (case nm of Some s \<Rightarrow> [StringLit s] | None \<Rightarrow> []) @
       Ident ''max_iters'' # TkColon # IntLit (int iters) # LBrace # r1" "iters < 2 ^ 32"
    "parse_loop_sections n None None r1 = Inr ((Some b, Some v), RBrace # r)"
    "l = LoopBlock nm iters b v"
proof -
  from assms obtain nm r0 iters r1 body verify where
    ts: "ts = TkLoop # r0" "parse_optional_block_name r0 =
      Inr (nm, Ident ''max_iters'' # TkColon # IntLit (int iters) # LBrace # r1)" "iters < 2 ^ 32"
    and secs: "parse_loop_sections n None None r1 = Inr ((body, verify), RBrace # r)"
    and "(case body of None \<Rightarrow> Inl MissingBody
          | Some b \<Rightarrow> (case verify of None \<Rightarrow> Inl MissingVerify
                        | Some v \<Rightarrow> Inr (LoopBlock nm iters b v, r))) = Inr (l, r)"
    by (auto simp: result_simps expect_iff expect_contextual_ident_iff expect_u32_iff
        split: option.splits)
  then obtain b v where "body = Some b" "verify = Some v" "l = LoopBlock nm iters b v"
    by (auto split: option.splits)
  with ts secs show thesis
    by (intro that [of nm iters r1 b v]) (auto simp: parser_iff split: option.splits)
qed

lemma parse_loop_sections_cases:
  assumes "parse_loop_sections (Suc n) b v ts = Inr (res, r)"
  obtains (stop) "res = (b, v)" "r = ts" "peek ts = RBrace"
    | (body) r1 ss r2 where "ts = TkBody # LBrace # r1" "b = None"
      "parse_block n r1 = Inr (ss, RBrace # r2)"
      "parse_loop_sections n (Some ss) v r2 = Inr (res, r)"
    | (verify) r1 ss r2 where "ts = TkVerify # LBrace # r1" "v = None"
      "parse_block n r1 = Inr (ss, RBrace # r2)"
      "parse_loop_sections n b (Some ss) r2 = Inr (res, r)"
proof -
  consider "peek ts = RBrace" | r0 where "ts = TkBody # r0" | r0 where "ts = TkVerify # r0"
    using assms by (auto simp: peek_iff split: if_splits)
  then show thesis
  proof cases
    case 1
    with assms show thesis by (auto intro: stop)
  next
    case 2
    with assms show thesis
      by (auto simp: result_simps parser_iff split: if_splits intro: body)
  next
    case 3
    with assms show thesis
      by (auto simp: result_simps parser_iff split: if_splits intro: verify)
  qed
qed

lemma parse_block_cases:
  assumes "parse_block (Suc n) ts = Inr (ss, r)"
  obtains (stop) "ss = []" "r = ts" "peek ts = RBrace"
    | (cons) s r1 ss' where "ss = s # ss'" "parse_statement n ts = Inr (s, r1)"
      "parse_block n r1 = Inr (ss', r)"
  using assms by (auto simp: result_simps split: if_splits)

lemma parse_statement_length:
  "parse_statement n ts = Inr (s, r) \<Longrightarrow> length r < length ts"
  "parse_loop_block n ts = Inr (l, r) \<Longrightarrow> length r < length ts"
  "parse_loop_sections n b v ts = Inr (res, r) \<Longrightarrow> length r \<le> length ts"
  "parse_block n ts = Inr (ss, r) \<Longrightarrow> length r \<le> length ts"
proof (induction n arbitrary: ts s r l b v res ss)
  case (Suc n)
  {
    case 1
    then show ?case
      using Suc.IH(2) by (auto simp: result_simps split: if_splits dest: parse_flat_statement_length)
  next
    case 2
    then show ?case
    proof (cases rule: parse_loop_block_cases)
      case (1 nm iters r1 b v)
      with Suc.IH(3) [OF 1(3)] show ?thesis by (auto split: option.splits)
    qed
  next
    case 3
    then show ?case
    proof (cases rule: parse_loop_sections_cases)
      case (body r1 ss r2)
      with Suc.IH(4) [OF body(3)] Suc.IH(3) [OF body(4)] show ?thesis by simp
    next
      case (verify r1 ss r2)
      with Suc.IH(4) [OF verify(3)] Suc.IH(3) [OF verify(4)] show ?thesis by simp
    qed simp
  next
    case 4
    then show ?case
    proof (cases rule: parse_block_cases)
      case (cons s r1 ss')
      with Suc.IH(1) [OF cons(2)] Suc.IH(4) [OF cons(3)] show ?thesis by simp
    qed simp
  }
qed simp_all

lemma parse_statement_fuel:
  "length ts + 2 \<le> n \<Longrightarrow> parse_statement n ts \<noteq> Inl OutOfFuel"
  "length ts + 1 \<le> n \<Longrightarrow> parse_loop_block n ts \<noteq> Inl OutOfFuel"
  "length ts + 2 \<le> n \<Longrightarrow> parse_loop_sections n b v ts \<noteq> Inl OutOfFuel"
  "length ts + 3 \<le> n \<Longrightarrow> parse_block n ts \<noteq> Inl OutOfFuel"
proof (induction n arbitrary: ts b v)
  case (Suc n)
  {
    case 1
    then show ?case using Suc.IH(2) [of ts] by (auto simp: result_simps)
  next
    case 2
    show ?case
    proof
      assume "parse_loop_block (Suc n) ts = Inl OutOfFuel"
      then obtain r0 nm iters r1 where "ts = TkLoop # r0"
        "parse_optional_block_name r0 =
           Inr (nm, Ident ''max_iters'' # TkColon # IntLit (int iters) # LBrace # r1)"
        "parse_loop_sections n None None r1 = Inl OutOfFuel"
        by (auto simp: result_simps expect_iff expect_contextual_ident_iff expect_u32_iff
            split: option.splits)
      moreover from this have "length r1 + 2 \<le> n"
        using 2 by (auto simp: parser_iff split: option.splits)
      ultimately show False using Suc.IH(3) by blast
    qed
  next
    case 3
    have step: "parse_block n r1 \<noteq> Inl OutOfFuel" if "length r1 + 2 \<le> length ts" for r1
      using Suc.IH(4) [of r1] 3 that by simp
    have next_section: "parse_loop_sections n b' v' r2 \<noteq> Inl OutOfFuel"
      if "parse_block n r1 = Inr (ss, RBrace # r2)" "length r1 + 2 \<le> length ts" for b' v' r1 ss r2
      using Suc.IH(3) [of r2 b' v'] parse_statement_length(4) [OF that(1)] 3 that(2) by simp
    show ?case
    proof
      assume out: "parse_loop_sections (Suc n) b v ts = Inl OutOfFuel"
      then consider r0 where "ts = TkBody # r0" | r0 where "ts = TkVerify # r0"
        by (auto simp: peek_iff split: if_splits)
      then show False
      proof cases
        case 1
        with out show False
          using step next_section by (fastforce simp: result_simps expect_iff split: if_splits)
      next
        case 2
        with out show False
          using step next_section by (fastforce simp: result_simps expect_iff split: if_splits)
      qed
    qed
  next
    case 4
    have "parse_block n r1 \<noteq> Inl OutOfFuel" if "parse_statement n ts = Inr (s, r1)" for s r1
      using Suc.IH(4) [of r1] parse_statement_length(1) [OF that] 4 by simp
    with Suc.IH(1) [of ts] 4 show ?case by (auto simp: result_simps)
  }
qed simp_all

lemma parse_mission_statements_fuel:
  "length ts < n \<Longrightarrow> parse_mission_statements n ts \<noteq> Inl OutOfFuel"
proof (induction n arbitrary: ts)
  case (Suc n)
  have "parse_mission_statements n r \<noteq> Inl OutOfFuel"
    if "parse_statement (length ts + 3) ts = Inr (s, r)" for s r
    using Suc.IH [of r] parse_statement_length(1) [OF that] Suc.prems by simp
  with parse_statement_fuel(1) [of ts "length ts + 3"] show ?case
    by (auto simp: result_simps simp del: parse_statement.simps)
qed simp

lemma parse_tokens_fuel: "parse_program ts \<noteq> Inl OutOfFuel"
  by (auto simp: parse_program_def parse_mission_def result_simps parse_mission_statements_fuel
      simp del: parse_mission_statements.simps)

lemma parse_fuel: "parse source \<noteq> Inl OutOfFuel"
  using parse_tokens_fuel by (auto simp: parse_def result_simps split: sum.splits)

end
