(* ===== verification/EalPrint.thy ===== *)
theory EalPrint
  imports EalSyntax
begin

text \<open>
  The canonical concrete syntax of an EAL program.  The module has no printer of its own; the one
  here is the reference the parser is measured against.  It fixes the well-formed syntax trees (the
  trees \<open>parse\<close> can return), prints one as a token list, and shows that the parser of
  \<open>src/eal/parser/mod.rs\<close> reads the printed text back as the same tree.
\<close>

section \<open>Well-formed syntax trees\<close>

definition ident_ok :: "string \<Rightarrow> bool" where
  "ident_ok w \<longleftrightarrow> word_ok w \<and> map_of keyword_table w = None"

text \<open>A variable reference names a \<open>let\<close> binding, or a loop result \<open>x.result\<close>.\<close>

definition result_base :: "string \<Rightarrow> string" where
  "result_base v = take (length v - 7) v"

definition var_ok :: "string \<Rightarrow> bool" where
  "var_ok v \<longleftrightarrow>
     ident_ok v \<or> (drop (length v - 7) v = ''.result'' \<and> ident_ok (result_base v))"

fun arg_value_ok :: "field_value \<Rightarrow> bool"
  and arg_field_ok :: "field \<Rightarrow> bool" where
  "arg_value_ok (FString s) = raw_literal s"
| "arg_value_ok (FInt n) = (i64_min \<le> n \<and> n \<le> i64_max)"
| "arg_value_ok (FFloat f) = float_text_ok (f64_text f)"
| "arg_value_ok (FBool b) = True"
| "arg_value_ok (VarRef v) = var_ok v"
| "arg_value_ok (Object fs) = list_all arg_field_ok fs"
| "arg_field_ok (Field k v) = (ident_ok k \<and> arg_value_ok v)"

definition is_object :: "field_value \<Rightarrow> bool" where
  "is_object v = (case v of Object _ \<Rightarrow> True | _ \<Rightarrow> False)"

definition flat_field_ok :: "field \<Rightarrow> bool" where
  "flat_field_ok f \<longleftrightarrow> arg_field_ok f \<and> \<not> is_object (fval f)"

lemma flat_field_ok_iff: "flat_field_ok f \<longleftrightarrow> arg_field_ok f \<and> (\<forall>fs. fval f \<noteq> Object fs)"
  by (cases "fval f") (simp_all add: flat_field_ok_def is_object_def)

definition options_ok :: "step_options \<Rightarrow> bool" where
  "options_ok opts \<longleftrightarrow>
     (case timeout_seconds opts of None \<Rightarrow> True | Some t \<Rightarrow> 0 \<le> t \<and> t \<le> i32_max) \<and>
     (case max_retries opts of None \<Rightarrow> True | Some t \<Rightarrow> 0 \<le> t \<and> t \<le> i32_max)"

definition call_ok :: "call_expr \<Rightarrow> bool" where
  "call_ok c \<longleftrightarrow>
     (case target_node c of None \<Rightarrow> False | Some node \<Rightarrow> raw_literal node) \<and>
     options_ok (call_options c) \<and>
     (case target_kind c of
        AgentKind \<Rightarrow> ident_ok (function_name c) \<and> list_all arg_field_ok (arguments c)
      | DeviceKind \<Rightarrow> raw_literal (function_name c) \<and> list_all flat_field_ok (arguments c))"

definition emit_ok :: "emit_statement \<Rightarrow> bool" where
  "emit_ok e \<longleftrightarrow> raw_literal (emit_name e) \<and> raw_literal (emit_kind e) \<and> arg_value_ok (emit_value e)"

fun statement_ok :: "statement \<Rightarrow> bool"
  and loop_ok :: "loop_block \<Rightarrow> bool" where
  "statement_ok (LetCall b c) = (ident_ok b \<and> call_ok c)"
| "statement_ok (CallStmt c) = call_ok c"
| "statement_ok (EmitStmt e) = emit_ok e"
| "statement_ok (LoopStmt l) = loop_ok l"
| "loop_ok (LoopBlock nm n b v) =
     ((case nm of None \<Rightarrow> True | Some s \<Rightarrow> raw_literal s) \<and> int n < 2 ^ 32 \<and>
      list_all statement_ok b \<and> list_all statement_ok v)"

definition program_ok :: "eal_program \<Rightarrow> bool" where
  "program_ok p \<longleftrightarrow>
     raw_literal (mission_name (mission p)) \<and> list_all statement_ok (statements (mission p))"

section \<open>Printing\<close>

fun sep_by :: "'a \<Rightarrow> 'a list list \<Rightarrow> 'a list" where
  "sep_by c [] = []"
| "sep_by c [x] = x"
| "sep_by c (x # y # xs) = x @ c # sep_by c (y # xs)"

definition unparse_var :: "string \<Rightarrow> token list" where
  "unparse_var v =
     (if ident_ok v then [Ident v, TkDot, Ident ''output'']
      else [Ident (result_base v), TkDot, Ident ''result''])"

fun unparse_value :: "field_value \<Rightarrow> token list"
  and unparse_field :: "field \<Rightarrow> token list" where
  "unparse_value (FString s) = [StringLit s]"
| "unparse_value (FInt n) = [IntLit n]"
| "unparse_value (FFloat f) = [FloatLit f]"
| "unparse_value (FBool b) = [BoolLit b]"
| "unparse_value (VarRef v) = unparse_var v"
| "unparse_value (Object fs) = LBrace # sep_by TkComma (map unparse_field fs) @ [RBrace]"
| "unparse_field (Field k v) = Ident k # TkColon # unparse_value v"

definition unparse_with_field :: "field \<Rightarrow> token list" where
  "unparse_with_field f = Ident (fkey f) # TkEq # unparse_value (fval f)"

definition policy_token :: "failure_policy \<Rightarrow> token" where
  "policy_token p =
     (case p of Abort \<Rightarrow> TkAbort | Skip \<Rightarrow> TkSkip | Retry \<Rightarrow> TkRetry | Continue \<Rightarrow> TkContinue)"

definition unparse_options :: "step_options \<Rightarrow> token list" where
  "unparse_options opts =
     (case timeout_seconds opts of None \<Rightarrow> [] | Some t \<Rightarrow> [TkTimeout, IntLit t]) @
     (case max_retries opts of None \<Rightarrow> [] | Some t \<Rightarrow> [TkRetries, IntLit t]) @
     (case on_failure opts of None \<Rightarrow> [] | Some p \<Rightarrow> [TkOnFailure, policy_token p]) @
     (if optional opts then [TkOptional] else [])"

definition unparse_call :: "call_expr \<Rightarrow> token list" where
  "unparse_call c =
     (let node = (case target_node c of None \<Rightarrow> [] | Some s \<Rightarrow> s) in
      case target_kind c of
        AgentKind \<Rightarrow>
          StringLit node # TkDot # Ident (function_name c) # LParen #
            sep_by TkComma (map unparse_field (arguments c)) @ RParen # unparse_options (call_options c)
      | DeviceKind \<Rightarrow>
          TkCall # StringLit (function_name c) # TkOn # StringLit node #
            (if arguments c = [] then []
             else TkWith # LBrace # sep_by TkComma (map unparse_with_field (arguments c)) @ [RBrace]) @
            unparse_options (call_options c))"

definition unparse_emit :: "emit_statement \<Rightarrow> token list" where
  "unparse_emit e =
     TkEmit # StringLit (emit_name e) # Ident ''kind'' # StringLit (emit_kind e) #
       Ident ''value'' # unparse_value (emit_value e)"

fun unparse_statement :: "statement \<Rightarrow> token list"
  and unparse_loop :: "loop_block \<Rightarrow> token list" where
  "unparse_statement (LetCall b c) = TkLet # Ident b # TkEq # unparse_call c"
| "unparse_statement (CallStmt c) = unparse_call c"
| "unparse_statement (EmitStmt e) = unparse_emit e"
| "unparse_statement (LoopStmt l) = unparse_loop l"
| "unparse_loop (LoopBlock nm n b v) =
     TkLoop # (case nm of Some s \<Rightarrow> [StringLit s] | None \<Rightarrow> []) @
       Ident ''max_iters'' # TkColon # IntLit (int n) # LBrace #
       TkBody # LBrace # concat (map unparse_statement b) @ RBrace #
       TkVerify # LBrace # concat (map unparse_statement v) @ RBrace # [RBrace]"

definition unparse_program :: "eal_program \<Rightarrow> token list" where
  "unparse_program p =
     TkMission # StringLit (mission_name (mission p)) # LBrace #
       concat (map unparse_statement (statements (mission p))) @ [RBrace]"

section \<open>Parsing what was printed\<close>

lemma parse_ident_value_print:
  assumes "var_ok v"
  shows "parse_ident_value (unparse_var v @ r) = Inr (VarRef v, r)"
proof (cases "ident_ok v")
  case True
  then show ?thesis by (simp add: unparse_var_def parser_iff)
next
  case False
  with assms have "result_base v @ ''.result'' = v"
    by (metis append_take_drop_id result_base_def var_ok_def)
  with False show ?thesis by (simp add: unparse_var_def parser_iff)
qed

lemma unparse_var_head: "\<exists>i r. unparse_var v = Ident i # TkDot # r"
  by (simp add: unparse_var_def)

lemma parse_scalar_simps [simp]:
  "parse_scalar (StringLit s # r) = Inr (FString s, r)"
  "parse_scalar (IntLit n # r) = Inr (FInt n, r)"
  "parse_scalar (FloatLit f # r) = Inr (FFloat f, r)"
  "parse_scalar (BoolLit b # r) = Inr (FBool b, r)"
  by (simp_all add: parse_scalar_def scalar_of_def)

lemma ident_of_scalar [simp]:
  "ident_of (IntLit n) = None" "ident_of (FloatLit f) = None" "ident_of (BoolLit b) = None"
  by (simp_all add: ident_of_def)

lemma parse_arg_value_flat:
  assumes "arg_value_ok v" "\<forall>fs. v \<noteq> Object fs"
  shows "parse_arg_value (Suc n) (unparse_value v @ r) = Inr (v, r)"
proof (cases v)
  case (VarRef w)
  obtain i x where "unparse_var w = Ident i # TkDot # x" using unparse_var_head by blast
  with VarRef assms show ?thesis using parse_ident_value_print [of w r] by simp
qed (use assms in auto)

lemma parse_value_flat:
  assumes "arg_value_ok v" "\<forall>fs. v \<noteq> Object fs"
  shows "parse_value (unparse_value v @ r) = Inr (v, r)"
proof (cases v)
  case (VarRef w)
  obtain i x where "unparse_var w = Ident i # TkDot # x" using unparse_var_head by blast
  with VarRef assms show ?thesis
    using parse_ident_value_print [of w r] by (simp add: parse_value_def)
qed (use assms in \<open>auto simp: parse_value_def\<close>)

abbreviation unparse_fields :: "field list \<Rightarrow> token list" where
  "unparse_fields fs \<equiv> sep_by TkComma (map unparse_field fs)"

lemma parse_arg_value_print:
  "arg_value_ok v \<Longrightarrow> length (unparse_value v) < n \<Longrightarrow>
     parse_arg_value n (unparse_value v @ r) = Inr (v, r)"
  "list_all arg_field_ok fs \<Longrightarrow> length (unparse_fields fs) < n \<Longrightarrow>
     parse_object_fields n (unparse_fields fs @ RBrace # r) = Inr (fs, RBrace # r)"
proof (induction n arbitrary: v fs r)
  case (Suc n)
  {
    case 1
    show ?case
    proof (cases "\<exists>fs. v = Object fs")
      case True
      then obtain fs where v: "v = Object fs" by blast
      with Suc.IH(2) [of fs r] 1 show ?thesis by simp
    next
      case False
      with 1 show ?thesis by (intro parse_arg_value_flat) auto
    qed
  next
    case 2
    show ?case
    proof (cases fs)
      case (Cons f gs)
      obtain k v where f: "f = Field k v" by (cases f)
      show ?thesis
      proof (cases gs)
        case Nil
        with Cons f 2 Suc.IH(1) [of v "RBrace # r"] show ?thesis by simp
      next
        case (Cons g hs)
        with \<open>fs = f # gs\<close> f 2 Suc.IH(1) [of v "TkComma # unparse_fields gs @ RBrace # r"]
          Suc.IH(2) [of gs r]
        show ?thesis by simp
      qed
    qed simp
  }
qed simp_all

lemma parse_named_args_print:
  "list_all arg_field_ok fs \<Longrightarrow> length (unparse_fields fs) < n \<Longrightarrow>
     parse_named_args n (unparse_fields fs @ RParen # r) = Inr (fs, RParen # r)"
proof (induction n arbitrary: fs)
  case (Suc n)
  show ?case
  proof (cases fs)
    case (Cons f gs)
    obtain k v where f: "f = Field k v" by (cases f)
    show ?thesis
    proof (cases gs)
      case Nil
      with Cons f Suc.prems parse_arg_value_print(1) [of v n "RParen # r"] show ?thesis by simp
    next
      case (Cons g hs)
      with \<open>fs = f # gs\<close> f Suc.prems Suc.IH [of gs]
        parse_arg_value_print(1) [of v n "TkComma # unparse_fields gs @ RParen # r"]
      show ?thesis by simp
    qed
  qed simp
qed simp

lemma parse_fields_print:
  "list_all flat_field_ok fs \<Longrightarrow> length (sep_by TkComma (map unparse_with_field fs)) < n \<Longrightarrow>
     parse_fields n (sep_by TkComma (map unparse_with_field fs) @ RBrace # r) = Inr (fs, RBrace # r)"
proof (induction n arbitrary: fs)
  case (Suc n)
  show ?case
  proof (cases fs)
    case (Cons f gs)
    obtain k v where f: "f = Field k v" by (cases f)
    with Cons Suc.prems have v: "arg_value_ok v" "\<forall>fs. v \<noteq> Object fs"
      by (auto simp: flat_field_ok_iff)
    show ?thesis
    proof (cases gs)
      case Nil
      have "parse_fields n (RBrace # r) = Inr ([], RBrace # r)"
        using Suc.prems Cons f Nil by (cases n) (auto simp: unparse_with_field_def)
      with Nil Cons f parse_value_flat [OF v, of "RBrace # r"] show ?thesis
        by (simp add: unparse_with_field_def)
    next
      case (Cons g hs)
      with \<open>fs = f # gs\<close> f Suc.prems Suc.IH [of gs] parse_value_flat [OF v]
      show ?thesis by (simp add: unparse_with_field_def)
    qed
  qed simp
qed simp

definition stops :: "token list \<Rightarrow> bool" where
  "stops r \<longleftrightarrow> peek r \<notin> {TkTimeout, TkRetries, TkOnFailure, TkOptional, TkWith}"

lemma policy_of_token [simp]: "policy_of (policy_token p) = Some p"
  by (cases p) (simp_all add: policy_of_def policy_token_def)

lemma parse_options_steps:
  "0 \<le> t \<Longrightarrow> t \<le> i32_max \<Longrightarrow> parse_options_from (Suc n) opts (TkTimeout # IntLit t # r) =
     parse_options_from n (opts\<lparr>timeout_seconds := Some t\<rparr>) r"
  "0 \<le> t \<Longrightarrow> t \<le> i32_max \<Longrightarrow> parse_options_from (Suc n) opts (TkRetries # IntLit t # r) =
     parse_options_from n (opts\<lparr>max_retries := Some t\<rparr>) r"
  "parse_options_from (Suc n) opts (TkOnFailure # policy_token p # r) =
     parse_options_from n (opts\<lparr>on_failure := Some p\<rparr>) r"
  "parse_options_from (Suc n) opts (TkOptional # r) =
     parse_options_from n (opts\<lparr>optional := True\<rparr>) r"
  "stops r \<Longrightarrow> parse_options_from (Suc n) opts r = Inr (opts, r)"
  by (simp_all add: expect_i32_in_range_def parse_policy_def stops_def)

lemma parse_options_print:
  assumes "options_ok opts" "stops r"
  shows "parse_options (unparse_options opts @ r) = Inr (opts, r)"
proof -
  obtain t n p b where opts:
    "opts = \<lparr>timeout_seconds = t, max_retries = n, on_failure = p, optional = b\<rparr>"
    by (cases opts) auto
  show ?thesis using assms
    by (cases t; cases n; cases p; cases b)
      (simp_all add: opts parse_options_def unparse_options_def options_ok_def default_options_def
        parse_options_steps del: parse_options_from.simps)
qed

lemma unparse_options_stops: "stops r \<Longrightarrow> peek (unparse_options opts @ r) \<noteq> TkWith"
  by (auto simp: unparse_options_def stops_def split: option.splits)

lemma parse_call_expr_print:
  assumes "call_ok c" "target_kind c = DeviceKind" "stops r"
  shows "parse_call_expr (unparse_call c @ r) = Inr (c, r)"
proof -
  obtain fn node args opts where c: "c = \<lparr>function_name = fn, target_node = Some node,
      target_kind = DeviceKind, arguments = args, call_options = opts\<rparr>"
    using assms by (cases c) (auto simp: call_ok_def split: option.splits)
  have ok: "options_ok opts" "list_all flat_field_ok args"
    using assms(1) by (simp_all add: c call_ok_def)
  show ?thesis
  proof (cases "args = []")
    case True
    then show ?thesis
      using parse_options_print [OF ok(1) assms(3)] unparse_options_stops [OF assms(3)]
      by (simp add: c unparse_call_def parse_call_expr_def)
  next
    case False
    then show ?thesis
      using parse_options_print [OF ok(1) assms(3)] parse_fields_print [OF ok(2)]
      by (simp add: c unparse_call_def parse_call_expr_def del: parse_fields.simps)
  qed
qed

lemma parse_member_call_print:
  assumes "call_ok c" "target_kind c = AgentKind" "stops r"
  shows "parse_member_call (unparse_call c @ r) = Inr (c, r)"
proof -
  obtain fn node args opts where c: "c = \<lparr>function_name = fn, target_node = Some node,
      target_kind = AgentKind, arguments = args, call_options = opts\<rparr>"
    using assms by (cases c) (auto simp: call_ok_def split: option.splits)
  have ok: "options_ok opts" "list_all arg_field_ok args"
    using assms(1) by (simp_all add: c call_ok_def)
  show ?thesis
    using parse_options_print [OF ok(1) assms(3)] parse_named_args_print [OF ok(2)]
    by (simp add: c unparse_call_def parse_member_call_def del: parse_named_args.simps)
qed

lemma unparse_call_head:
  "target_kind c = DeviceKind \<Longrightarrow> \<exists>x. unparse_call c = TkCall # x"
  "target_kind c = AgentKind \<Longrightarrow> \<exists>s x. unparse_call c = StringLit s # TkDot # x"
  by (simp_all add: unparse_call_def Let_def)

lemma unparse_call_peek: "peek (unparse_call c @ r) \<noteq> TkLoop"
  using unparse_call_head [of c] by (cases "target_kind c") auto

lemma parse_rhs_print:
  assumes "call_ok c" "stops r"
  shows "parse_rhs (unparse_call c @ r) = Inr (c, r)"
proof (cases "target_kind c")
  case AgentKind
  with unparse_call_head(2) [OF this] parse_member_call_print [OF assms(1) _ assms(2)]
  show ?thesis by (auto simp: parse_rhs_def)
next
  case DeviceKind
  with unparse_call_head(1) [OF this] parse_call_expr_print [OF assms(1) _ assms(2)]
  show ?thesis by (auto simp: parse_rhs_def)
qed

lemma parse_emit_print:
  "emit_ok e \<Longrightarrow> parse_emit_statement (unparse_emit e @ r) = Inr (e, r)"
  by (simp add: parse_emit_statement_def unparse_emit_def emit_ok_def expect_contextual_ident_def
      expect_emit_kind_def parse_arg_value_print del: parse_arg_value.simps)

text \<open>A printed statement starts with a token that neither continues an option list nor closes
  the enclosing block.\<close>

lemma unparse_statement_head:
  "\<exists>t x. unparse_statement s = t # x \<and> (t \<in> {TkLet, TkCall, TkEmit, TkLoop} \<or> (\<exists>i. t = StringLit i))"
proof (cases s)
  case (CallStmt c)
  then show ?thesis using unparse_call_head [of c] by (cases "target_kind c") auto
next
  case (LoopStmt l)
  then show ?thesis by (cases l) auto
qed (auto simp: unparse_emit_def)

lemma unparse_statement_stops:
  "stops (unparse_statement s @ r)"
  "peek (unparse_statement s @ r) \<noteq> RBrace" "peek (unparse_statement s @ r) \<noteq> TkEof"
  "unparse_statement s \<noteq> []"
  using unparse_statement_head [of s] by (auto simp: stops_def)

abbreviation unparse_block :: "statement list \<Rightarrow> token list" where
  "unparse_block ss \<equiv> concat (map unparse_statement ss)"

lemma unparse_block_stops: "stops (unparse_block ss @ RBrace # r)"
  by (cases ss) (simp_all add: unparse_statement_stops, simp add: stops_def)

lemma parse_flat_statement_print:
  assumes "statement_ok s" "stops r" "\<forall>l. s \<noteq> LoopStmt l"
  shows "parse_flat_statement (unparse_statement s @ r) = Inr (s, r)"
proof (cases s)
  case (LetCall b c)
  with assms show ?thesis by (simp add: parse_flat_statement_def parse_let_def parse_rhs_print)
next
  case (CallStmt c)
  have "peek (unparse_call c @ r) = TkCall \<or> (\<exists>i. peek (unparse_call c @ r) = StringLit i)"
    using unparse_call_head [of c] by (cases "target_kind c") auto
  with CallStmt assms show ?thesis
    by (auto simp: parse_flat_statement_def parse_rhs_print ident_of_def)
next
  case (EmitStmt e)
  have "peek (unparse_emit e @ r) = TkEmit" by (simp add: unparse_emit_def)
  with EmitStmt assms show ?thesis
    by (simp add: parse_flat_statement_def parse_emit_print ident_of_def)
qed (use assms in simp)

lemma unparse_loop_head: "peek (unparse_loop l @ r) = TkLoop"
  by (cases l) simp

lemma parse_statement_print:
  "statement_ok s \<Longrightarrow> stops r \<Longrightarrow> length (unparse_statement s) < n \<Longrightarrow>
     parse_statement n (unparse_statement s @ r) = Inr (s, r)"
  "list_all statement_ok ss \<Longrightarrow> length (unparse_block ss) + 1 < n \<Longrightarrow>
     parse_block n (unparse_block ss @ RBrace # r) = Inr (ss, RBrace # r)"
proof (induction n arbitrary: s ss r rule: less_induct)
  case (less n)
  {
    case 1
    then obtain m where n: "n = Suc m" by (cases n) auto
    show ?case
    proof (cases "\<exists>l. s = LoopStmt l")
      case False
      with 1 have "peek (unparse_statement s @ r) \<noteq> TkLoop"
        by (cases s) (simp_all add: unparse_emit_def unparse_call_peek)
      with 1 False show ?thesis by (simp add: n parse_flat_statement_print)
    next
      case True
      then obtain nm k b v where s: "s = LoopStmt (LoopBlock nm k b v)"
        by (metis loop_block.exhaust)
      with 1 n obtain p where p: "m = Suc (Suc (Suc (Suc (Suc p))))"
        by (auto dest!: less_imp_Suc_add)
      have "parse_block (Suc (Suc (Suc p)))
              (unparse_block b @ RBrace # TkVerify # LBrace # unparse_block v @ RBrace # RBrace # r)
            = Inr (b, RBrace # TkVerify # LBrace # unparse_block v @ RBrace # RBrace # r)"
        by (rule less.IH(2)) (use 1 s n p in auto)
      moreover have "parse_block (Suc (Suc p)) (unparse_block v @ RBrace # RBrace # r)
            = Inr (v, RBrace # RBrace # r)"
        by (rule less.IH(2)) (use 1 s n p in auto)
      ultimately show ?thesis using 1
        by (cases nm) (simp_all add: n p s parse_optional_block_name_def expect_contextual_ident_def
            expect_u32_def del: parse_block.simps)
    qed
  next
    case 2
    then obtain m where n: "n = Suc m" by (cases n) auto
    show ?case
    proof (cases ss)
      case Nil
      then show ?thesis by (simp add: n)
    next
      case (Cons s xs)
      have "parse_statement m (unparse_statement s @ unparse_block xs @ RBrace # r) =
          Inr (s, unparse_block xs @ RBrace # r)"
        by (rule less.IH(1)) (use 2 Cons n in \<open>auto simp: unparse_block_stops\<close>)
      moreover have "parse_block m (unparse_block xs @ RBrace # r) = Inr (xs, RBrace # r)"
        using unparse_statement_stops(4) [of s]
        by (intro less.IH(2)) (use 2 Cons n in \<open>auto simp: neq_Nil_conv\<close>)
      ultimately show ?thesis
        using unparse_statement_stops(2) [of s "unparse_block xs @ RBrace # r"] by (simp add: n Cons)
    qed
  }
qed

lemma parse_mission_statements_print:
  "list_all statement_ok ss \<Longrightarrow> length (unparse_block ss) < n \<Longrightarrow>
     parse_mission_statements n (unparse_block ss @ RBrace # r) = Inr (ss, RBrace # r)"
proof (induction ss arbitrary: n)
  case Nil
  then show ?case by (cases n) auto
next
  case (Cons s ss)
  then obtain m where n: "n = Suc m" by (cases n) auto
  let ?u = "unparse_statement s @ unparse_block ss @ RBrace # r"
  have "parse_statement (length ?u + 3) ?u = Inr (s, unparse_block ss @ RBrace # r)"
    by (rule parse_statement_print) (use Cons.prems in \<open>auto simp: unparse_block_stops\<close>)
  moreover have "parse_mission_statements m (unparse_block ss @ RBrace # r) = Inr (ss, RBrace # r)"
    using unparse_statement_stops(4) [of s]
    by (intro Cons.IH) (use Cons.prems n in \<open>auto simp: neq_Nil_conv\<close>)
  ultimately show ?case
    using unparse_statement_stops(2,3) [of s "unparse_block ss @ RBrace # r"]
    by (simp add: n del: parse_statement.simps)
qed

lemma parse_program_print:
  assumes "program_ok p"
  shows "parse_program (unparse_program p @ r) = Inr (p, r)"
proof -
  obtain nm ss where p: "p = \<lparr>mission = \<lparr>mission_name = nm, statements = ss\<rparr>\<rparr>"
    by (metis eal_program.surjective mission_decl.surjective unit.exhaust)
  with assms have "list_all statement_ok ss" by (simp add: program_ok_def)
  from parse_mission_statements_print [OF this] show ?thesis
    by (simp add: p unparse_program_def parse_program_def parse_mission_def
        del: parse_mission_statements.simps)
qed

section \<open>The printed tokens are lexable\<close>

lemma list_all_sep_by:
  "list_all P (sep_by c xs) \<longleftrightarrow> list_all (list_all P) xs \<and> (length xs > 1 \<longrightarrow> P c)"
  by (induction c xs rule: sep_by.induct) auto

lemma list_all_concat: "list_all P (concat xs) \<longleftrightarrow> list_all (list_all P) xs"
  by (induction xs) simp_all

lemma token_ok_Ident [simp]: "token_ok (Ident w) \<longleftrightarrow> ident_ok w"
  by (auto simp: ident_ok_def)

declare token_ok.simps(4) [simp del]

lemma keyword_ident_ok [simp]:
  "ident_ok ''output''" "ident_ok ''result''" "ident_ok ''kind''" "ident_ok ''value''"
  "ident_ok ''max_iters''"
  by code_simp+

lemma unparse_var_token_ok: "var_ok v \<Longrightarrow> list_all token_ok (unparse_var v)"
  by (auto simp: unparse_var_def var_ok_def)

lemma unparse_value_token_ok:
  "arg_value_ok v \<Longrightarrow> list_all token_ok (unparse_value v)"
  "arg_field_ok f \<Longrightarrow> list_all token_ok (unparse_field f)"
  by (induction v and f rule: arg_value_ok_arg_field_ok.induct)
    (auto simp: list_all_sep_by unparse_var_token_ok list.pred_map elim: list.pred_mono_strong)

lemma unparse_with_field_token_ok:
  "flat_field_ok f \<Longrightarrow> list_all token_ok (unparse_with_field f)"
  by (cases f) (simp add: flat_field_ok_iff unparse_with_field_def unparse_value_token_ok)

lemma i32_max_le: "i64_min \<le> 0" "i32_max \<le> i64_max" "(2::int) ^ 32 \<le> i64_max"
  by (simp_all add: i64_min_def i32_max_def i64_max_def)

lemma unparse_options_token_ok:
  "options_ok opts \<Longrightarrow> list_all token_ok (unparse_options opts)"
  using i32_max_le
  by (auto simp: options_ok_def unparse_options_def policy_token_def
      split: option.splits failure_policy.splits)

lemma unparse_call_token_ok: "call_ok c \<Longrightarrow> list_all token_ok (unparse_call c)"
  by (auto simp: call_ok_def unparse_call_def Let_def unparse_options_token_ok list_all_sep_by
      list.pred_map o_def unparse_with_field_token_ok unparse_value_token_ok
      elim!: list.pred_mono_strong split: option.splits target_kind.splits)

lemma unparse_emit_token_ok: "emit_ok e \<Longrightarrow> list_all token_ok (unparse_emit e)"
  by (simp add: emit_ok_def unparse_emit_def unparse_value_token_ok)

lemma unparse_statement_token_ok:
  "statement_ok s \<Longrightarrow> list_all token_ok (unparse_statement s)"
  "loop_ok l \<Longrightarrow> list_all token_ok (unparse_loop l)"
  by (induction s and l rule: statement_ok_loop_ok.induct)
    (use i32_max_le in \<open>auto simp: unparse_call_token_ok unparse_emit_token_ok list_all_concat
       list.pred_map elim: list.pred_mono_strong split: option.splits\<close>)

lemma unparse_program_token_ok: "program_ok p \<Longrightarrow> list_all token_ok (unparse_program p)"
  using unparse_statement_token_ok(1) by (auto simp: program_ok_def unparse_program_def list_all_iff)

lemma parse_render:
  assumes "program_ok p"
  shows "parse (render (unparse_program p)) = Inr p"
  using parse_program_print [OF assms, of "[TkEof]"] unparse_program_token_ok [OF assms]
  by (simp add: parse_def tokenize_render)

section \<open>The range of the lexer\<close>

lemma float_text_ok_lexeme:
  assumes ds: "list_all is_ascii_digit ds" and fs: "list_all is_ascii_digit fs" "fs \<noteq> []"
  shows "float_text_ok (''-'' @ ds @ CHR ''.'' # fs)" (is ?neg)
    and "ds \<noteq> [] \<Longrightarrow> float_text_ok (ds @ CHR ''.'' # fs)" (is "_ \<Longrightarrow> ?pos")
proof -
  have d: "dropWhile is_ascii_digit (ds @ CHR ''.'' # fs) = CHR ''.'' # fs"
    by (rule dropWhile_stop [OF ds]) simp
  with fs show ?neg by (simp add: float_text_ok_def)
  assume "ds \<noteq> []"
  with ds obtain c cs where c: "ds = c # cs" "is_ascii_digit c" by (cases ds) auto
  then have "c \<noteq> CHR ''-''" "c \<noteq> CHR ''.''"
    using minus_not_digit dot_not_digit by metis+
  with c d fs show ?pos by (simp add: float_text_ok_def)
qed

lemma parse_i64_range: "parse_i64 s = Inr n \<Longrightarrow> i64_min \<le> n \<and> n \<le> i64_max"
  by (auto simp: parse_i64_def Let_def split: if_splits)

lemma takeWhile_digits: "list_all is_ascii_digit (takeWhile is_ascii_digit s)"
  by (auto simp: list_all_iff dest: set_takeWhileD)

lemma read_number_token_ok:
  assumes "read_number (c # cs) = Inr (t, r)" "is_ascii_digit c \<or> c = CHR ''-''"
  shows "token_ok t"
proof -
  have frac: "takeWhile is_ascii_digit (tl x) \<noteq> []"
    if "case x of a # d # _ \<Rightarrow> a = CHR ''.'' \<and> is_ascii_digit d | _ \<Rightarrow> False" for x
    using that by (auto split: list.splits)
  show ?thesis
  proof (cases "c = CHR ''-''")
    case True
    with assms float_text_ok_lexeme(1) [OF takeWhile_digits takeWhile_digits frac] show ?thesis
      by (auto simp: read_number_def Let_def parse_i64_range split: if_splits sum.splits)
  next
    case False
    with assms have "is_ascii_digit c" by simp
    with False assms(1) float_text_ok_lexeme(2) [OF takeWhile_digits takeWhile_digits frac,
        of "dropWhile is_ascii_digit cs" "c # cs"]
    show ?thesis
      by (auto simp: read_number_def Let_def parse_i64_range split: if_splits sum.splits)
  qed
qed

lemma raw_literal_word: "list_all is_word_char w \<Longrightarrow> raw_literal w"
proof (induction w)
  case (Cons c cs)
  have "\<not> is_word_char quote_char" "\<not> is_word_char backslash_char"
    by code_simp+
  with Cons have "c \<noteq> quote_char" "c \<noteq> backslash_char" by auto
  with Cons show ?case by simp
qed simp

lemma ident_ok_raw: "ident_ok w \<Longrightarrow> raw_literal w"
  by (simp add: ident_ok_def word_ok_def raw_literal_word)

lemma table_token_ok:
  "list_all (\<lambda>(_, t). token_ok t) keyword_table" "list_all (\<lambda>(_, t). token_ok t) symbol_table"
  by (simp_all add: keyword_table_def symbol_table_def)

lemma map_of_list_all: "list_all (\<lambda>(_, t). P t) tbl \<Longrightarrow> map_of tbl k = Some t \<Longrightarrow> P t"
  by (auto simp: list_all_iff dest: map_of_SomeD)

lemma word_token_ok: "word_ok w \<Longrightarrow> token_ok (word_token w)"
  using map_of_list_all [OF table_token_ok(1)]
  by (auto simp: word_token_def ident_ok_def split: option.splits)

lemma next_token_token_ok:
  assumes "next_token n s = Inr (t, r)"
  shows "t = TkEof \<or> token_ok t"
proof (cases "skip_ws s")
  case Nil
  with assms show ?thesis by (simp add: next_token_def)
next
  case (Cons ch rest)
  have "word_ok (takeWhile is_word_char (ch # rest))" if "is_word_start ch"
    using word_start_class [OF that] that
    by (auto simp: word_ok_def list_all_iff dest: set_takeWhileD)
  then have word: "token_ok (word_token (takeWhile is_word_char (ch # rest)))"
    if "is_word_start ch"
    using that word_token_ok by blast
  show ?thesis
  proof (cases "map_of symbol_table ch")
    case (Some u)
    with assms Cons map_of_list_all [OF table_token_ok(2)] show ?thesis
      by (auto simp: next_token_def)
  next
    case None
    consider "ch = quote_char" | "ch \<noteq> quote_char" "is_ascii_digit ch \<or> ch = CHR ''-''"
      | "ch \<noteq> quote_char" "\<not> (is_ascii_digit ch \<or> ch = CHR ''-'')" by blast
    then show ?thesis
    proof cases
      case 1
      with None assms Cons show ?thesis
        by (auto simp: next_token_def read_string_def dest: scan_string_SomeD split: option.splits)
    next
      case 2
      with None assms Cons have "read_number (ch # rest) = Inr (t, r)"
        by (auto simp: next_token_def)
      with 2 read_number_token_ok show ?thesis by blast
    next
      case 3
      with None assms Cons word show ?thesis
        by (auto simp: next_token_def read_word_def Let_def split: if_splits)
    qed
  qed
qed

lemma tokenize_from_token_ok:
  "tokenize_from n s = Inr ts \<Longrightarrow> \<exists>us. ts = us @ [TkEof] \<and> list_all token_ok us"
proof (induction n s arbitrary: ts rule: tokenize_from.induct)
  case (1 n s)
  from "1.prems" obtain tok rest where nt: "next_token n s = Inr (tok, rest)"
    by (subst (asm) tokenize_from.simps) (auto simp: result_simps)
  show ?case
  proof (cases "tok = TkEof")
    case True
    with "1.prems" nt show ?thesis by (subst (asm) tokenize_from.simps) auto
  next
    case False
    with "1.prems" nt obtain ts' where ts': "tokenize_from n rest = Inr ts'" "ts = tok # ts'"
      by (subst (asm) tokenize_from.simps) (auto simp: result_simps)
    with "1.IH" [OF nt refl False] obtain us where "ts' = us @ [TkEof]" "list_all token_ok us"
      by blast
    with ts' next_token_token_ok [OF nt] False show ?thesis
      by (intro exI [of _ "tok # us"]) auto
  qed
qed

section \<open>The range of the parser\<close>

definition lexed :: "token list \<Rightarrow> bool" where
  "lexed ts \<longleftrightarrow> list_all (\<lambda>t. t = TkEof \<or> token_ok t) ts"

lemma lexed_Cons [simp]: "lexed (t # ts) \<longleftrightarrow> (t = TkEof \<or> token_ok t) \<and> lexed ts"
  and lexed_append [simp]: "lexed (xs @ ts) \<longleftrightarrow> lexed xs \<and> lexed ts"
  and lexed_Nil [simp]: "lexed []"
  by (auto simp: lexed_def)

lemma lexed_skip: "lexed r \<Longrightarrow> lexed (if peek r = t then snd (advance r) else r)"
  by (cases r) auto

lemma tokenize_lexed: "tokenize s = Inr ts \<Longrightarrow> lexed ts"
  by (auto simp: tokenize_def lexed_def dest!: tokenize_from_token_ok elim!: list.pred_mono_strong)

lemma scalar_of_SomeD:
  "scalar_of t = Some v \<Longrightarrow>
     (\<exists>s. t = StringLit s \<and> v = FString s) \<or> (\<exists>n. t = IntLit n \<and> v = FInt n) \<or>
     (\<exists>f. t = FloatLit f \<and> v = FFloat f) \<or> (\<exists>b. t = BoolLit b \<and> v = FBool b)"
  by (cases t) (simp_all add: scalar_of_def)

lemma parse_scalar_ok:
  "parse_scalar ts = Inr (v, r) \<Longrightarrow> lexed ts \<Longrightarrow>
     arg_value_ok v \<and> (\<forall>fs. v \<noteq> Object fs) \<and> lexed r"
  by (auto simp: parser_iff dest!: scalar_of_SomeD)

lemma parse_ident_value_ok:
  "parse_ident_value ts = Inr (v, r) \<Longrightarrow> lexed ts \<Longrightarrow>
     arg_value_ok v \<and> (\<forall>fs. v \<noteq> Object fs) \<and> lexed r"
  by (auto simp: parser_iff var_ok_def result_base_def)

lemma parse_arg_value_ok:
  "parse_arg_value n ts = Inr (v, r) \<Longrightarrow> lexed ts \<Longrightarrow> arg_value_ok v \<and> lexed r"
  "parse_object_fields n ts = Inr (fs, r) \<Longrightarrow> lexed ts \<Longrightarrow> list_all arg_field_ok fs \<and> lexed r"
proof (induction n arbitrary: ts v r fs)
  case (Suc n)
  {
    case 1
    from 1(1) show ?case
    proof (cases rule: parse_arg_value_cases)
      case (object ts' fs)
      with 1 Suc.IH(2) [of ts' fs "RBrace # r"] show ?thesis by simp
    qed (use 1 parse_scalar_ok parse_ident_value_ok in blast)+
  next
    case 2
    from 2(1) show ?case
    proof (cases rule: parse_object_fields_cases)
      case (comma key r1 v r2 fs')
      with 2 Suc.IH(1) [of r1 v "TkComma # r2"] Suc.IH(2) [of r2 fs' r] show ?thesis by simp
    next
      case (last key r1 v)
      with 2 Suc.IH(1) [of r1 v r] show ?thesis by simp
    qed (use 2 in simp)
  }
qed simp_all

lemma parse_named_args_ok:
  "parse_named_args n ts = Inr (fs, r) \<Longrightarrow> lexed ts \<Longrightarrow> list_all arg_field_ok fs \<and> lexed r"
proof (induction n arbitrary: ts r fs)
  case (Suc n)
  from Suc.prems(1) show ?case
  proof (cases rule: parse_named_args_cases)
    case (comma key r1 v r2 fs')
    with Suc.prems parse_arg_value_ok(1) [of n r1 v "TkComma # r2"] Suc.IH [of r2 fs' r]
    show ?thesis by simp
  next
    case (last key r1 v)
    with Suc.prems parse_arg_value_ok(1) [of n r1 v r] show ?thesis by simp
  qed (use Suc.prems in simp)
qed simp

lemma parse_fields_ok:
  "parse_fields n ts = Inr (fs, r) \<Longrightarrow> lexed ts \<Longrightarrow> list_all flat_field_ok fs \<and> lexed r"
proof (induction n arbitrary: ts r fs)
  case (Suc n)
  from Suc.prems(1) show ?case
  proof (cases rule: parse_fields_cases)
    case (field key r1 v r2 fs')
    then have "arg_value_ok v \<and> (\<forall>fs. v \<noteq> Object fs) \<and> lexed r2"
      using Suc.prems parse_scalar_ok [of r1 v r2] parse_ident_value_ok [of r1 v r2]
      by (auto simp: parse_value_def split: if_splits)
    with field Suc.prems Suc.IH [OF field(4) lexed_skip] show ?thesis
      by (simp add: flat_field_ok_iff)
  qed (use Suc.prems in simp)
qed simp

lemma parse_options_from_ok:
  "parse_options_from n opts ts = Inr (opts', r) \<Longrightarrow> lexed ts \<Longrightarrow> options_ok opts \<Longrightarrow>
     options_ok opts' \<and> lexed r"
proof (induction n arbitrary: ts opts)
  case (Suc n)
  show ?case
  proof (cases ts)
    case (Cons t r0)
    with Suc.prems show ?thesis
      by (auto simp: result_simps parser_iff options_ok_def split: if_splits
          dest!: Suc.IH)
  qed (use Suc.prems in simp)
qed simp

lemma parse_options_ok:
  "parse_options ts = Inr (opts, r) \<Longrightarrow> lexed ts \<Longrightarrow> options_ok opts \<and> lexed r"
  unfolding parse_options_def
  by (erule parse_options_from_ok) (simp_all add: options_ok_def default_options_def)

lemma parse_rhs_ok:
  assumes "parse_rhs ts = Inr (c, r)" "lexed ts"
  shows "call_ok c \<and> lexed r"
  using assms(1)
proof (cases rule: parse_rhs_cases)
  case device
  then show ?thesis
  proof (cases rule: parse_call_expr_cases)
    case (1 fn node r1 r2 args opts)
    then have "list_all flat_field_ok args \<and> lexed r2"
      using assms(2) by (auto dest!: parse_fields_ok simp del: parse_fields.simps)
    with 1 assms(2) parse_options_ok [OF 1(3)] show ?thesis by (simp add: call_ok_def)
  qed
next
  case agent
  then show ?thesis
  proof (cases rule: parse_member_call_cases)
    case (1 t agent ability r1 r2 args opts)
    with assms(2) parse_named_args_ok [OF 1(3)] parse_options_ok [OF 1(4)] show ?thesis
      by (auto simp: call_ok_def ident_ok_raw)
  qed
qed

lemma parse_emit_ok:
  assumes "parse_emit_statement ts = Inr (e, r)" "lexed ts"
  shows "emit_ok e \<and> lexed r"
  using assms(1)
proof (cases rule: parse_emit_cases)
  case (1 nm kd t v r1)
  with assms(2) parse_arg_value_ok(1) [OF 1(3)] show ?thesis
    by (auto simp: emit_ok_def ident_ok_raw)
qed

lemma parse_flat_statement_ok:
  assumes "parse_flat_statement ts = Inr (s, r)" "lexed ts"
  shows "statement_ok s \<and> lexed r"
  using assms(1)
proof (cases rule: parse_flat_statement_cases)
  case (let_call b c r1)
  with assms(2) parse_rhs_ok [OF let_call(2)] show ?thesis by simp
qed (use assms(2) parse_emit_ok parse_rhs_ok in auto)

definition section_ok :: "statement list option \<Rightarrow> bool" where
  "section_ok b \<longleftrightarrow> (case b of None \<Rightarrow> True | Some ss \<Rightarrow> list_all statement_ok ss)"

lemma parse_statement_ok:
  "parse_statement n ts = Inr (s, r) \<Longrightarrow> lexed ts \<Longrightarrow> statement_ok s \<and> lexed r"
  "parse_loop_block n ts = Inr (l, r) \<Longrightarrow> lexed ts \<Longrightarrow> loop_ok l \<and> lexed r"
  "parse_loop_sections n b v ts = Inr (res, r) \<Longrightarrow> lexed ts \<Longrightarrow> section_ok b \<Longrightarrow> section_ok v \<Longrightarrow>
     section_ok (fst res) \<and> section_ok (snd res) \<and> lexed r"
  "parse_block n ts = Inr (ss, r) \<Longrightarrow> lexed ts \<Longrightarrow> list_all statement_ok ss \<and> lexed r"
proof (induction n arbitrary: ts s r l b v res ss)
  case (Suc n)
  {
    case 1
    with Suc.IH(2) parse_flat_statement_ok show ?case
      by (fastforce simp: result_simps split: if_splits)
  next
    case 2
    from 2(1) show ?case
    proof (cases rule: parse_loop_block_cases)
      case (1 nm iters r1 b v)
      with 2 Suc.IH(3) [OF 1(3)] show ?thesis
        by (cases nm) (auto simp: section_ok_def)
    qed
  next
    case 3
    from 3(1) show ?case
    proof (cases rule: parse_loop_sections_cases)
      case (body r1 ss r2)
      with 3 Suc.IH(4) [OF body(3)] Suc.IH(3) [OF body(4)] show ?thesis by (simp add: section_ok_def)
    next
      case (verify r1 ss r2)
      with 3 Suc.IH(4) [OF verify(3)] Suc.IH(3) [OF verify(4)] show ?thesis
        by (simp add: section_ok_def)
    qed (use 3 in simp)
  next
    case 4
    from 4(1) show ?case
    proof (cases rule: parse_block_cases)
      case (cons s r1 ss')
      with 4 Suc.IH(1) [OF cons(2)] Suc.IH(4) [OF cons(3)] show ?thesis by simp
    qed (use 4 in simp)
  }
qed simp_all

lemma parse_mission_statements_ok:
  "parse_mission_statements n ts = Inr (ss, r) \<Longrightarrow> lexed ts \<Longrightarrow> list_all statement_ok ss"
proof (induction n arbitrary: ts ss)
  case (Suc n)
  then show ?case
    by (fastforce simp: result_simps simp del: parse_statement.simps dest: parse_statement_ok(1)
        split: if_splits)
qed simp

lemma parse_program_ok: "parse source = Inr p \<Longrightarrow> program_ok p"
  by (auto simp: parse_def parse_program_def parse_mission_def result_simps parser_iff program_ok_def
      simp del: parse_mission_statements.simps dest!: tokenize_lexed
      dest: parse_mission_statements_ok split: sum.splits)

interpretation eal: canonical_form parse "\<lambda>p. render (unparse_program p)" program_ok
  by unfold_locales (fact parse_render, fact parse_program_ok)

section \<open>Properties\<close>

text \<open>The lexer inverts the token printer: the text of any list of spellable tokens is read back
  as that list, closed by the end-of-input token.\<close>

theorem tokenize_inverts_render:
  assumes "list_all token_ok ts"
  shows "tokenize (render ts) = Inr (ts @ [TkEof])"
  using assms by (rule tokenize_render)

theorem tokenize_inverts_render_witness:
  "tokenize (render [TkLet, Ident ''x'', TkEq, IntLit (-5), StringLit ''hi'']) =
     Inr [TkLet, Ident ''x'', TkEq, IntLit (-5), StringLit ''hi'', TkEof]"
proof -
  have "list_all token_ok [TkLet, Ident ''x'', TkEq, IntLit (-5), StringLit ''hi'']" by code_simp
  from tokenize_inverts_render [OF this] show ?thesis by simp
qed

text \<open>A lexer error points at its cause: the reported position is inside the source and holds the
  reported character.\<close>

theorem tokenize_error_position:
  assumes "tokenize source = Inl (LexUnexpected c p)"
  shows "p < length source \<and> source ! p = c"
  using tokenize_from_unexpected [of source source c p "[]"] assms by (simp add: tokenize_def)

theorem tokenize_error_position_witness:
  "2 < length ''a @'' \<and> ''a @'' ! 2 = CHR 0x40"
proof -
  have "tokenize ''a @'' = Inl (LexUnexpected (CHR 0x40) 2)" by code_simp
  from tokenize_error_position [OF this] show ?thesis .
qed

text \<open>The escape contract of string literals: a payload written with a backslash before every
  quote and backslash is one string token, and the consumer's unescape gives the payload back.\<close>

theorem escape_contract:
  "tokenize (render [StringLit (escape_payload s)]) = Inr [StringLit (escape_payload s), TkEof] \<and>
   unescape_string_literal (escape_payload s) = s"
  using tokenize_render [of "[StringLit (escape_payload s)]"]
  by (simp add: raw_literal_escape unescape_escape)


text \<open>C14: Parsing inverts printing: the printed source of every well-formed program parses to that
  program.\<close>

theorem parse_inverts_print:
  assumes "program_ok p"
  shows "parse (render (unparse_program p)) = Inr p"
  using assms by (rule eal.parse_display)

theorem parse_inverts_print_witness:
  "parse (render (unparse_program \<lparr>mission = \<lparr>mission_name = ''m'', statements =
      [LoopStmt (LoopBlock (Some ''l'') 3 [] [])]\<rparr>\<rparr>)) =
   Inr \<lparr>mission = \<lparr>mission_name = ''m'', statements = [LoopStmt (LoopBlock (Some ''l'') 3 [] [])]\<rparr>\<rparr>"
  by (rule parse_inverts_print) code_simp

text \<open>C39: Everything the parser returns is well formed (identifiers are words and not keywords, numbers
  fit their types, every call has a target) and has a canonical source that parses to the same tree.\<close>

theorem parse_range:
  assumes "parse source = Inr p"
  shows "program_ok p \<and> parse (render (unparse_program p)) = Inr p"
  using eal.parse_valid [OF assms] eal.reparse [OF assms] by blast

theorem parse_range_witness:
  "program_ok \<lparr>mission = \<lparr>mission_name = ''m'', statements = []\<rparr>\<rparr>"
proof -
  have "parse ''mission \"m\" { }'' = Inr \<lparr>mission = \<lparr>mission_name = ''m'', statements = []\<rparr>\<rparr>"
    by code_simp
  from parse_range [OF this] show ?thesis by blast
qed

end
