(* ===== verification/EalIr.thy ===== *)
theory EalIr
  imports EalAst AgentIdentity "HOL-Library.AList"
begin

text \<open>
  Mission IR v2 (\<open>src/eal/runtime/ir.rs\<close>): the steps, loops, emits and phase ranges the planner
  emits and the interpreter executes, with the JSON values (\<open>serde_json::Value\<close>) they carry.
\<close>

section \<open>JSON values\<close>

text \<open>
  \<open>serde_json\<close> is built with \<open>preserve_order\<close>: an object is an insertion-ordered map, so
  \<open>insert\<close> keeps the position of a key it overwrites (\<open>AList.update\<close>).
\<close>

datatype json =
    JNull
  | JBool bool
  | JInt int
  | JFloat f64
  | JString string
  | JArray "json list"
  | JObject "(string \<times> json) list"

type_synonym json_map = "(string \<times> json) list"

abbreviation json_insert :: "string \<Rightarrow> json \<Rightarrow> json_map \<Rightarrow> json_map" where
  "json_insert \<equiv> AList.update"

text \<open>
  A float literal is kept as its decimal spelling. It denotes a finite \<open>f64\<close> unless it rounds past
  the largest one: from \<open>2^1024 - 2^970\<close> on, round-to-nearest-even gives infinity, which
  \<open>serde_json\<close> turns into \<open>null\<close>.
\<close>

definition f64_is_finite :: "f64 \<Rightarrow> bool" where
  "f64_is_finite f =
     (let t = f64_text f;
          u = (if take 1 t = ''-'' then tl t else t);
          ds = takeWhile is_ascii_digit u;
          fs = tl (dropWhile is_ascii_digit u)
      in digits_value (ds @ fs) < (2 ^ 1024 - 2 ^ 970) * 10 ^ length fs)"

definition json_of_f64 :: "f64 \<Rightarrow> json" where
  "json_of_f64 f = (if f64_is_finite f then JFloat f else JNull)"

section \<open>Steps\<close>

datatype ir_target = IrAgent agent_id | IrDevice string

definition display_string :: "ir_target \<Rightarrow> string" where
  "display_string t = (case t of IrAgent a \<Rightarrow> agent_id_display a | IrDevice node_id \<Rightarrow> node_id)"

datatype ir_failure_policy = IrContinue | IrAbort | IrSkip | IrRetry

record ir_call =
  step_id :: string
  step_name :: string
  ability :: ability_name
  ir_target :: ir_target
  static_arguments :: json
  input_refs :: "(string \<times> string) list"
  output_binding :: "string option"
  ir_timeout_seconds :: int
  ir_max_retries :: int
  ir_on_failure :: ir_failure_policy
  ir_optional :: bool
  content_type :: string

datatype ir_step = IrStepLoop ir_loop | IrStepCall ir_call
  and ir_loop =
    IrLoop (irl_name: "string option") (irl_max_iters: nat) (irl_body: "ir_step list")
      (irl_verify: "ir_step list") (irl_result_binding: "string option")

datatype ir_emit_value = EmitLiteral json | EmitBinding string

record ir_emit =
  ire_name :: string
  ire_kind :: string
  ire_value :: ir_emit_value

record phase_range =
  range_start :: nat
  range_end :: nat

record ir_constraints =
  max_parallel :: int
  deadline_seconds :: int

definition default_constraints :: ir_constraints where
  "default_constraints = \<lparr>max_parallel = 0, deadline_seconds = 0\<rparr>"

definition default_max_calls :: nat where
  "default_max_calls = 256"

record mission_ir =
  ir_name :: string
  ir_steps :: "ir_step list"
  ir_phases :: "phase_range list"
  ir_emits :: "ir_emit list"
  ir_constraints :: ir_constraints

section \<open>Static analyses\<close>

fun walk_calls :: "ir_step \<Rightarrow> ir_call list" where
  "walk_calls (IrStepCall c) = [c]"
| "walk_calls (IrStepLoop (IrLoop _ _ body verify _)) =
     concat (map walk_calls body) @ concat (map walk_calls verify)"

definition u64_max :: nat where "u64_max = 2 ^ 64 - 1"

fun static_call_bound :: "ir_step \<Rightarrow> nat" where
  "static_call_bound (IrStepCall _) = 1"
| "static_call_bound (IrStepLoop (IrLoop _ iters body verify _)) =
     min u64_max
       (iters * (length (concat (map walk_calls body)) + length (concat (map walk_calls verify))))"

text \<open>The binding a step exports to the enclosing scope.\<close>

fun step_binding :: "ir_step \<Rightarrow> string option" where
  "step_binding (IrStepCall c) = output_binding c"
| "step_binding (IrStepLoop l) = irl_result_binding l"

text \<open>The bindings a step reads from the enclosing scope. Loops are hermetic.\<close>

fun step_refs :: "ir_step \<Rightarrow> string set" where
  "step_refs (IrStepCall c) = snd ` set (input_refs c)"
| "step_refs (IrStepLoop l) = {}"

end
