(* ===== verification/EalTrace.thy ===== *)
theory EalTrace
  imports EalIr
begin

text \<open>
  What a mission run records: the typed step error (\<open>src/eal/diagnostics/mod.rs\<close>), the child
  invocation receipts (\<open>src/daemon/execution/child_invocation.rs\<close>,
  \<open>src/daemon/invocation/causal_context_projection.rs\<close>) and the execution trace with its bounded
  in-memory buffer (\<open>src/eal/interpreter/trace.rs\<close>).
\<close>

section \<open>Step errors\<close>

datatype eal_error =
    Validation string
  | NotFound string
  | Unavailable string
  | DeadlineExceeded string
  | Internal string

definition error_code :: "eal_error \<Rightarrow> string" where
  "error_code e =
     (case e of
        Validation _ \<Rightarrow> ''validation_error''
      | NotFound _ \<Rightarrow> ''not_found''
      | Unavailable _ \<Rightarrow> ''unavailable''
      | DeadlineExceeded _ \<Rightarrow> ''deadline_exceeded''
      | Internal _ \<Rightarrow> ''internal_error'')"

definition error_message :: "eal_error \<Rightarrow> string" where
  "error_message e =
     (case e of
        Validation m \<Rightarrow> m
      | NotFound m \<Rightarrow> m
      | Unavailable m \<Rightarrow> m
      | DeadlineExceeded m \<Rightarrow> m
      | Internal m \<Rightarrow> m)"

definition eal_error_display :: "eal_error \<Rightarrow> string" where
  "eal_error_display e = error_code e @ '': '' @ error_message e"

text \<open>The variants of \<open>axon_sdk::AxonError\<close>; the SDK's own wording is passed in as \<open>msg\<close>.\<close>

datatype axon_error =
    AxValidation
  | AxPolicyDenied
  | AxNotInstalled
  | AxNotActivated
  | AxDeadlineExceeded
  | AxBridge
  | AxNativeBridge
  | AxStream
  | AxInvocation
  | AxIo
  | AxSymbolNotFound
  | AxJson
  | AxPartialSuccess

definition from_axon_error :: "axon_error \<Rightarrow> string \<Rightarrow> eal_error" where
  "from_axon_error err msg =
     (if err \<in> {AxValidation, AxPolicyDenied} then Validation msg
      else if err \<in> {AxNotInstalled, AxNotActivated} then NotFound msg
      else if err = AxDeadlineExceeded then DeadlineExceeded msg
      else if err \<in> {AxBridge, AxNativeBridge, AxStream, AxInvocation, AxIo} then Unavailable msg
      else Internal msg)"

section \<open>Child invocation receipts\<close>

definition hex_digit :: "nat \<Rightarrow> char" where
  "hex_digit n = (''0123456789abcdef'' ! (n mod 16))"

definition hex_byte :: "char \<Rightarrow> string" where
  "hex_byte b = [hex_digit (char_code b div 16), hex_digit (char_code b mod 16)]"

definition hex_encode :: "string \<Rightarrow> string" where
  "hex_encode bytes = concat (map hex_byte bytes)"

record receipt_ref =
  rr_receipt_ura :: string
  rr_receipt_hash :: string

datatype causal_context =
    CausalNone
  | CausalScalar receipt_ref
  | CausalList "receipt_ref list"
  | CausalMerkle string string

definition receipt_ref_projection :: "receipt_ref \<Rightarrow> json_map" where
  "receipt_ref_projection r =
     [(''receipt_hash'', JString (hex_encode (rr_receipt_hash r))),
      (''receipt_ura'', JString (rr_receipt_ura r))]"

definition causal_context_projection :: "causal_context \<Rightarrow> json" where
  "causal_context_projection causal =
     (case causal of
        CausalNone \<Rightarrow> JObject [(''form'', JString ''none'')]
      | CausalScalar r \<Rightarrow> JObject ((''form'', JString ''scalar'') # receipt_ref_projection r)
      | CausalList rs \<Rightarrow>
          JObject [(''form'', JString ''list''),
            (''receipts'', JArray (map (\<lambda>r. JObject (receipt_ref_projection r)) rs))]
      | CausalMerkle root proof_ura \<Rightarrow>
          JObject [(''form'', JString ''merkle''), (''root'', JString (hex_encode root)),
            (''proof_ura'', JString proof_ura)])"

text \<open>The fields of \<open>axon_sdk\<close>'s \<open>InvocationEnvelope\<close> the record reads.\<close>

record invocation_envelope =
  env_caller_ura :: string
  env_callee_ura :: string
  env_ability :: string
  env_subject_ura :: string
  env_nonce :: string
  env_causal_context :: causal_context

record receipt_anchor =
  ra_invocation_ura :: string
  ra_receipt_ura :: string
  ra_receipt_hash :: string

definition receipt_anchor_projection :: "receipt_anchor \<Rightarrow> json" where
  "receipt_anchor_projection a =
     JObject [(''invocation_ura'', JString (ra_invocation_ura a)),
       (''receipt_ura'', JString (ra_receipt_ura a)),
       (''receipt_hash'', JString (hex_encode (ra_receipt_hash a)))]"

record child_invocation_record =
  ci_envelope :: invocation_envelope
  ci_invocation_ura :: string
  ci_terminal_receipt :: receipt_anchor
  ci_dependency_receipts :: "receipt_anchor list"

definition child_projection :: "child_invocation_record \<Rightarrow> json" where
  "child_projection c =
     JObject [(''invocation_ura'', JString (ci_invocation_ura c)),
       (''caller_ura'', JString (env_caller_ura (ci_envelope c))),
       (''callee_ura'', JString (env_callee_ura (ci_envelope c))),
       (''ability'', JString (env_ability (ci_envelope c))),
       (''subject_ura'', JString (env_subject_ura (ci_envelope c))),
       (''invocation_nonce'', JString (hex_encode (env_nonce (ci_envelope c)))),
       (''causal_context'', causal_context_projection (env_causal_context (ci_envelope c))),
       (''dependency_receipts'', JArray (map receipt_anchor_projection (ci_dependency_receipts c))),
       (''terminal_receipt'', receipt_anchor_projection (ci_terminal_receipt c))]"

section \<open>Traces\<close>

datatype mission_outcome = MissionCompleted | MissionPartial | MissionAborted

datatype step_outcome = StepCompleted | StepFailed | StepSkipped

record retry_record =
  rr_attempt :: nat
  rr_elapsed_ms :: nat
  rr_backoff_ms :: nat
  rr_error :: string

record step_trace =
  st_step_id :: string
  st_ability :: ability_name
  st_target :: ir_target
  st_phase_index :: nat
  st_started_at :: nat
  st_completed_at :: nat
  st_elapsed_ms :: nat
  st_outcome :: step_outcome
  st_retry_count :: nat
  st_retry_history :: "retry_record list"
  st_result_size :: "nat option"
  st_result_sha256 :: "string option"
  st_error :: "string option"
  st_invocation :: "json option"
  st_input_refs :: "(string \<times> string) list"
  st_output_binding :: "string option"

record emission_record =
  em_seq :: nat
  em_name :: string
  em_kind :: string
  em_value :: json
  em_source_binding :: "string option"
  em_error :: "string option"

definition EXECUTION_TRACE_SCHEMA_VERSION :: nat where "EXECUTION_TRACE_SCHEMA_VERSION = 1"

record execution_trace =
  et_schema_version :: nat
  et_mission_id :: string
  et_mission_name :: string
  et_started_at :: nat
  et_completed_at :: nat
  et_total_elapsed_ms :: nat
  et_phase_count :: nat
  et_steps_completed :: nat
  et_steps_failed :: nat
  et_steps_skipped :: nat
  et_outcome :: mission_outcome
  et_step_traces :: "step_trace list"
  et_ability_graph :: "json list"
  et_emissions :: "emission_record list"
  et_traces_truncated :: nat

record captured_result =
  cap_value :: string
  cap_invocation :: child_invocation_record

record execution_report =
  er_total_elapsed_ms :: nat
  er_steps_completed :: nat
  er_steps_failed :: nat
  er_trace :: execution_trace
  er_outputs :: "string \<rightharpoonup> json"

section \<open>The bounded trace buffer\<close>

definition TRACE_CAP_HEAD :: nat where "TRACE_CAP_HEAD = 500"
definition TRACE_CAP_TAIL :: nat where "TRACE_CAP_TAIL = 500"

record 'a capped_buffer =
  cb_head :: "'a list"
  cb_tail :: "'a list"
  cb_dropped :: nat

definition cb_new :: "'a capped_buffer" where
  "cb_new = \<lparr>cb_head = [], cb_tail = [], cb_dropped = 0\<rparr>"

definition cb_push :: "'a \<Rightarrow> 'a capped_buffer \<Rightarrow> 'a capped_buffer" where
  "cb_push t b =
     (if length (cb_head b) < TRACE_CAP_HEAD then b\<lparr>cb_head := cb_head b @ [t]\<rparr>
      else
        (let b' = (if length (cb_tail b) = TRACE_CAP_TAIL
                   then b\<lparr>cb_tail := tl (cb_tail b), cb_dropped := cb_dropped b + 1\<rparr>
                   else b)
         in b'\<lparr>cb_tail := cb_tail b' @ [t]\<rparr>))"

definition cb_into_parts :: "'a capped_buffer \<Rightarrow> 'a list \<times> nat" where
  "cb_into_parts b = (cb_head b @ cb_tail b, cb_dropped b)"

text \<open>
  The specification: a log of everything pushed, of which the first \<open>TRACE_CAP_HEAD\<close> and the last
  \<open>TRACE_CAP_TAIL\<close> entries are retained. \<open>buffer_log b xs\<close>: buffer \<open>b\<close> stands for the log \<open>xs\<close>.
\<close>

definition retained :: "'a list \<Rightarrow> 'a list" where
  "retained xs =
     take TRACE_CAP_HEAD xs @ drop (max TRACE_CAP_HEAD (length xs - TRACE_CAP_TAIL)) xs"

definition buffer_log :: "'a capped_buffer \<Rightarrow> 'a list \<Rightarrow> bool" where
  "buffer_log b xs \<longleftrightarrow>
     cb_head b = take TRACE_CAP_HEAD xs \<and>
     cb_tail b = drop (max TRACE_CAP_HEAD (length xs - TRACE_CAP_TAIL)) xs \<and>
     cb_dropped b = length xs - (TRACE_CAP_HEAD + TRACE_CAP_TAIL)"

lemma buffer_log_new: "buffer_log cb_new []"
  by (simp add: buffer_log_def cb_new_def)

lemma buffer_log_push:
  assumes "buffer_log b xs"
  shows "buffer_log (cb_push t b) (xs @ [t])"
proof (cases "length xs < TRACE_CAP_HEAD")
  case True
  with assms show ?thesis by (simp add: buffer_log_def cb_push_def)
next
  case False
  then have h: "cb_head b = take TRACE_CAP_HEAD xs" "length (cb_head b) = TRACE_CAP_HEAD"
    using assms by (simp_all add: buffer_log_def)
  show ?thesis
  proof (cases "length xs < TRACE_CAP_HEAD + TRACE_CAP_TAIL")
    case True
    then have "max TRACE_CAP_HEAD (length xs - TRACE_CAP_TAIL) = TRACE_CAP_HEAD"
      "max TRACE_CAP_HEAD (Suc (length xs) - TRACE_CAP_TAIL) = TRACE_CAP_HEAD"
      by (intro max_absorb1; linarith)+
    with True False assms h show ?thesis
      by (simp add: buffer_log_def cb_push_def Let_def)
  next
    case full: False
    then have m: "max TRACE_CAP_HEAD (length xs - TRACE_CAP_TAIL) = length xs - TRACE_CAP_TAIL"
      "max TRACE_CAP_HEAD (Suc (length xs) - TRACE_CAP_TAIL) = Suc (length xs) - TRACE_CAP_TAIL"
      by (intro max_absorb2; linarith)+
    have "tl (drop (length xs - TRACE_CAP_TAIL) xs) = drop (Suc (length xs) - TRACE_CAP_TAIL) xs"
      using full by (simp add: tl_drop drop_Suc Suc_diff_le)
    moreover have "length xs - (length xs - TRACE_CAP_TAIL) = TRACE_CAP_TAIL"
      "Suc (length xs) - TRACE_CAP_TAIL \<le> length xs" "0 < TRACE_CAP_TAIL"
      using full by (simp_all add: TRACE_CAP_TAIL_def)
    moreover have "Suc (length xs) - (TRACE_CAP_HEAD + TRACE_CAP_TAIL) =
        Suc (length xs - (TRACE_CAP_HEAD + TRACE_CAP_TAIL))" using full by simp
    ultimately show ?thesis
      using assms h m False by (simp add: buffer_log_def cb_push_def Let_def)
  qed
qed

lemma buffer_log_parts:
  "buffer_log b xs \<Longrightarrow>
     cb_into_parts b = (retained xs, length xs - (TRACE_CAP_HEAD + TRACE_CAP_TAIL))"
  by (simp add: buffer_log_def cb_into_parts_def retained_def)

lemma retained_short: "length xs \<le> TRACE_CAP_HEAD + TRACE_CAP_TAIL \<Longrightarrow> retained xs = xs"
  by (subgoal_tac "max TRACE_CAP_HEAD (length xs - TRACE_CAP_TAIL) = TRACE_CAP_HEAD")
    (simp add: retained_def, intro max_absorb1, linarith)

lemma length_retained: "length (retained xs) = min (length xs) (TRACE_CAP_HEAD + TRACE_CAP_TAIL)"
  by (auto simp: retained_def)

end
