(* ===== verification/EalRetry.thy ===== *)
theory EalRetry
  imports EalTrace "HOL-Library.Word"
begin

text \<open>
  One step of a mission (\<open>src/eal/interpreter/retry.rs\<close>): argument resolution, the retry loop with
  its backoff and deadline budget, the classification of the result and the termination predicate of
  loops. The effects are explicit state passing: a \<open>runtime\<close> record holds the operations that live
  outside the module (the dispatcher, the clocks, \<open>serde_json\<close>, SHA-256, the thread pool), each of
  them acting on a world of arbitrary type.
\<close>

section \<open>The runtime\<close>

record run_context =
  rc_tenant :: string
  rc_trace_id :: string
  rc_deadline :: "nat option"

datatype concurrency = Sequential | Parallel

record dispatch_outcome =
  do_value :: json
  do_invocation :: child_invocation_record

text \<open>
  Instants are nanoseconds of the monotonic clock. \<open>rt_schedule\<close> is the order in which the thread
  pool completes the tasks it was given.
\<close>

record 'w runtime =
  rt_dispatch :: "run_context \<Rightarrow> ir_target \<Rightarrow> ability_name \<Rightarrow> json \<Rightarrow> nat option \<Rightarrow> receipt_anchor list
    \<Rightarrow> 'w \<Rightarrow> (eal_error + dispatch_outcome) \<times> 'w"
  rt_concurrency :: concurrency
  rt_clone :: "'w \<Rightarrow> (eal_error + unit) \<times> 'w"
  rt_schedule :: "nat list \<Rightarrow> 'w \<Rightarrow> nat list"
  rt_instant :: "'w \<Rightarrow> nat \<times> 'w"
  rt_unix_ms :: "'w \<Rightarrow> nat \<times> 'w"
  rt_sleep :: "nat \<Rightarrow> 'w \<Rightarrow> 'w"
  rt_sha256 :: "string \<Rightarrow> string"
  rt_from_slice :: "string \<Rightarrow> string + json"
  rt_to_vec :: "json \<Rightarrow> string + string"
  rt_display_json :: "json \<Rightarrow> string"
  rt_utf8_lossy :: "string \<Rightarrow> string"

definition millis_u64 :: "nat \<Rightarrow> nat" where
  "millis_u64 ns = min u64_max (ns div 1000000)"

definition elapsed_ms :: "('w, 'z) runtime_scheme \<Rightarrow> nat \<Rightarrow> 'w \<Rightarrow> nat \<times> 'w" where
  "elapsed_ms rt t0 w = (case rt_instant rt w of (t, w') \<Rightarrow> (millis_u64 (t - t0), w'))"

section \<open>Backoff\<close>

definition RETRY_BASE_MS :: nat where "RETRY_BASE_MS = 1000"
definition RETRY_MAX_MS :: nat where "RETRY_MAX_MS = 30000"

fun le_bytes :: "nat \<Rightarrow> nat \<Rightarrow> string" where
  "le_bytes 0 n = []"
| "le_bytes (Suc k) n = char_of (n mod 256) # le_bytes k (n div 256)"

fun le_value :: "string \<Rightarrow> nat" where
  "le_value [] = 0"
| "le_value (b # bs) = char_code b + 256 * le_value bs"

text \<open>\<open>RETRY_BASE_MS * 2u64.pow(attempt - 1)\<close>: 64-bit arithmetic, wrapping as in a release build.\<close>

definition backoff_base :: "nat \<Rightarrow> nat" where
  "backoff_base attempt = unat (word_of_nat RETRY_BASE_MS * 2 ^ (attempt - 1) :: 64 word)"

definition backoff_jitter :: "('w, 'z) runtime_scheme \<Rightarrow> nat \<Rightarrow> string \<Rightarrow> nat" where
  "backoff_jitter rt attempt sid =
     le_value (take 8 (rt_sha256 rt (sid @ le_bytes 4 attempt))) mod (RETRY_BASE_MS div 2 + 1)"

definition compute_backoff :: "('w, 'z) runtime_scheme \<Rightarrow> nat \<Rightarrow> string \<Rightarrow> nat" where
  "compute_backoff rt attempt sid =
     min (backoff_base attempt) RETRY_MAX_MS + backoff_jitter rt attempt sid"

definition CHUNK_MS :: nat where "CHUNK_MS = 50"

text \<open>The chunks \<open>backoff_sleep\<close> sleeps for, in order.\<close>

function sleep_chunks :: "nat \<Rightarrow> nat list" where
  "sleep_chunks remaining =
     (if remaining > 0 then min remaining CHUNK_MS # sleep_chunks (remaining - min remaining CHUNK_MS)
      else [])"
  by pat_completeness auto
termination
  by (relation "measure id") (auto simp: CHUNK_MS_def)

declare sleep_chunks.simps [simp del]

definition backoff_sleep :: "('w, 'z) runtime_scheme \<Rightarrow> nat \<Rightarrow> 'w \<Rightarrow> 'w" where
  "backoff_sleep rt total_ms w =
     (if total_ms \<le> CHUNK_MS then rt_sleep rt total_ms w
      else fold (rt_sleep rt) (sleep_chunks total_ms) w)"

section \<open>The retry loop\<close>

definition effective_dispatch_timeout_ms ::
  "('w, 'z) runtime_scheme \<Rightarrow> nat option \<Rightarrow> nat option \<Rightarrow> 'w \<Rightarrow> (eal_error + nat option) \<times> 'w" where
  "effective_dispatch_timeout_ms rt step_timeout deadline w =
     (case deadline of
        None \<Rightarrow> (Inr step_timeout, w)
      | Some d \<Rightarrow>
          (case rt_instant rt w of (now, w') \<Rightarrow>
             if now \<ge> d then
               (Inl (DeadlineExceeded ''mission run timeout expired before dispatch''), w')
             else
               (let remaining = max (millis_u64 (d - now)) 1 in
                (Inr (case step_timeout of
                        Some t \<Rightarrow> Some (min t remaining)
                      | None \<Rightarrow> Some remaining), w'))))"

datatype step_exec_result =
    ExecOk (eo_bytes: string) (eo_sha256: string) (eo_elapsed: nat) (eo_started: nat)
      (eo_completed: nat) (eo_retry_count: nat) (eo_history: "retry_record list")
      (eo_invocation: child_invocation_record)
  | ExecError (ee_message: string) (ee_elapsed: nat) (ee_started: nat) (ee_retry_count: nat)
      (ee_history: "retry_record list")
  | ExecSkipped (es_message: string) (es_started: nat)

definition max_attempts :: "ir_call \<Rightarrow> nat" where
  "max_attempts step =
     (if ir_on_failure step = IrRetry \<and> ir_max_retries step > 0 then 1 + nat (ir_max_retries step) else 1)"

definition step_timeout_ms :: "ir_call \<Rightarrow> nat option" where
  "step_timeout_ms step =
     (if ir_timeout_seconds step > 0 then Some (nat (ir_timeout_seconds step) * 1000) else None)"

text \<open>
  The \<open>for attempt in 0..max_attempts\<close> loop of \<open>execute_step_with_retry\<close>: \<open>n\<close> attempts are left,
  \<open>attempt\<close> is the current one, \<open>hist\<close> the failures so far.
\<close>

fun attempt_loop ::
  "('w, 'z) runtime_scheme \<Rightarrow> run_context \<Rightarrow> ir_call \<Rightarrow> json \<Rightarrow> receipt_anchor list \<Rightarrow> nat \<Rightarrow> nat
    \<Rightarrow> nat \<Rightarrow> nat \<Rightarrow> retry_record list \<Rightarrow> 'w \<Rightarrow> step_exec_result \<times> 'w" where
  "attempt_loop rt run step args deps t0 started 0 attempt hist w =
     (let (el, w) = elapsed_ms rt t0 w in
      (ExecError ''exhausted all retry attempts'' el started (max_attempts step - 1) hist, w))"
| "attempt_loop rt run step args deps t0 started (Suc n) attempt hist w =
     (let w = (if attempt > 0 then backoff_sleep rt (compute_backoff rt attempt (step_id step)) w else w);
          (attempt_start, w) = rt_instant rt w;
          (budget, w) = effective_dispatch_timeout_ms rt (step_timeout_ms step) (rc_deadline run) w
      in
      case budget of
        Inl e \<Rightarrow>
          (let (el, w) = elapsed_ms rt t0 w in
           (ExecError (eal_error_display e) el started attempt hist, w))
      | Inr timeout \<Rightarrow>
          (let (res, w) = rt_dispatch rt run (ir_target step) (ability step) args timeout deps w in
           case res of
             Inr outcome \<Rightarrow>
               (case rt_to_vec rt (do_value outcome) of
                  Inl e \<Rightarrow>
                    (let (el, w) = elapsed_ms rt t0 w in
                     (ExecError
                        (eal_error_display (Internal (''step result not JSON-serializable: '' @ e)))
                        el started attempt hist, w))
                | Inr bytes \<Rightarrow>
                    (let (completed, w) = rt_unix_ms rt w; (el, w) = elapsed_ms rt t0 w in
                     (ExecOk bytes (hex_encode (rt_sha256 rt bytes)) el started completed attempt hist
                        (do_invocation outcome), w)))
           | Inl e \<Rightarrow>
               (let (attempt_el, w) = elapsed_ms rt attempt_start w;
                    backoff = (if attempt + 1 < max_attempts step
                               then compute_backoff rt (attempt + 1) (step_id step) else 0);
                    hist = hist @ [\<lparr>rr_attempt = attempt + 1, rr_elapsed_ms = attempt_el,
                                    rr_backoff_ms = backoff, rr_error = eal_error_display e\<rparr>]
                in
                if attempt + 1 \<ge> max_attempts step then
                  (let (el, w) = elapsed_ms rt t0 w in
                   (ExecError (eal_error_display e) el started attempt hist, w))
                else attempt_loop rt run step args deps t0 started n (attempt + 1) hist w)))"

definition execute_step_with_retry ::
  "('w, 'z) runtime_scheme \<Rightarrow> run_context \<Rightarrow> ir_call \<Rightarrow> json \<Rightarrow> receipt_anchor list \<Rightarrow> 'w
    \<Rightarrow> step_exec_result \<times> 'w" where
  "execute_step_with_retry rt run step args deps w =
     (let (started, w) = rt_unix_ms rt w; (t0, w) = rt_instant rt w in
      attempt_loop rt run step args deps t0 started (max_attempts step) 0 [] w)"

section \<open>Argument resolution\<close>

datatype resolve_error = UpstreamSkipped string string | ResolveOther string

definition as_object :: "json \<Rightarrow> json_map option" where
  "as_object v = (case v of JObject m \<Rightarrow> Some m | _ \<Rightarrow> None)"

text \<open>The em dash and the section sign of the message texts, in UTF-8.\<close>

definition em_dash :: string where "em_dash = [CHR 0xE2, CHR 0x80, CHR 0x94]"
definition section_sign :: string where "section_sign = [CHR 0xC2, CHR 0xA7]"

definition unresolved_ref_message :: "string \<Rightarrow> string" where
  "unresolved_ref_message b =
     ''unresolved ref `'' @ b @ ''` (neither captured nor skipped '' @ em_dash @
     '' likely an analyzer/planner bug)''"

definition malformed_input_message :: "string \<Rightarrow> string \<Rightarrow> string \<Rightarrow> string" where
  "malformed_input_message key b e =
     ''input ref `'' @ key @ ''` from binding `'' @ b @ ''` is not valid JSON: '' @ e @
     ''. Upstream step likely returned a malformed result.''"

fun resolve_refs ::
  "('w, 'z) runtime_scheme \<Rightarrow> (string \<rightharpoonup> captured_result) \<Rightarrow> string set \<Rightarrow> (string \<times> string) list
    \<Rightarrow> json_map \<Rightarrow> resolve_error + json_map" where
  "resolve_refs rt results skipped [] args = Inr args"
| "resolve_refs rt results skipped ((key, b) # refs) args =
     (if b \<in> skipped then Inl (UpstreamSkipped b key)
      else
        (case results b of
           None \<Rightarrow> Inl (ResolveOther (unresolved_ref_message b))
         | Some captured \<Rightarrow>
             (case rt_from_slice rt (cap_value captured) of
                Inl e \<Rightarrow> Inl (ResolveOther (malformed_input_message key b e))
              | Inr v \<Rightarrow> resolve_refs rt results skipped refs (json_insert key v args))))"

definition resolve_arguments ::
  "('w, 'z) runtime_scheme \<Rightarrow> ir_call \<Rightarrow> (string \<rightharpoonup> captured_result) \<Rightarrow> string set \<Rightarrow> resolve_error + json"
where
  "resolve_arguments rt step results skipped =
     (let args = (case as_object (static_arguments step) of Some m \<Rightarrow> m | None \<Rightarrow> []) in
      and_then (resolve_refs rt results skipped (input_refs step) args) (\<lambda>m. Inr (JObject m)))"

section \<open>Classifying a result\<close>

definition process_step_result ::
  "('w, 'z) runtime_scheme \<Rightarrow> ir_call \<Rightarrow> step_exec_result \<Rightarrow> nat \<Rightarrow> 'w
    \<Rightarrow> (step_outcome \<times> step_trace \<times> string option \<times> child_invocation_record option) \<times> 'w" where
  "process_step_result rt step result phase_idx w =
     (case result of
        ExecOk bytes sha el started completed retries hist invoc \<Rightarrow>
          ((StepCompleted,
            \<lparr>st_step_id = step_id step, st_ability = ability step, st_target = ir_target step,
             st_phase_index = phase_idx, st_started_at = started, st_completed_at = completed,
             st_elapsed_ms = el, st_outcome = StepCompleted, st_retry_count = retries,
             st_retry_history = hist, st_result_size = Some (length bytes),
             st_result_sha256 = Some sha, st_error = None,
             st_invocation = Some (child_projection invoc), st_input_refs = input_refs step,
             st_output_binding = output_binding step\<rparr>, Some bytes, Some invoc), w)
      | ExecError message el started retries hist \<Rightarrow>
          (let (completed, w) = rt_unix_ms rt w;
               outcome = (if ir_optional step \<or> ir_on_failure step = IrSkip then StepSkipped
                          else StepFailed)
           in
           ((outcome,
             \<lparr>st_step_id = step_id step, st_ability = ability step, st_target = ir_target step,
              st_phase_index = phase_idx, st_started_at = started, st_completed_at = completed,
              st_elapsed_ms = el, st_outcome = outcome, st_retry_count = retries,
              st_retry_history = hist, st_result_size = None, st_result_sha256 = None,
              st_error = Some message, st_invocation = None, st_input_refs = input_refs step,
              st_output_binding = output_binding step\<rparr>, None, None), w))
      | ExecSkipped message started \<Rightarrow>
          (let (completed, w) = rt_unix_ms rt w in
           ((StepSkipped,
             \<lparr>st_step_id = step_id step, st_ability = ability step, st_target = ir_target step,
              st_phase_index = phase_idx, st_started_at = started, st_completed_at = completed,
              st_elapsed_ms = 0, st_outcome = StepSkipped, st_retry_count = 0,
              st_retry_history = [], st_result_size = None, st_result_sha256 = None,
              st_error = Some message, st_invocation = None, st_input_refs = input_refs step,
              st_output_binding = output_binding step\<rparr>, None, None), w)))"

section \<open>The loop termination predicate\<close>

datatype verify_done = VerifyTrue | VerifyFalse | VerifyMalformed string

definition peel_shell_envelope :: "('w, 'z) runtime_scheme \<Rightarrow> json \<Rightarrow> json" where
  "peel_shell_envelope rt v =
     (case as_object v of
        None \<Rightarrow> v
      | Some obj \<Rightarrow>
          (case (map_of obj ''result'', map_of obj ''fulfilled_by'') of
             (Some (JString inner), Some _) \<Rightarrow>
               (case rt_from_slice rt inner of Inr j \<Rightarrow> j | Inl _ \<Rightarrow> JString inner)
           | (Some inner, Some _) \<Rightarrow> inner
           | _ \<Rightarrow> v))"

definition verify_output_done :: "('w, 'z) runtime_scheme \<Rightarrow> string \<Rightarrow> verify_done" where
  "verify_output_done rt bytes =
     (case rt_from_slice rt bytes of
        Inl e \<Rightarrow> VerifyMalformed (''verify output is not JSON-decodable ('' @ e @ '')'')
      | Inr v0 \<Rightarrow>
          (let v = peel_shell_envelope rt v0 in
           case as_object v of
             None \<Rightarrow>
               VerifyMalformed (''verify output must be a JSON object with a top-level `done: bool` field, got ''
                 @ rt_display_json rt v)
           | Some obj \<Rightarrow>
               (case map_of obj ''done'' of
                  None \<Rightarrow>
                    VerifyMalformed
                      (''verify output has no top-level `done` field (RFC '' @ section_sign @ ''4.4)'')
                | Some (JBool True) \<Rightarrow> VerifyTrue
                | Some (JBool False) \<Rightarrow> VerifyFalse
                | Some other \<Rightarrow>
                    VerifyMalformed (''verify output `done` must be boolean, got '' @ rt_display_json rt other))))"

section \<open>Backoff bounds\<close>

lemma backoff_jitter_le: "backoff_jitter rt attempt sid \<le> 500"
  by (simp add: backoff_jitter_def RETRY_BASE_MS_def less_Suc_eq_le flip: less_Suc_eq_le)

lemma compute_backoff_le: "compute_backoff rt attempt sid \<le> 30500"
  using backoff_jitter_le [of rt attempt sid]
  by (simp add: compute_backoff_def RETRY_MAX_MS_def)

lemma backoff_base_mod: "backoff_base attempt = 1000 * 2 ^ (attempt - 1) mod 2 ^ 64"
proof -
  have "(word_of_nat RETRY_BASE_MS * 2 ^ (attempt - 1) :: 64 word) = word_of_nat (1000 * 2 ^ (attempt - 1))"
    by (simp add: RETRY_BASE_MS_def)
  then have "backoff_base attempt = unat (word_of_nat (1000 * 2 ^ (attempt - 1)) :: 64 word)"
    unfolding backoff_base_def by (rule arg_cong)
  then show ?thesis unfolding unat_of_nat by simp
qed

lemma backoff_base_exact:
  assumes "1 \<le> attempt" "attempt \<le> 55"
  shows "backoff_base attempt = 1000 * 2 ^ (attempt - 1)"
proof -
  have "(2::nat) ^ (attempt - 1) \<le> 2 ^ 54" using assms by (intro power_increasing) auto
  then have "1000 * 2 ^ (attempt - 1) < (2::nat) ^ 64" by simp
  then show ?thesis unfolding backoff_base_mod by (rule mod_less)
qed

lemma backoff_base_collapse:
  assumes "62 \<le> attempt"
  shows "backoff_base attempt = 0"
proof -
  from assms obtain k where "attempt = 62 + k" using le_Suc_ex by blast
  then have "attempt - 1 = 61 + k" by simp
  then have "(1000::nat) * 2 ^ (attempt - 1) = 2 ^ 64 * (125 * 2 ^ k)"
    by (simp add: power_add)
  then show ?thesis unfolding backoff_base_mod by (simp only: mod_mult_self1_is_0)
qed

lemma sleep_chunks_sum: "sum_list (sleep_chunks n) = n"
  by (induction n rule: sleep_chunks.induct) (subst sleep_chunks.simps, simp)

lemma sleep_chunks_le: "c \<in> set (sleep_chunks n) \<Longrightarrow> c \<le> CHUNK_MS"
proof (induction n rule: sleep_chunks.induct)
  case (1 n)
  then show ?case by (subst (asm) (2) sleep_chunks.simps) (auto split: if_splits)
qed

end
