(* ===== verification/EalPhases.thy ===== *)
theory EalPhases
  imports EalRetry
begin

text \<open>
  The phase executor (\<open>src/eal/interpreter/phases.rs\<close>): batches of independent calls, run in parallel
  or one after the other, and the in-process \<open>loop\<close> block. Progress output is left out. A Rust panic
  (\<open>unreachable!\<close>, \<open>expect\<close>, an index out of range) sets \<open>ps_panicked\<close> and stops the run.
\<close>

section \<open>State\<close>

record phase_state =
  ps_global_step :: nat
  ps_captured :: "string \<rightharpoonup> captured_result"
  ps_receipt_graph :: "json list"
  ps_skipped_bindings :: "string set"
  ps_completed :: nat
  ps_failed :: nat
  ps_skipped :: nat
  ps_aborted :: bool
  ps_traces :: "step_trace capped_buffer"
  ps_panicked :: bool

definition panic :: "phase_state \<Rightarrow> phase_state" where
  "panic st = st\<lparr>ps_panicked := True, ps_aborted := True\<rparr>"

datatype phase_partition = PCalls "ir_step list" | PLoop ir_loop

text \<open>\<open>split_phase_steps\<close>; \<open>run\<close> is the open run of calls.\<close>

fun split_phase_from :: "ir_step list \<Rightarrow> ir_step list \<Rightarrow> phase_partition list" where
  "split_phase_from run [] = (if run = [] then [] else [PCalls run])"
| "split_phase_from run (IrStepCall c # steps) = split_phase_from (run @ [IrStepCall c]) steps"
| "split_phase_from run (IrStepLoop l # steps) =
     (if run = [] then [] else [PCalls run]) @ PLoop l # split_phase_from [] steps"

definition split_phase_steps :: "ir_step list \<Rightarrow> phase_partition list" where
  "split_phase_steps steps = split_phase_from [] steps"

fun calls_from_partition :: "ir_step list \<Rightarrow> ir_call list option" where
  "calls_from_partition [] = Some []"
| "calls_from_partition (IrStepCall c # steps) = map_option ((#) c) (calls_from_partition steps)"
| "calls_from_partition (IrStepLoop _ # steps) = None"

section \<open>Preparing a step\<close>

definition RECEIPT_GRAPH_SENTINEL :: string where
  "RECEIPT_GRAPH_SENTINEL = ''__runner_receipt_graph__''"

fun dependency_receipts ::
  "(string \<rightharpoonup> captured_result) \<Rightarrow> string set \<Rightarrow> (string \<times> string) list \<Rightarrow> receipt_anchor list" where
  "dependency_receipts captured seen [] = []"
| "dependency_receipts captured seen ((_, b) # refs) =
     (if b \<in> seen then dependency_receipts captured seen refs
      else
        (case captured b of
           None \<Rightarrow> dependency_receipts captured (insert b seen) refs
         | Some c \<Rightarrow>
             ci_terminal_receipt (cap_invocation c) # dependency_receipts captured (insert b seen) refs))"

definition dependency_receipts_from_captured ::
  "ir_call \<Rightarrow> (string \<rightharpoonup> captured_result) \<Rightarrow> receipt_anchor list" where
  "dependency_receipts_from_captured step captured =
     dependency_receipts captured {} (input_refs step)"

definition substitute_receipt_graph :: "json \<Rightarrow> json list \<Rightarrow> json" where
  "substitute_receipt_graph args graph =
     (case args of
        JObject m \<Rightarrow>
          JObject (map (\<lambda>(k, v). (k, if v = JString RECEIPT_GRAPH_SENTINEL then JArray graph else v)) m)
      | other \<Rightarrow> other)"

definition dependency_skipped_message :: "string \<Rightarrow> string \<Rightarrow> string" where
  "dependency_skipped_message arg b =
     ''skipped: input `'' @ arg @ ''` depends on `'' @ b @ ''` which was skipped upstream''"

text \<open>The result recorded for a step whose arguments do not resolve.\<close>

definition unresolved_result ::
  "('w, 'z) runtime_scheme \<Rightarrow> resolve_error \<Rightarrow> 'w \<Rightarrow> step_exec_result \<times> 'w" where
  "unresolved_result rt e w =
     (let (now, w) = rt_unix_ms rt w in
      case e of
        UpstreamSkipped b arg \<Rightarrow> (ExecSkipped (dependency_skipped_message arg b) now, w)
      | ResolveOther m \<Rightarrow> (ExecError m 0 now 0 [], w))"

section \<open>Batches\<close>

record batch_request =
  br_run :: run_context
  br_steps :: "ir_call list"
  br_captured :: "string \<rightharpoonup> captured_result"
  br_receipt_graph :: "json list"
  br_skipped_bindings :: "string set"

type_synonym task = "json \<times> receipt_anchor list"

fun prepare_tasks ::
  "('w, 'z) runtime_scheme \<Rightarrow> batch_request \<Rightarrow> nat list
    \<Rightarrow> (nat \<times> step_exec_result) list \<Rightarrow> (nat \<times> task) list \<Rightarrow> 'w
    \<Rightarrow> (nat \<times> step_exec_result) list \<times> (nat \<times> task) list \<times> 'w" where
  "prepare_tasks rt rq [] collector tasks w = (collector, tasks, w)"
| "prepare_tasks rt rq (i # is) collector tasks w =
     (let step = br_steps rq ! i in
      case resolve_arguments rt step (br_captured rq) (br_skipped_bindings rq) of
        Inl e \<Rightarrow>
          (let (r, w) = unresolved_result rt e w in
           prepare_tasks rt rq is (collector @ [(i, r)]) tasks w)
      | Inr args \<Rightarrow>
          (let (cl, w) = rt_clone rt w in
           case cl of
             Inl e \<Rightarrow>
               (let (now, w) = rt_unix_ms rt w in
                prepare_tasks rt rq is
                  (collector @ [(i, ExecError (eal_error_display e) 0 now 0 [])]) tasks w)
           | Inr _ \<Rightarrow>
               prepare_tasks rt rq is collector
                 (tasks @ [(i, substitute_receipt_graph args (br_receipt_graph rq),
                            dependency_receipts_from_captured step (br_captured rq))]) w))"

text \<open>
  The worker tasks, in completion order. Each task runs to completion before the next one touches
  the world: the tasks share nothing but the dispatcher and the clocks.
\<close>

fun run_tasks ::
  "('w, 'z) runtime_scheme \<Rightarrow> batch_request \<Rightarrow> (nat \<times> task) list \<Rightarrow> nat list
    \<Rightarrow> (nat \<times> step_exec_result) list \<Rightarrow> 'w \<Rightarrow> (nat \<times> step_exec_result) list \<times> 'w" where
  "run_tasks rt rq tasks [] collector w = (collector, w)"
| "run_tasks rt rq tasks (i # order) collector w =
     (case map_of tasks i of
        None \<Rightarrow> run_tasks rt rq tasks order collector w
      | Some (args, deps) \<Rightarrow>
          (let (r, w) = execute_step_with_retry rt (br_run rq) (br_steps rq ! i) args deps w in
           run_tasks rt rq tasks order (collector @ [(i, r)]) w))"

fun run_sequential ::
  "('w, 'z) runtime_scheme \<Rightarrow> batch_request \<Rightarrow> nat list \<Rightarrow> 'w \<Rightarrow> (nat \<times> step_exec_result) list \<times> 'w" where
  "run_sequential rt rq [] w = ([], w)"
| "run_sequential rt rq (i # is) w =
     (let step = br_steps rq ! i;
          (r, w) =
            (case resolve_arguments rt step (br_captured rq) (br_skipped_bindings rq) of
               Inl e \<Rightarrow> unresolved_result rt e w
             | Inr args \<Rightarrow>
                 execute_step_with_retry rt (br_run rq) step
                   (substitute_receipt_graph args (br_receipt_graph rq))
                   (dependency_receipts_from_captured step (br_captured rq)) w);
          (rs, w) = run_sequential rt rq is w
      in ((i, r) # rs, w))"

definition dispatch_batch ::
  "('w, 'z) runtime_scheme \<Rightarrow> batch_request \<Rightarrow> nat list \<Rightarrow> bool \<Rightarrow> 'w
    \<Rightarrow> (nat \<times> step_exec_result) list \<times> 'w" where
  "dispatch_batch rt rq indices par w =
     (if indices = [] then ([], w)
      else if par \<and> length indices > 1 then
        (let (collector, tasks, w) = prepare_tasks rt rq indices [] [] w;
             (results, w) = run_tasks rt rq tasks (rt_schedule rt (map fst tasks) w) collector w
         in (sort_key fst results, w))
      else run_sequential rt rq indices w)"

definition process_result ::
  "('w, 'z) runtime_scheme \<Rightarrow> ir_call list \<Rightarrow> nat \<Rightarrow> nat \<times> step_exec_result \<Rightarrow> phase_state \<Rightarrow> 'w
    \<Rightarrow> phase_state \<times> 'w" where
  "process_result rt steps phase_idx r st w =
     (let (i, res) = r;
          step = steps ! i;
          st = st\<lparr>ps_global_step := ps_global_step st + 1\<rparr>;
          ((outcome, trace, bytes, invoc), w) = process_step_result rt step res phase_idx w;
          st =
            (case outcome of
               StepCompleted \<Rightarrow>
                 (case invoc of
                    None \<Rightarrow> panic st
                  | Some c \<Rightarrow>
                      (let st = st\<lparr>ps_completed := ps_completed st + 1,
                                   ps_receipt_graph := ps_receipt_graph st @ [child_projection c]\<rparr>
                       in
                       case (output_binding step, bytes) of
                         (Some b, Some v) \<Rightarrow>
                           st\<lparr>ps_captured := (ps_captured st)(b \<mapsto> \<lparr>cap_value = v, cap_invocation = c\<rparr>)\<rparr>
                       | _ \<Rightarrow> st))
             | StepFailed \<Rightarrow>
                 (let st = st\<lparr>ps_failed := ps_failed st + 1\<rparr> in
                  if \<not> ir_optional step \<and> ir_on_failure step = IrAbort then st\<lparr>ps_aborted := True\<rparr>
                  else st)
             | StepSkipped \<Rightarrow>
                 (let st = st\<lparr>ps_skipped := ps_skipped st + 1\<rparr> in
                  case output_binding step of
                    Some b \<Rightarrow> st\<lparr>ps_skipped_bindings := insert b (ps_skipped_bindings st)\<rparr>
                  | None \<Rightarrow> st))
      in (st\<lparr>ps_traces := cb_push trace (ps_traces st)\<rparr>, w))"

fun process_batch ::
  "('w, 'z) runtime_scheme \<Rightarrow> ir_call list \<Rightarrow> nat \<Rightarrow> (nat \<times> step_exec_result) list \<Rightarrow> phase_state \<Rightarrow> 'w
    \<Rightarrow> phase_state \<times> 'w" where
  "process_batch rt steps phase_idx [] st w = (st, w)"
| "process_batch rt steps phase_idx (r # rs) st w =
     (let (st, w) = process_result rt steps phase_idx r st w in
      process_batch rt steps phase_idx rs st w)"

definition batch_of :: "run_context \<Rightarrow> ir_call list \<Rightarrow> phase_state \<Rightarrow> batch_request" where
  "batch_of run steps st =
     \<lparr>br_run = run, br_steps = steps, br_captured = ps_captured st,
      br_receipt_graph = ps_receipt_graph st, br_skipped_bindings = ps_skipped_bindings st\<rparr>"

definition execute_calls_phase_partition ::
  "('w, 'z) runtime_scheme \<Rightarrow> run_context \<Rightarrow> ir_call list \<Rightarrow> nat \<Rightarrow> phase_state \<Rightarrow> 'w \<Rightarrow> phase_state \<times> 'w"
where
  "execute_calls_phase_partition rt run steps phase_idx st w =
     (if steps = [] then (st, w)
      else
        (let par = (length steps > 1 \<and> rt_concurrency rt = Parallel);
             required = filter (\<lambda>i. \<not> ir_optional (steps ! i)) [0..<length steps];
             opt = filter (\<lambda>i. ir_optional (steps ! i)) [0..<length steps];
             (rs, w) = dispatch_batch rt (batch_of run steps st) required par w;
             (st, w) = process_batch rt steps phase_idx rs st w
         in
         if \<not> ps_aborted st \<and> opt \<noteq> [] then
           (let (rs, w) = dispatch_batch rt (batch_of run steps st) opt par w in
            process_batch rt steps phase_idx rs st w)
         else (st, w)))"

section \<open>Loops\<close>

definition LOOP_VERIFY_SYNTHETIC_BINDING :: string where
  "LOOP_VERIFY_SYNTHETIC_BINDING = ''__loop_verify.output__''"

text \<open>The bindings of one iteration, and the \<open>PhaseRunState\<close> built around them.\<close>

type_synonym iter_scope = "(string \<rightharpoonup> captured_result) \<times> string set"

definition enter_scope :: "phase_state \<Rightarrow> iter_scope \<Rightarrow> phase_state" where
  "enter_scope st sc =
     st\<lparr>ps_captured := fst sc, ps_skipped_bindings := snd sc, ps_skipped := 0\<rparr>"

definition leave_scope :: "phase_state \<Rightarrow> phase_state \<Rightarrow> phase_state" where
  "leave_scope outer st =
     st\<lparr>ps_captured := ps_captured outer, ps_skipped_bindings := ps_skipped_bindings outer,
        ps_skipped := ps_skipped outer\<rparr>"

definition process_in_scope ::
  "('w, 'z) runtime_scheme \<Rightarrow> ir_call list \<Rightarrow> nat \<Rightarrow> nat \<times> step_exec_result \<Rightarrow> phase_state \<Rightarrow> iter_scope \<Rightarrow> 'w
    \<Rightarrow> phase_state \<times> iter_scope \<times> 'w" where
  "process_in_scope rt steps phase_idx r st sc w =
     (case process_batch rt steps phase_idx [r] (enter_scope st sc) w of
        (st', w) \<Rightarrow> (leave_scope st st', (ps_captured st', ps_skipped_bindings st'), w))"

text \<open>
  \<open>run_loop_block_sequentially\<close> from step \<open>i\<close> on; the result says whether the block ran through.
\<close>

function run_loop_block ::
  "('w, 'z) runtime_scheme \<Rightarrow> run_context \<Rightarrow> ir_call list \<Rightarrow> nat \<Rightarrow> nat \<Rightarrow> phase_state \<Rightarrow> iter_scope \<Rightarrow> 'w
    \<Rightarrow> bool \<times> phase_state \<times> iter_scope \<times> 'w" where
  "run_loop_block rt run steps phase_idx i st sc w =
     (if i \<ge> length steps then (\<not> ps_aborted st, st, sc, w)
      else if ps_aborted st then (False, st, sc, w)
      else
        (let step = steps ! i in
         case resolve_arguments rt step (fst sc) (snd sc) of
           Inl (UpstreamSkipped b arg) \<Rightarrow>
             (let (r, w) = unresolved_result rt (UpstreamSkipped b arg) w;
                  (st, sc, w) = process_in_scope rt steps phase_idx (i, r) st sc w
              in run_loop_block rt run steps phase_idx (Suc i) st sc w)
         | Inl (ResolveOther e) \<Rightarrow>
             (let (r, w) = unresolved_result rt (ResolveOther e) w;
                  (st, sc, w) = process_in_scope rt steps phase_idx (i, r) st sc w
              in (\<not> ps_aborted st, st, sc, w))
         | Inr args \<Rightarrow>
             (let (r, w) =
                    execute_step_with_retry rt run step
                      (substitute_receipt_graph args (ps_receipt_graph st))
                      (dependency_receipts_from_captured step (fst sc)) w;
                  sc =
                    (if i = length steps - 1 then
                       (case r of
                          ExecOk bytes _ _ _ _ _ _ c \<Rightarrow>
                            ((fst sc)(LOOP_VERIFY_SYNTHETIC_BINDING
                               \<mapsto> \<lparr>cap_value = bytes, cap_invocation = c\<rparr>), snd sc)
                        | _ \<Rightarrow> sc)
                     else sc);
                  (st, sc, w) = process_in_scope rt steps phase_idx (i, r) st sc w
              in run_loop_block rt run steps phase_idx (Suc i) st sc w)))"
  by pat_completeness auto
termination
  by (relation "measure (\<lambda>(_, _, steps, _, i, _). length steps - i)") auto

declare run_loop_block.simps [simp del]

definition fail_loop :: "phase_state \<Rightarrow> phase_state" where
  "fail_loop st = st\<lparr>ps_failed := ps_failed st + 1, ps_aborted := True\<rparr>"

definition final_capture :: "ir_call \<Rightarrow> iter_scope \<Rightarrow> captured_result option" where
  "final_capture call sc =
     (case (case output_binding call of Some b \<Rightarrow> fst sc b | None \<Rightarrow> None) of
        Some c \<Rightarrow> Some c
      | None \<Rightarrow> fst sc LOOP_VERIFY_SYNTHETIC_BINDING)"

fun loop_iterations ::
  "('w, 'z) runtime_scheme \<Rightarrow> run_context \<Rightarrow> string option \<Rightarrow> ir_call list \<Rightarrow> ir_call list \<Rightarrow> nat \<Rightarrow> nat
    \<Rightarrow> phase_state \<Rightarrow> 'w \<Rightarrow> phase_state \<times> 'w" where
  "loop_iterations rt run rb body verify phase_idx 0 st w = (fail_loop st, w)"
| "loop_iterations rt run rb body verify phase_idx (Suc n) st w =
     (if ps_aborted st then (st, w)
      else
        (let (body_ok, st, sc, w) = run_loop_block rt run body phase_idx 0 st (Map.empty, {}) w in
         if \<not> body_ok \<or> ps_aborted st then (st, w)
         else
           (let (verify_ok, st, sc, w) = run_loop_block rt run verify phase_idx 0 st sc w in
            if \<not> verify_ok \<or> ps_aborted st then (st, w)
            else
              (case final_capture (last verify) sc of
                 None \<Rightarrow> (fail_loop st, w)
               | Some c \<Rightarrow>
                   (case verify_output_done rt (cap_value c) of
                      VerifyMalformed _ \<Rightarrow> (fail_loop st, w)
                    | VerifyFalse \<Rightarrow> loop_iterations rt run rb body verify phase_idx n st w
                    | VerifyTrue \<Rightarrow>
                        (case rb of
                           None \<Rightarrow> (st, w)
                         | Some b \<Rightarrow> (st\<lparr>ps_captured := (ps_captured st)(b \<mapsto> c)\<rparr>, w)))))))"

definition execute_loop ::
  "('w, 'z) runtime_scheme \<Rightarrow> run_context \<Rightarrow> ir_loop \<Rightarrow> nat \<Rightarrow> phase_state \<Rightarrow> 'w \<Rightarrow> phase_state \<times> 'w" where
  "execute_loop rt run lp phase_idx st w =
     (case (calls_from_partition (irl_body lp), calls_from_partition (irl_verify lp)) of
        (Some body, Some verify) \<Rightarrow>
          (if verify = [] then (panic st, w)
           else loop_iterations rt run (irl_result_binding lp) body verify phase_idx (irl_max_iters lp) st w)
      | _ \<Rightarrow> (fail_loop st, w))"

end
