(* ===== verification/EalMission.thy ===== *)
theory EalMission
  imports EalPhases
begin

text \<open>
  The mission executor (\<open>src/eal/interpreter/mod.rs\<close>): the walk over the phases, the outcome of the
  run, the emissions, the receipt graph and the report.
\<close>

section \<open>Execution\<close>

definition initial_state :: phase_state where
  "initial_state =
     \<lparr>ps_global_step = 0, ps_captured = Map.empty, ps_receipt_graph = [], ps_skipped_bindings = {},
      ps_completed = 0, ps_failed = 0, ps_skipped = 0, ps_aborted = False, ps_traces = cb_new,
      ps_panicked = False\<rparr>"

definition execute_partition ::
  "('w, 'z) runtime_scheme \<Rightarrow> run_context \<Rightarrow> nat \<Rightarrow> phase_partition \<Rightarrow> phase_state \<Rightarrow> 'w \<Rightarrow> phase_state \<times> 'w"
where
  "execute_partition rt run phase_idx p st w =
     (case p of
        PCalls steps \<Rightarrow>
          (case calls_from_partition steps of
             None \<Rightarrow> (panic st, w)
           | Some calls \<Rightarrow> execute_calls_phase_partition rt run calls phase_idx st w)
      | PLoop lp \<Rightarrow> execute_loop rt run lp phase_idx st w)"

fun execute_partitions ::
  "('w, 'z) runtime_scheme \<Rightarrow> run_context \<Rightarrow> nat \<Rightarrow> phase_partition list \<Rightarrow> phase_state \<Rightarrow> 'w
    \<Rightarrow> phase_state \<times> 'w" where
  "execute_partitions rt run phase_idx [] st w = (st, w)"
| "execute_partitions rt run phase_idx (p # ps) st w =
     (if ps_aborted st then (st, w)
      else
        (let (st, w) = execute_partition rt run phase_idx p st w in
         execute_partitions rt run phase_idx ps st w))"

text \<open>\<open>&ir.steps[phase.start..phase.end]\<close>: the slice, or the panic of a bad range.\<close>

definition slice :: "nat \<Rightarrow> nat \<Rightarrow> 'a list \<Rightarrow> 'a list option" where
  "slice i j xs = (if i \<le> j \<and> j \<le> length xs then Some (take (j - i) (drop i xs)) else None)"

fun execute_phases ::
  "('w, 'z) runtime_scheme \<Rightarrow> run_context \<Rightarrow> ir_step list \<Rightarrow> nat \<Rightarrow> phase_range list \<Rightarrow> phase_state \<Rightarrow> 'w
    \<Rightarrow> phase_state \<times> 'w" where
  "execute_phases rt run steps phase_idx [] st w = (st, w)"
| "execute_phases rt run steps phase_idx (r # rs) st w =
     (if ps_aborted st then (st, w)
      else
        (case slice (range_start r) (range_end r) steps of
           None \<Rightarrow> (panic st, w)
         | Some phase_steps \<Rightarrow>
             (let (st, w) = execute_partitions rt run phase_idx (split_phase_steps phase_steps) st w in
              execute_phases rt run steps (Suc phase_idx) rs st w)))"

section \<open>The report\<close>

definition decode_emitted_value :: "('w, 'z) runtime_scheme \<Rightarrow> string \<Rightarrow> json" where
  "decode_emitted_value rt bytes =
     (case rt_from_slice rt bytes of Inr v \<Rightarrow> v | Inl _ \<Rightarrow> JString (rt_utf8_lossy rt bytes))"

definition not_captured_message :: "string \<Rightarrow> string" where
  "not_captured_message b =
     ''binding '' @ [CHR 0x27] @ b @ [CHR 0x27] @
     '' was not captured; producer may have failed or skipped''"

definition resolve_emission ::
  "('w, 'z) runtime_scheme \<Rightarrow> (string \<rightharpoonup> captured_result) \<Rightarrow> nat \<Rightarrow> ir_emit \<Rightarrow> emission_record" where
  "resolve_emission rt captured idx e =
     (case ire_value e of
        EmitLiteral v \<Rightarrow>
          \<lparr>em_seq = idx + 1, em_name = ire_name e, em_kind = ire_kind e, em_value = v,
           em_source_binding = None, em_error = None\<rparr>
      | EmitBinding b \<Rightarrow>
          (case captured b of
             Some c \<Rightarrow>
               \<lparr>em_seq = idx + 1, em_name = ire_name e, em_kind = ire_kind e,
                em_value = decode_emitted_value rt (cap_value c), em_source_binding = Some b,
                em_error = None\<rparr>
           | None \<Rightarrow>
               \<lparr>em_seq = idx + 1, em_name = ire_name e, em_kind = ire_kind e, em_value = JNull,
                em_source_binding = Some b, em_error = Some (not_captured_message b)\<rparr>))"

definition resolve_emissions ::
  "('w, 'z) runtime_scheme \<Rightarrow> ir_emit list \<Rightarrow> (string \<rightharpoonup> captured_result) \<Rightarrow> emission_record list" where
  "resolve_emissions rt emits captured =
     map (\<lambda>(idx, e). resolve_emission rt captured idx e) (enumerate 0 emits)"

definition mission_outcome_of :: "phase_state \<Rightarrow> mission_outcome" where
  "mission_outcome_of st =
     (if ps_aborted st then MissionAborted
      else if ps_failed st > 0 then MissionPartial
      else MissionCompleted)"

definition ability_graph_entry :: "step_trace \<Rightarrow> json option" where
  "ability_graph_entry t =
     map_option
       (\<lambda>meta. case meta of
          JObject m \<Rightarrow> JObject (json_insert ''step_id'' (JString (st_step_id t)) m)
        | other \<Rightarrow> other)
       (st_invocation t)"

text \<open>
  \<open>Instant::checked_add\<close>: the clock counts whole seconds in an \<open>i64\<close>, so a timeout that would pass its
  end gives no deadline.
\<close>

definition instant_checked_add :: "nat \<Rightarrow> nat \<Rightarrow> nat option" where
  "instant_checked_add now d =
     (if (now + d) div 1000000000 < 2 ^ 63 then Some (now + d) else None)"

record mission_run =
  mr_started :: nat
  mr_total_elapsed :: nat
  mr_completed_at :: nat
  mr_state :: phase_state

text \<open>The effectful part of \<open>execute_with_dispatcher_for_trace_with_timeout\<close>.\<close>

definition run_mission ::
  "('w, 'z) runtime_scheme \<Rightarrow> string \<Rightarrow> mission_ir \<Rightarrow> string \<Rightarrow> nat option \<Rightarrow> 'w \<Rightarrow> mission_run \<times> 'w" where
  "run_mission rt tenant_id ir mission_id run_timeout w =
     (let (deadline, w) =
            (case run_timeout of
               None \<Rightarrow> (None, w)
             | Some d \<Rightarrow> (let (now, w) = rt_instant rt w in (instant_checked_add now d, w)));
          run = \<lparr>rc_tenant = tenant_id, rc_trace_id = mission_id, rc_deadline = deadline\<rparr>;
          (mission_start, w) = rt_instant rt w;
          (started, w) = rt_unix_ms rt w;
          (st, w) = execute_phases rt run (ir_steps ir) 0 (ir_phases ir) initial_state w;
          (total_elapsed, w) = elapsed_ms rt mission_start w;
          (completed_at, w) = rt_unix_ms rt w
      in (\<lparr>mr_started = started, mr_total_elapsed = total_elapsed, mr_completed_at = completed_at,
           mr_state = st\<rparr>, w))"

definition build_report ::
  "('w, 'z) runtime_scheme \<Rightarrow> mission_ir \<Rightarrow> string \<Rightarrow> mission_run \<Rightarrow> execution_report" where
  "build_report rt ir mission_id r =
     (let st = mr_state r;
          (traces, truncated) = cb_into_parts (ps_traces st);
          trace =
            \<lparr>et_schema_version = EXECUTION_TRACE_SCHEMA_VERSION, et_mission_id = mission_id,
             et_mission_name = ir_name ir, et_started_at = mr_started r,
             et_completed_at = mr_completed_at r, et_total_elapsed_ms = mr_total_elapsed r,
             et_phase_count = length (ir_phases ir),
             et_steps_completed = ps_completed st, et_steps_failed = ps_failed st,
             et_steps_skipped = ps_skipped st, et_outcome = mission_outcome_of st,
             et_step_traces = traces, et_ability_graph = List.map_filter ability_graph_entry traces,
             et_emissions = resolve_emissions rt (ir_emits ir) (ps_captured st),
             et_traces_truncated = truncated\<rparr>
      in
      \<lparr>er_total_elapsed_ms = mr_total_elapsed r, er_steps_completed = ps_completed st,
       er_steps_failed = ps_failed st, er_trace = trace,
       er_outputs = (\<lambda>b. map_option (\<lambda>c. decode_emitted_value rt (cap_value c)) (ps_captured st b))\<rparr>)"

definition execute_mission ::
  "('w, 'z) runtime_scheme \<Rightarrow> string \<Rightarrow> mission_ir \<Rightarrow> string \<Rightarrow> nat option \<Rightarrow> 'w
    \<Rightarrow> execution_report \<times> 'w" where
  "execute_mission rt tenant_id ir mission_id run_timeout w =
     (let (r, w) = run_mission rt tenant_id ir mission_id run_timeout w in
      (build_report rt ir mission_id r, w))"

end
