(* ===== verification/EalRun.thy ===== *)
theory EalRun
  imports EalMission
begin

text \<open>
  What a mission run guarantees, whatever the dispatcher does: the bookkeeping of the executor
  (\<open>src/eal/interpreter/phases.rs\<close>, \<open>mod.rs\<close>) against the list of all step traces it recorded.
\<close>

section \<open>One recorded result\<close>

definition res_outcome :: "ir_call \<Rightarrow> step_exec_result \<Rightarrow> step_outcome" where
  "res_outcome step res =
     (case res of
        ExecOk _ _ _ _ _ _ _ _ \<Rightarrow> StepCompleted
      | ExecError _ _ _ _ _ \<Rightarrow>
          (if ir_optional step \<or> ir_on_failure step = IrSkip then StepSkipped else StepFailed)
      | ExecSkipped _ _ \<Rightarrow> StepSkipped)"

definition trace_of :: "ir_call \<Rightarrow> step_exec_result \<Rightarrow> nat \<Rightarrow> step_trace \<Rightarrow> bool" where
  "trace_of step res phase_idx t \<longleftrightarrow>
     st_outcome t = res_outcome step res \<and> st_step_id t = step_id step \<and> st_ability t = ability step \<and>
     st_target t = ir_target step \<and> st_phase_index t = phase_idx \<and>
     st_output_binding t = output_binding step \<and> st_input_refs t = input_refs step \<and>
     (st_outcome t = StepCompleted \<longleftrightarrow> st_error t = None)"

text \<open>The state after a result, given its trace.\<close>

definition record_result :: "ir_call \<Rightarrow> step_exec_result \<Rightarrow> step_trace \<Rightarrow> phase_state \<Rightarrow> phase_state" where
  "record_result step res t st =
     (let st = st\<lparr>ps_global_step := ps_global_step st + 1, ps_traces := cb_push t (ps_traces st)\<rparr> in
      case res of
        ExecOk bytes _ _ _ _ _ _ c \<Rightarrow>
          st\<lparr>ps_completed := ps_completed st + 1,
             ps_receipt_graph := ps_receipt_graph st @ [child_projection c],
             ps_captured :=
               (case output_binding step of
                  None \<Rightarrow> ps_captured st
                | Some b \<Rightarrow> (ps_captured st)(b \<mapsto> \<lparr>cap_value = bytes, cap_invocation = c\<rparr>))\<rparr>
      | _ \<Rightarrow>
          (if res_outcome step res = StepFailed then
             st\<lparr>ps_failed := ps_failed st + 1,
                ps_aborted := (ps_aborted st \<or> \<not> ir_optional step \<and> ir_on_failure step = IrAbort)\<rparr>
           else
             st\<lparr>ps_skipped := ps_skipped st + 1,
                ps_skipped_bindings := set_option (output_binding step) \<union> ps_skipped_bindings st\<rparr>))"

lemma process_result_trace:
  "\<exists>w'. process_result rt steps phase_idx (i, res) st w =
     (record_result (steps ! i) res (fst (snd (fst (process_step_result rt (steps ! i) res phase_idx w)))) st, w')"
  by (cases res; cases st; cases "rt_unix_ms rt w"; cases "output_binding (steps ! i)")
    (auto simp: process_result_def process_step_result_def record_result_def res_outcome_def Let_def)

lemma process_step_result_trace:
  "trace_of step res phase_idx (fst (snd (fst (process_step_result rt step res phase_idx w))))"
  by (cases res; cases "rt_unix_ms rt w")
    (auto simp: process_step_result_def trace_of_def res_outcome_def Let_def)

lemma process_result_record:
  "\<exists>t w'. process_result rt steps phase_idx (i, res) st w = (record_result (steps ! i) res t st, w') \<and>
     trace_of (steps ! i) res phase_idx t"
  using process_result_trace [of rt steps phase_idx i res st w]
    process_step_result_trace [of "steps ! i" res phase_idx rt w] by blast

section \<open>One step of a loop block\<close>

definition loop_step ::
  "('w, 'z) runtime_scheme \<Rightarrow> run_context \<Rightarrow> ir_call list \<Rightarrow> nat \<Rightarrow> phase_state \<Rightarrow> iter_scope \<Rightarrow> 'w
    \<Rightarrow> step_exec_result \<times> iter_scope \<times> 'w" where
  "loop_step rt run steps i st sc w =
     (case resolve_arguments rt (steps ! i) (fst sc) (snd sc) of
        Inl e \<Rightarrow> (let (r, w) = unresolved_result rt e w in (r, sc, w))
      | Inr args \<Rightarrow>
          (let (r, w) =
                 execute_step_with_retry rt run (steps ! i)
                   (substitute_receipt_graph args (ps_receipt_graph st))
                   (dependency_receipts_from_captured (steps ! i) (fst sc)) w
           in (r,
               (if i = length steps - 1 then
                  (case r of
                     ExecOk bytes _ _ _ _ _ _ c \<Rightarrow>
                       ((fst sc)(LOOP_VERIFY_SYNTHETIC_BINDING
                          \<mapsto> \<lparr>cap_value = bytes, cap_invocation = c\<rparr>), snd sc)
                   | _ \<Rightarrow> sc)
                else sc), w)))"

lemma run_loop_block_cases:
  assumes "run_loop_block rt run steps phase_idx i st sc w = (ok, st', sc', w')"
  obtains (stop) "st' = st" "sc' = sc" "w' = w" "ok = (\<not> ps_aborted st)" "length steps \<le> i \<or> ps_aborted st"
    | (unresolved) e r w1 where "i < length steps" "\<not> ps_aborted st"
      "resolve_arguments rt (steps ! i) (fst sc) (snd sc) = Inl (ResolveOther e)"
      "loop_step rt run steps i st sc w = (r, sc, w1)"
      "process_in_scope rt steps phase_idx (i, r) st sc w1 = (st', sc', w')" "ok = (\<not> ps_aborted st')"
    | (step) r sc1 w1 st2 sc2 w2 where "i < length steps" "\<not> ps_aborted st"
      "loop_step rt run steps i st sc w = (r, sc1, w1)"
      "process_in_scope rt steps phase_idx (i, r) st sc1 w1 = (st2, sc2, w2)"
      "run_loop_block rt run steps phase_idx (Suc i) st2 sc2 w2 = (ok, st', sc', w')"
proof -
  obtain r sc1 w1 where l: "loop_step rt run steps i st sc w = (r, sc1, w1)" by (metis prod_cases3)
  obtain st2 sc2 w2 where p: "process_in_scope rt steps phase_idx (i, r) st sc1 w1 = (st2, sc2, w2)"
    by (metis prod_cases3)
  consider "length steps \<le> i \<or> ps_aborted st"
    | e where "i < length steps" "\<not> ps_aborted st"
        "resolve_arguments rt (steps ! i) (fst sc) (snd sc) = Inl (ResolveOther e)"
    | b arg where "i < length steps" "\<not> ps_aborted st"
        "resolve_arguments rt (steps ! i) (fst sc) (snd sc) = Inl (UpstreamSkipped b arg)"
    | args where "i < length steps" "\<not> ps_aborted st"
        "resolve_arguments rt (steps ! i) (fst sc) (snd sc) = Inr args"
    by (metis leI resolve_error.exhaust sum.exhaust)
  then show thesis
  proof cases
    case 1
    with assms show thesis by (subst (asm) run_loop_block.simps) (auto intro: stop split: if_splits)
  next
    case (2 e)
    with assms l p show thesis
      by (subst (asm) run_loop_block.simps)
        (auto simp: loop_step_def Let_def intro: unresolved split: prod.splits)
  next
    case (3 b arg)
    with assms l p have "run_loop_block rt run steps phase_idx (Suc i) st2 sc2 w2 = (ok, st', sc', w')"
      by (subst (asm) run_loop_block.simps) (auto simp: loop_step_def Let_def split: prod.splits)
    with 3 l p show thesis by (blast intro: step)
  next
    case (4 args)
    with assms l p have "run_loop_block rt run steps phase_idx (Suc i) st2 sc2 w2 = (ok, st', sc', w')"
      by (subst (asm) run_loop_block.simps) (auto simp: loop_step_def Let_def split: prod.splits)
    with 4 l p show thesis by (blast intro: step)
  qed
qed

section \<open>Missions that run without panics\<close>

fun is_call_step :: "ir_step \<Rightarrow> bool" where
  "is_call_step (IrStepCall c) = True"
| "is_call_step (IrStepLoop l) = False"

text \<open>What the executor relies on: loop blocks are flat and a loop has something to verify.\<close>

fun executable_step :: "ir_step \<Rightarrow> bool" where
  "executable_step (IrStepCall c) = True"
| "executable_step (IrStepLoop l) =
     (list_all is_call_step (irl_body l) \<and> list_all is_call_step (irl_verify l) \<and> irl_verify l \<noteq> [])"

fun executable_partition :: "phase_partition \<Rightarrow> bool" where
  "executable_partition (PCalls steps) = list_all is_call_step steps"
| "executable_partition (PLoop l) = executable_step (IrStepLoop l)"

definition range_in :: "nat \<Rightarrow> phase_range \<Rightarrow> bool" where
  "range_in n r \<longleftrightarrow> range_start r \<le> range_end r \<and> range_end r \<le> n"

lemma calls_from_partition_calls:
  "list_all is_call_step ss \<Longrightarrow> \<exists>cs. calls_from_partition ss = Some cs \<and> ss = map IrStepCall cs"
proof (induction ss)
  case (Cons s ss)
  then obtain cs where "calls_from_partition ss = Some cs" "ss = map IrStepCall cs" by auto
  with Cons.prems show ?case by (cases s) (auto intro!: exI [of _ "_ # cs"])
qed simp

lemma split_phase_from_executable:
  "list_all is_call_step run \<Longrightarrow> list_all executable_step ss \<Longrightarrow>
     list_all executable_partition (split_phase_from run ss)"
  by (induction run ss rule: split_phase_from.induct) auto

lemma split_phase_executable:
  "list_all executable_step ss \<Longrightarrow> list_all executable_partition (split_phase_steps ss)"
  unfolding split_phase_steps_def by (rule split_phase_from_executable) simp_all

lemma slice_executable:
  assumes "list_all executable_step steps" "range_in (length steps) r"
  shows "\<exists>xs. slice (range_start r) (range_end r) steps = Some xs \<and> list_all executable_step xs"
  using assms by (auto simp: slice_def range_in_def list_all_iff dest!: in_set_takeD in_set_dropD)

section \<open>Relations along a run\<close>

text \<open>
  A relation between the state before and after a piece of the run. A provider shows the laws for the
  ways the executor touches its state; the client lemmas carry the relation to the whole walk of an
  executable mission, and of any mission when the relation also allows a panic.
\<close>

locale step_relation =
  fixes R :: "phase_state \<Rightarrow> phase_state \<Rightarrow> bool"
  assumes refl: "R st st"
    and trans: "R st1 st2 \<Longrightarrow> R st2 st3 \<Longrightarrow> R st1 st3"
    and step: "trace_of call res phase_idx t \<Longrightarrow> R st (record_result call res t st)"
    and fail: "\<not> ps_aborted st \<Longrightarrow> R st (fail_loop st)"
    and capture: "R st (st\<lparr>ps_captured := (ps_captured st)(b \<mapsto> c)\<rparr>)"
    and scope: "R (enter_scope st sc) st' \<Longrightarrow> R st (leave_scope st st')"
begin

lemma process_result_R: "process_result rt steps phase_idx r st w = (st', w') \<Longrightarrow> R st st'"
  using process_result_record [of rt steps phase_idx "fst r" "snd r" st w] step by (cases r) fastforce

lemma process_batch_R: "process_batch rt steps phase_idx rs st w = (st', w') \<Longrightarrow> R st st'"
proof (induction rs arbitrary: st w)
  case (Cons r rs)
  obtain st1 w1 where r: "process_result rt steps phase_idx r st w = (st1, w1)" by fastforce
  with Cons have "R st1 st'" by simp
  with process_result_R [OF r] show ?case by (rule trans)
qed (simp add: refl)

lemma execute_calls_R:
  assumes "execute_calls_phase_partition rt run steps phase_idx st w = (st', w')"
  shows "R st st'"
proof (cases "steps = []")
  case False
  let ?par = "length steps > 1 \<and> rt_concurrency rt = Parallel"
  let ?req = "filter (\<lambda>i. \<not> ir_optional (steps ! i)) [0..<length steps]"
  let ?opt = "filter (\<lambda>i. ir_optional (steps ! i)) [0..<length steps]"
  obtain rs w1 where d: "dispatch_batch rt (batch_of run steps st) ?req ?par w = (rs, w1)" by fastforce
  obtain st2 w2 where p: "process_batch rt steps phase_idx rs st w1 = (st2, w2)" by fastforce
  obtain rs' w3 where d': "dispatch_batch rt (batch_of run steps st2) ?opt ?par w2 = (rs', w3)" by fastforce
  from assms False d p d' consider "st' = st2" | "process_batch rt steps phase_idx rs' st2 w3 = (st', w')"
    by (auto simp: execute_calls_phase_partition_def Let_def split: if_splits)
  then show ?thesis
  proof cases
    case 1
    with process_batch_R [OF p] show ?thesis by simp
  next
    case 2
    with process_batch_R [OF p] process_batch_R [OF 2] show ?thesis by (blast intro: trans)
  qed
qed (use assms in \<open>simp add: execute_calls_phase_partition_def refl\<close>)

lemma process_in_scope_R:
  assumes "process_in_scope rt steps phase_idx r st sc w = (st', sc', w')"
  shows "R st st'"
proof -
  obtain st1 w1 where p: "process_batch rt steps phase_idx [r] (enter_scope st sc) w = (st1, w1)" by fastforce
  with assms have "st' = leave_scope st st1" by (simp add: process_in_scope_def)
  with scope [OF process_batch_R [OF p]] show ?thesis by simp
qed

lemma run_loop_block_R:
  "run_loop_block rt run steps phase_idx i st sc w = (ok, st', sc', w') \<Longrightarrow> R st st'"
proof (induction "length steps - i" arbitrary: i st sc w)
  case 0
  then show ?case by (auto simp: refl elim: run_loop_block_cases)
next
  case (Suc n)
  from Suc.prems show ?case
  proof (cases rule: run_loop_block_cases)
    case stop
    then show ?thesis by (simp add: refl)
  next
    case (unresolved e r w1)
    then show ?thesis by (blast dest: process_in_scope_R)
  next
    case (step r sc1 w1 st2 sc2 w2)
    with Suc.hyps(2) have "R st2 st'" by (intro Suc.hyps(1) [OF _ step(5)]) simp
    with process_in_scope_R [OF step(4)] show ?thesis by (rule trans)
  qed
qed

lemma loop_iterations_R:
  "loop_iterations rt run rb body verify phase_idx n st w = (st', w') \<Longrightarrow> \<not> ps_aborted st \<Longrightarrow> R st st'"
proof (induction n arbitrary: st w)
  case 0
  then show ?case by (auto intro: fail)
next
  case (Suc n)
  obtain ok1 st1 sc1 w1 where b:
    "run_loop_block rt run body phase_idx 0 st (Map.empty, {}) w = (ok1, st1, sc1, w1)"
    by (metis prod_cases4)
  obtain ok2 st2 sc2 w2 where v: "run_loop_block rt run verify phase_idx 0 st1 sc1 w1 = (ok2, st2, sc2, w2)"
    by (metis prod_cases4)
  have R1: "R st st1" using b by (rule run_loop_block_R)
  have R2: "R st st2" using R1 run_loop_block_R [OF v] by (rule trans)
  show ?case
  proof (cases "\<not> ok1 \<or> ps_aborted st1 \<or> \<not> ok2 \<or> ps_aborted st2")
    case True
    with Suc.prems b v R1 R2 show ?thesis by (auto split: if_splits)
  next
    case False
    then have go: "ok1" "\<not> ps_aborted st1" "ok2" "\<not> ps_aborted st2" by auto
    show ?thesis
    proof (cases "final_capture (last verify) sc2")
      case None
      with Suc.prems b v go have "st' = fail_loop st2" by simp
      with R2 fail [OF go(4)] show ?thesis by (blast intro: trans)
    next
      case (Some c)
      show ?thesis
      proof (cases "verify_output_done rt (cap_value c)")
        case VerifyTrue
        with Suc.prems b v go Some have "st' = st2 \<or> (\<exists>b. st' = st2\<lparr>ps_captured := (ps_captured st2)(b \<mapsto> c)\<rparr>)"
          by (auto split: option.splits)
        with R2 capture show ?thesis by (blast intro: trans)
      next
        case VerifyFalse
        with Suc.prems b v go Some have
          "loop_iterations rt run rb body verify phase_idx n st2 w2 = (st', w')" by simp
        from R2 Suc.IH [OF this go(4)] show ?thesis by (rule trans)
      next
        case (VerifyMalformed m)
        with Suc.prems b v go Some have "st' = fail_loop st2" by simp
        with R2 fail [OF go(4)] show ?thesis by (blast intro: trans)
      qed
    qed
  qed
qed

lemma execute_loop_executable_R:
  assumes "execute_loop rt run lp phase_idx st w = (st', w')" "executable_step (IrStepLoop lp)"
    "\<not> ps_aborted st"
  shows "R st st'"
proof -
  from assms(2) obtain b v where "calls_from_partition (irl_body lp) = Some b"
    "calls_from_partition (irl_verify lp) = Some v" "v \<noteq> []"
    using calls_from_partition_calls [of "irl_body lp"] calls_from_partition_calls [of "irl_verify lp"] by auto
  with assms(1) have "loop_iterations rt run (irl_result_binding lp) b v phase_idx (irl_max_iters lp) st w = (st', w')"
    by (simp add: execute_loop_def)
  then show ?thesis using assms(3) by (rule loop_iterations_R)
qed

lemma execute_partition_executable_R:
  assumes "execute_partition rt run phase_idx p st w = (st', w')" "executable_partition p" "\<not> ps_aborted st"
  shows "R st st'"
proof (cases p)
  case (PCalls ss)
  with assms calls_from_partition_calls [of ss] show ?thesis
    by (auto simp: execute_partition_def dest: execute_calls_R)
next
  case (PLoop lp)
  with assms show ?thesis by (auto simp: execute_partition_def intro: execute_loop_executable_R)
qed

lemma execute_partitions_executable_R:
  "execute_partitions rt run phase_idx ps st w = (st', w') \<Longrightarrow> list_all executable_partition ps \<Longrightarrow> R st st'"
proof (induction ps arbitrary: st w)
  case (Cons p ps)
  obtain st1 w1 where p: "execute_partition rt run phase_idx p st w = (st1, w1)" by fastforce
  show ?case
  proof (cases "ps_aborted st")
    case False
    with Cons.prems p have "execute_partitions rt run phase_idx ps st1 w1 = (st', w')" by simp
    with execute_partition_executable_R [OF p _ False] Cons show ?thesis by (auto intro: trans)
  qed (use Cons.prems in \<open>simp add: refl\<close>)
qed (simp add: refl)

lemma execute_phases_executable_R:
  "execute_phases rt run steps phase_idx rs st w = (st', w') \<Longrightarrow> list_all executable_step steps \<Longrightarrow>
     list_all (range_in (length steps)) rs \<Longrightarrow> R st st'"
proof (induction rs arbitrary: phase_idx st w)
  case (Cons r rs)
  obtain xs where xs: "slice (range_start r) (range_end r) steps = Some xs" "list_all executable_step xs"
    using slice_executable [OF Cons.prems(2), of r] Cons.prems(3) by auto
  obtain st1 w1 where p: "execute_partitions rt run phase_idx (split_phase_steps xs) st w = (st1, w1)"
    by fastforce
  show ?case
  proof (cases "ps_aborted st")
    case False
    with Cons.prems xs p have "execute_phases rt run steps (Suc phase_idx) rs st1 w1 = (st', w')" by simp
    with execute_partitions_executable_R [OF p split_phase_executable [OF xs(2)]] Cons show ?thesis
      by (auto intro: trans)
  qed (use Cons.prems in \<open>simp add: refl\<close>)
qed (simp add: refl)

end

locale run_relation = step_relation +
  assumes stop: "R st (panic st)"
begin

lemma execute_loop_R:
  "execute_loop rt run lp phase_idx st w = (st', w') \<Longrightarrow> \<not> ps_aborted st \<Longrightarrow> R st st'"
  by (auto simp: execute_loop_def stop fail dest: loop_iterations_R split: option.splits if_splits)

lemma execute_partition_R:
  "execute_partition rt run phase_idx p st w = (st', w') \<Longrightarrow> \<not> ps_aborted st \<Longrightarrow> R st st'"
  by (auto simp: execute_partition_def stop dest: execute_loop_R execute_calls_R
      split: phase_partition.splits option.splits)

lemma execute_partitions_R:
  "execute_partitions rt run phase_idx ps st w = (st', w') \<Longrightarrow> R st st'"
proof (induction ps arbitrary: st w)
  case (Cons p ps)
  obtain st1 w1 where p: "execute_partition rt run phase_idx p st w = (st1, w1)" by fastforce
  show ?case
  proof (cases "ps_aborted st")
    case False
    with Cons.prems p have "execute_partitions rt run phase_idx ps st1 w1 = (st', w')" by simp
    with execute_partition_R [OF p False] Cons.IH show ?thesis by (blast intro: trans)
  qed (use Cons.prems in \<open>simp add: refl\<close>)
qed (simp add: refl)

lemma execute_phases_R:
  "execute_phases rt run steps phase_idx rs st w = (st', w') \<Longrightarrow> R st st'"
proof (induction rs arbitrary: phase_idx st w)
  case (Cons r rs)
  show ?case
  proof (cases "ps_aborted st")
    case False
    show ?thesis
    proof (cases "slice (range_start r) (range_end r) steps")
      case (Some xs)
      obtain st1 w1 where p: "execute_partitions rt run phase_idx (split_phase_steps xs) st w = (st1, w1)"
        by fastforce
      with Cons.prems False Some have "execute_phases rt run steps (Suc phase_idx) rs st1 w1 = (st', w')"
        by simp
      with execute_partitions_R [OF p] Cons.IH show ?thesis by (blast intro: trans)
    qed (use Cons.prems False stop in auto)
  qed (use Cons.prems in \<open>simp add: refl\<close>)
qed (simp add: refl)

end

section \<open>No panic\<close>

definition quiet :: "phase_state \<Rightarrow> phase_state \<Rightarrow> bool" where
  "quiet st st' \<longleftrightarrow> ps_panicked st' = ps_panicked st"

interpretation qt: step_relation quiet
proof
  show "quiet st (record_result call res t st)" for call res t st
    by (cases res) (simp_all add: quiet_def record_result_def Let_def)
qed (simp_all add: quiet_def fail_loop_def enter_scope_def leave_scope_def)

section \<open>Nothing is forgotten\<close>

text \<open>The captured and the skipped bindings of a scope, and the failure count, only grow.\<close>

definition grows :: "phase_state \<Rightarrow> phase_state \<Rightarrow> bool" where
  "grows st st' \<longleftrightarrow>
     dom (ps_captured st) \<subseteq> dom (ps_captured st') \<and> ps_skipped_bindings st \<subseteq> ps_skipped_bindings st' \<and>
     ps_failed st \<le> ps_failed st' \<and> (ps_aborted st \<longrightarrow> ps_aborted st')"

interpretation gr: run_relation grows
proof
  show "grows st (record_result call res t st)" for call res t st
    by (cases res; cases "output_binding call") (auto simp: grows_def record_result_def Let_def)
qed (auto simp: grows_def fail_loop_def panic_def enter_scope_def leave_scope_def)

end
