(* ===== verification/EalPlanner.thy ===== *)
theory EalPlanner
  imports EalIr
begin

text \<open>
  The planner (\<open>src/eal/runtime/planner.rs\<close>): semantic analysis of a syntax tree, cycle detection,
  phase assignment and lowering to Mission IR. \<open>anyhow\<close> errors are values of \<open>planner_error\<close>, one
  constructor per \<open>ensure!\<close> or \<open>bail!\<close> with the data its message shows.
\<close>

section \<open>Data\<close>

datatype planner_error =
    DuplicateBinding string
  | DuplicateLoopResult string
  | EmitNotTopLevel string
  | UndefinedVariable string string
  | EmitUndefinedVariable string string
  | RetryWithoutRetries string
  | OptionalAbortConflict string
  | MaxItersTooSmall string
  | MaxItersTooLarge string
  | EmptyLoopBody string
  | EmptyLoopVerify string
  | NestedLoop string "string option"
  | VerifyNotCall string
  | NestedVarRef string
  | InternalVarRef string
  | CycleInvolving string string
  | MissingAgentTarget string
  | InvalidAgentTarget string string agent_id_error
  | MissingDeviceTarget string
  | InvalidAbilityName string string agent_id_error
  | CallBoundExceeded string nat nat
  | SlotAlreadyTaken nat
  | DfsOutOfFuel

record analyzed_step =
  an_step_id :: string
  an_binding :: "string option"
  an_call :: call_expr
  an_deps :: "string list"

record analyzed_loop =
  al_name :: "string option"
  al_max_iters :: nat
  al_body :: "ir_step list"
  al_verify :: "ir_step list"
  al_result_binding :: "string option"

datatype analyzed_item = AnCall analyzed_step | AnLoop analyzed_loop

record analyzed_mission =
  am_items :: "analyzed_item list"
  am_emits :: "ir_emit list"

definition item_binding :: "analyzed_item \<Rightarrow> string option" where
  "item_binding it = (case it of AnCall c \<Rightarrow> an_binding c | AnLoop l \<Rightarrow> al_result_binding l)"

definition outer_deps :: "analyzed_item \<Rightarrow> string list" where
  "outer_deps it = (case it of AnCall c \<Rightarrow> an_deps c | AnLoop _ \<Rightarrow> [])"

section \<open>Lowering\<close>

fun field_value_to_json :: "field_value \<Rightarrow> planner_error + json"
  and fields_to_json :: "field list \<Rightarrow> json_map \<Rightarrow> planner_error + json_map" where
  "field_value_to_json (FString s) = Inr (JString s)"
| "field_value_to_json (FInt n) = Inr (JInt n)"
| "field_value_to_json (FFloat f) = Inr (json_of_f64 f)"
| "field_value_to_json (FBool b) = Inr (JBool b)"
| "field_value_to_json (Object fs) =
     and_then (fields_to_json fs []) (\<lambda>m. Inr (JObject m))"
| "field_value_to_json (VarRef v) = Inl (InternalVarRef v)"
| "fields_to_json [] m = Inr m"
| "fields_to_json (Field key val # fs) m =
     (if (case val of VarRef _ \<Rightarrow> True | _ \<Rightarrow> False) then Inl (NestedVarRef key)
      else
        and_then (field_value_to_json val) (\<lambda>j.
        fields_to_json fs (json_insert key j m)))"

text \<open>The argument loop of \<open>lower_call\<close>: references go to \<open>input_refs\<close>, the rest to the static object.\<close>

fun lower_arguments ::
  "field list \<Rightarrow> json_map \<times> (string \<times> string) list \<Rightarrow> planner_error + json_map \<times> (string \<times> string) list"
where
  "lower_arguments [] (sargs, refs) = Inr (sargs, refs)"
| "lower_arguments (Field key val # fs) (sargs, refs) =
     (case val of
        VarRef v \<Rightarrow> lower_arguments fs (sargs, btree_insert key v refs)
      | other \<Rightarrow>
          and_then (field_value_to_json other) (\<lambda>j.
          lower_arguments fs (json_insert key j sargs, refs)))"

definition lower_target :: "analyzed_step \<Rightarrow> planner_error + ir_target" where
  "lower_target step =
     (case target_kind (an_call step) of
        AgentKind \<Rightarrow>
          (case target_node (an_call step) of
             None \<Rightarrow> Inl (MissingAgentTarget (an_step_id step))
           | Some raw \<Rightarrow>
               (case agent_id_parse raw of
                  Inl e \<Rightarrow> Inl (InvalidAgentTarget (an_step_id step) raw e)
                | Inr a \<Rightarrow> Inr (IrAgent a)))
      | DeviceKind \<Rightarrow>
          (case target_node (an_call step) of
             None \<Rightarrow> Inl (MissingDeviceTarget (an_step_id step))
           | Some node \<Rightarrow> Inr (IrDevice node)))"

definition lower_policy :: "failure_policy option \<Rightarrow> ir_failure_policy" where
  "lower_policy p =
     (case p of
        Some Abort \<Rightarrow> IrAbort
      | Some Skip \<Rightarrow> IrSkip
      | Some Retry \<Rightarrow> IrRetry
      | Some Continue \<Rightarrow> IrContinue
      | None \<Rightarrow> IrContinue)"

definition unwrap_or :: "'a \<Rightarrow> 'a option \<Rightarrow> 'a" where
  "unwrap_or d x = (case x of None \<Rightarrow> d | Some v \<Rightarrow> v)"

definition lower_call :: "analyzed_step \<Rightarrow> planner_error + ir_step" where
  "lower_call step =
     (let call = an_call step; opts = call_options call in
      and_then (lower_arguments (arguments call) ([], [])) (\<lambda>(sargs, refs).
      and_then (lower_target step) (\<lambda>tgt.
      (case ability_name_parse (function_name call) of
         Inl e \<Rightarrow> Inl (InvalidAbilityName (an_step_id step) (function_name call) e)
       | Inr ab \<Rightarrow>
           Inr (IrStepCall
             \<lparr>step_id = an_step_id step, step_name = an_step_id step, ability = ab, ir_target = tgt,
              static_arguments = JObject sargs, input_refs = refs,
              output_binding = an_binding step,
              ir_timeout_seconds = unwrap_or 0 (timeout_seconds opts),
              ir_max_retries = unwrap_or 0 (max_retries opts),
              ir_on_failure = lower_policy (on_failure opts), ir_optional = optional opts,
              content_type = ''application/json''\<rparr>)))))"

definition lower_item :: "analyzed_item \<Rightarrow> planner_error + ir_step" where
  "lower_item item =
     (case item of
        AnCall s \<Rightarrow> lower_call s
      | AnLoop l \<Rightarrow>
          Inr (IrStepLoop
            (IrLoop (al_name l) (al_max_iters l) (al_body l) (al_verify l) (al_result_binding l))))"

section \<open>Cycle detection\<close>

text \<open>
  \<open>binding_index\<close>: the \<open>HashMap\<close> both passes collect from the items; a later duplicate wins.
\<close>

definition binding_index :: "analyzed_item list \<Rightarrow> string \<Rightarrow> nat option" where
  "binding_index items =
     map_of (rev (List.map_filter (\<lambda>(i, it). map_option (\<lambda>b. (b, i)) (item_binding it))
       (enumerate 0 items)))"

definition item_label :: "analyzed_item \<Rightarrow> string" where
  "item_label it =
     (case it of AnCall c \<Rightarrow> an_step_id c | AnLoop l \<Rightarrow> unwrap_or ''<anonymous-loop>'' (al_name l))"

type_synonym dfs_state = "bool list \<times> bool list"

text \<open>\<open>dfs\<close>, its depth bounded by fuel, and its loop over the dependencies of one item.\<close>

fun dfs :: "analyzed_item list \<Rightarrow> (string \<Rightarrow> nat option) \<Rightarrow> nat \<Rightarrow> nat \<Rightarrow> dfs_state
      \<Rightarrow> planner_error + dfs_state"
  and dfs_deps :: "analyzed_item list \<Rightarrow> (string \<Rightarrow> nat option) \<Rightarrow> nat \<Rightarrow> nat \<Rightarrow> string list \<Rightarrow> dfs_state
      \<Rightarrow> planner_error + dfs_state" where
  "dfs items idx_of 0 idx st = Inl DfsOutOfFuel"
| "dfs items idx_of (Suc n) idx (visited, in_stack) =
     and_then (dfs_deps items idx_of n idx (outer_deps (items ! idx))
         (visited[idx := True], in_stack[idx := True]))
       (\<lambda>(visited', in_stack'). Inr (visited', in_stack'[idx := False]))"
| "dfs_deps items idx_of n idx [] st = Inr st"
| "dfs_deps items idx_of n idx (dep # deps) (visited, in_stack) =
     (case idx_of dep of
        Some di \<Rightarrow>
          (if \<not> visited ! di then
             and_then (dfs items idx_of n di (visited, in_stack)) (dfs_deps items idx_of n idx deps)
           else if in_stack ! di then Inl (CycleInvolving (item_label (items ! idx)) dep)
           else dfs_deps items idx_of n idx deps (visited, in_stack))
      | None \<Rightarrow> dfs_deps items idx_of n idx deps (visited, in_stack))"

fun detect_from :: "analyzed_item list \<Rightarrow> nat list \<Rightarrow> dfs_state \<Rightarrow> planner_error + dfs_state" where
  "detect_from items [] st = Inr st"
| "detect_from items (i # is) (visited, in_stack) =
     and_then
       (if \<not> visited ! i then dfs items (binding_index items) (Suc (length items)) i (visited, in_stack)
        else Inr (visited, in_stack))
       (detect_from items is)"

definition detect_cycles :: "analyzed_item list \<Rightarrow> planner_error + unit" where
  "detect_cycles items =
     and_then
       (detect_from items [0..<length items]
         (replicate (length items) False, replicate (length items) False))
       (\<lambda>_. Inr ())"

section \<open>Semantic analysis\<close>

type_synonym symbols = "string \<rightharpoonup> nat"

definition usize_max :: nat where "usize_max = 2 ^ 64 - 1"

text \<open>A \<open>HashSet\<close> as a list without repetitions; nothing below depends on its order.\<close>

definition set_insert :: "'a \<Rightarrow> 'a list \<Rightarrow> 'a list" where
  "set_insert x xs = (if x \<in> set xs then xs else xs @ [x])"

fun collect_deps :: "string \<Rightarrow> symbols \<Rightarrow> field list \<Rightarrow> string list \<Rightarrow> planner_error + string list" where
  "collect_deps sid syms [] deps = Inr deps"
| "collect_deps sid syms (Field key val # fs) deps =
     (case val of
        VarRef v \<Rightarrow>
          and_then (ensure (syms v \<noteq> None) (UndefinedVariable sid v)) (\<lambda>_.
          collect_deps sid syms fs (set_insert v deps))
      | _ \<Rightarrow> collect_deps sid syms fs deps)"

definition anon_step_id :: "nat \<Rightarrow> string" where
  "anon_step_id n = ''__anon_'' @ show_nat n"

definition analyze_call ::
  "string option \<Rightarrow> call_expr \<Rightarrow> symbols \<Rightarrow> nat \<Rightarrow> nat \<Rightarrow> planner_error + analyzed_step \<times> symbols \<times> nat"
where
  "analyze_call binding call syms anon item_idx =
     and_then
       (case binding of
          Some nm \<Rightarrow> ensure (syms nm = None) (DuplicateBinding nm)
        | None \<Rightarrow> Inr ()) (\<lambda>_.
     (let anon' = (case binding of Some _ \<Rightarrow> anon | None \<Rightarrow> anon + 1);
          sid = (case binding of Some nm \<Rightarrow> nm | None \<Rightarrow> anon_step_id anon');
          opts = call_options call
      in
      and_then
        (if on_failure opts = Some Retry
         then ensure (unwrap_or 0 (max_retries opts) > 0) (RetryWithoutRetries sid)
         else Inr ()) (\<lambda>_.
      and_then
        (ensure (\<not> (optional opts \<and> on_failure opts = Some Abort)) (OptionalAbortConflict sid)) (\<lambda>_.
      and_then (collect_deps sid syms (arguments call) []) (\<lambda>deps.
      Inr (\<lparr>an_step_id = sid, an_binding = binding, an_call = call, an_deps = deps\<rparr>,
           (case binding of Some nm \<Rightarrow> syms(nm \<mapsto> item_idx) | None \<Rightarrow> syms), anon'))))))"

definition emit_value_to_ir :: "field_value \<Rightarrow> planner_error + ir_emit_value" where
  "emit_value_to_ir v =
     (case v of
        VarRef var_name \<Rightarrow> Inr (EmitBinding var_name)
      | other \<Rightarrow> and_then (field_value_to_json other) (\<lambda>j. Inr (EmitLiteral j)))"

definition analyze_emit :: "emit_statement \<Rightarrow> symbols \<Rightarrow> planner_error + ir_emit" where
  "analyze_emit e syms =
     and_then
       (case emit_value e of
          VarRef v \<Rightarrow> ensure (syms v \<noteq> None) (EmitUndefinedVariable (emit_name e) v)
        | _ \<Rightarrow> Inr ()) (\<lambda>_.
     and_then (emit_value_to_ir (emit_value e)) (\<lambda>v.
     Inr \<lparr>ire_name = emit_name e, ire_kind = emit_kind e, ire_value = v\<rparr>))"

fun seed_symbols :: "nat \<Rightarrow> string list \<Rightarrow> symbols \<Rightarrow> symbols" where
  "seed_symbols i [] syms = syms"
| "seed_symbols i (b # bs) syms = seed_symbols (Suc i) bs (syms(b \<mapsto> usize_max - i))"

record analysis =
  a_symbols :: symbols
  a_anon :: nat
  a_items :: "analyzed_item list"
  a_emits :: "ir_emit list"

fun nested_loop :: "statement list \<Rightarrow> string option option" where
  "nested_loop [] = None"
| "nested_loop (LoopStmt l # ss) = Some (loop_name l)"
| "nested_loop (_ # ss) = nested_loop ss"

definition loop_label :: "loop_block \<Rightarrow> string" where
  "loop_label l = unwrap_or ''<anonymous>'' (loop_name l)"

text \<open>The guards at the head of \<open>analyze_loop\<close>, in the order of the code.\<close>

definition check_loop :: "loop_block \<Rightarrow> planner_error + unit" where
  "check_loop l =
     (let label = loop_label l in
      and_then (ensure (max_iters l \<ge> 1) (MaxItersTooSmall label)) (\<lambda>_.
      and_then (ensure (max_iters l \<le> 32) (MaxItersTooLarge label)) (\<lambda>_.
      and_then (ensure (loop_body l \<noteq> []) (EmptyLoopBody label)) (\<lambda>_.
      and_then (ensure (loop_verify l \<noteq> []) (EmptyLoopVerify label)) (\<lambda>_.
      (case nested_loop (loop_body l @ loop_verify l) of
         Some inner \<Rightarrow> Inl (NestedLoop label inner)
       | None \<Rightarrow> Inr ()))))))"

definition item_bindings :: "analyzed_item list \<Rightarrow> string list" where
  "item_bindings items = List.map_filter item_binding items"

definition last_is_call :: "analyzed_item list \<Rightarrow> bool" where
  "last_is_call items \<longleftrightarrow>
     items \<noteq> [] \<and> (case last items of AnCall _ \<Rightarrow> True | AnLoop _ \<Rightarrow> False)"

text \<open>
  \<open>analyze_statements\<close> is the loop of \<open>analyze_statements_inner\<close>, \<open>analyze_block\<close> the function
  itself (seeded symbol table, the loop, the cycle check), \<open>analyze_loop\<close> its client.
\<close>

function (sequential) analyze_statements :: "bool \<Rightarrow> statement list \<Rightarrow> analysis \<Rightarrow> planner_error + analysis"
  and analyze_block :: "bool \<Rightarrow> statement list \<Rightarrow> nat \<Rightarrow> string list
      \<Rightarrow> planner_error + analyzed_mission \<times> nat"
  and analyze_loop :: "loop_block \<Rightarrow> nat \<Rightarrow> planner_error + analyzed_loop \<times> nat" where
  "analyze_statements allow_emit [] a = Inr a"
| "analyze_statements allow_emit (LetCall binding call # ss) a =
     and_then (analyze_call (Some binding) call (a_symbols a) (a_anon a) (length (a_items a)))
       (\<lambda>(step, syms, anon).
     analyze_statements allow_emit ss
       (a\<lparr>a_symbols := syms, a_anon := anon, a_items := a_items a @ [AnCall step]\<rparr>))"
| "analyze_statements allow_emit (CallStmt call # ss) a =
     and_then (analyze_call None call (a_symbols a) (a_anon a) (length (a_items a)))
       (\<lambda>(step, syms, anon).
     analyze_statements allow_emit ss
       (a\<lparr>a_symbols := syms, a_anon := anon, a_items := a_items a @ [AnCall step]\<rparr>))"
| "analyze_statements allow_emit (LoopStmt l # ss) a =
     and_then (analyze_loop l (a_anon a)) (\<lambda>(loop, anon).
     and_then
       (case al_result_binding loop of
          Some b \<Rightarrow>
            and_then (ensure (a_symbols a b = None) (DuplicateLoopResult b)) (\<lambda>_.
            Inr ((a_symbols a)(b \<mapsto> length (a_items a))))
        | None \<Rightarrow> Inr (a_symbols a)) (\<lambda>syms.
     analyze_statements allow_emit ss
       (a\<lparr>a_symbols := syms, a_anon := anon, a_items := a_items a @ [AnLoop loop]\<rparr>)))"
| "analyze_statements allow_emit (EmitStmt e # ss) a =
     and_then (ensure allow_emit (EmitNotTopLevel (emit_name e))) (\<lambda>_.
     and_then (analyze_emit e (a_symbols a)) (\<lambda>ire.
     analyze_statements allow_emit ss (a\<lparr>a_emits := a_emits a @ [ire]\<rparr>)))"
| "analyze_block allow_emit ss anon seeds =
     and_then
       (analyze_statements allow_emit ss
         \<lparr>a_symbols = seed_symbols 0 seeds Map.empty, a_anon = anon, a_items = [], a_emits = []\<rparr>)
       (\<lambda>a.
     and_then (detect_cycles (a_items a)) (\<lambda>_.
     Inr (\<lparr>am_items = a_items a, am_emits = a_emits a\<rparr>, a_anon a)))"
| "analyze_loop (LoopBlock nm iters body verify) anon =
     and_then (check_loop (LoopBlock nm iters body verify)) (\<lambda>_.
     and_then (analyze_block False body anon []) (\<lambda>(bm, anon).
     and_then (analyze_block False verify anon (item_bindings (am_items bm))) (\<lambda>(vm, anon).
     and_then (ensure (last_is_call (am_items vm)) (VerifyNotCall (unwrap_or ''<anonymous>'' nm))) (\<lambda>_.
     and_then (try_map lower_item (am_items bm)) (\<lambda>body_ir.
     and_then (try_map lower_item (am_items vm)) (\<lambda>verify_ir.
     Inr (\<lparr>al_name = nm, al_max_iters = iters, al_body = body_ir, al_verify = verify_ir,
           al_result_binding = map_option (\<lambda>n. n @ ''.result'') nm\<rparr>, anon)))))))"
  by pat_completeness auto
termination
  by (relation "measure (\<lambda>x. case x of
        Inl (_, ss, _) \<Rightarrow> 2 * size_list size ss
      | Inr (Inl (_, ss, _, _)) \<Rightarrow> 2 * size_list size ss + 1
      | Inr (Inr (l, _)) \<Rightarrow> 2 * size l)") auto

definition analyze_mission :: "eal_program \<Rightarrow> planner_error + analyzed_mission" where
  "analyze_mission program =
     and_then (analyze_block True (statements (mission program)) 0 []) (\<lambda>(m, _). Inr m)"

section \<open>Phases\<close>

fun assign_phase :: "(string \<Rightarrow> nat option) \<Rightarrow> nat list \<Rightarrow> string list \<Rightarrow> nat \<times> bool \<Rightarrow> nat \<times> bool" where
  "assign_phase idx_of phase [] (mx, has) = (mx, has)"
| "assign_phase idx_of phase (dep # deps) (mx, has) =
     (case idx_of dep of
        Some di \<Rightarrow> assign_phase idx_of phase deps (max mx (phase ! di), True)
      | None \<Rightarrow> assign_phase idx_of phase deps (mx, has))"

fun assign_from ::
  "(string \<Rightarrow> nat option) \<Rightarrow> nat \<Rightarrow> analyzed_item list \<Rightarrow> nat list \<Rightarrow> nat list" where
  "assign_from idx_of i [] phase = phase"
| "assign_from idx_of i (it # its) phase =
     (let (mx, has) = assign_phase idx_of phase (outer_deps it) (0, False)
      in assign_from idx_of (Suc i) its (phase[i := if has then mx + 1 else 0]))"

definition assign_phases :: "analyzed_item list \<Rightarrow> nat list" where
  "assign_phases items = assign_from (binding_index items) 0 items (replicate (length items) 0)"

definition has_block :: "analyzed_item list \<Rightarrow> bool" where
  "has_block items \<longleftrightarrow> list_ex (\<lambda>it. case it of AnLoop _ \<Rightarrow> True | AnCall _ \<Rightarrow> False) items"

text \<open>The schedule: item indices in execution order, the phase of each item, the number of phases.\<close>

definition schedule :: "analyzed_item list \<Rightarrow> nat list \<times> nat list \<times> nat" where
  "schedule items =
     (let n = length items in
      if has_block items then ([0..<n], [0..<n], n)
      else
        (let phase_of = assign_phases items in
         (sort_key (\<lambda>i. phase_of ! i) [0..<n], phase_of,
          (if phase_of = [] then 0 else Max (set phase_of) + 1))))"

record lowering =
  l_steps :: "ir_step list"
  l_phases :: "phase_range list"
  l_cur_phase :: nat
  l_phase_start :: nat
  l_slots :: "analyzed_item option list"

fun close_phases :: "nat \<Rightarrow> nat \<Rightarrow> lowering \<Rightarrow> lowering" where
  "close_phases out_idx 0 s = s"
| "close_phases out_idx (Suc k) s =
     close_phases out_idx k
       (s\<lparr>l_phases := l_phases s @ [\<lparr>range_start = l_phase_start s, range_end = out_idx\<rparr>],
          l_phase_start := out_idx, l_cur_phase := l_cur_phase s + 1\<rparr>)"

text \<open>The body of the schedule walk; the inner \<open>while cur_phase < phase\<close> runs \<open>phase - cur_phase\<close> times.\<close>

fun lower_schedule :: "nat list \<Rightarrow> nat \<Rightarrow> nat list \<Rightarrow> lowering \<Rightarrow> planner_error + lowering" where
  "lower_schedule phase_of out_idx [] s = Inr s"
| "lower_schedule phase_of out_idx (i # is) s =
     (let s1 = close_phases out_idx (phase_of ! i - l_cur_phase s) s in
      case l_slots s1 ! i of
        None \<Rightarrow> Inl (SlotAlreadyTaken i)
      | Some item \<Rightarrow>
          and_then (lower_item item) (\<lambda>st.
          lower_schedule phase_of (Suc out_idx) is
            (s1\<lparr>l_steps := l_steps s1 @ [st], l_slots := (l_slots s1)[i := None]\<rparr>)))"

definition finish_phases :: "nat \<Rightarrow> lowering \<Rightarrow> phase_range list" where
  "finish_phases num_phases s =
     (let e = length (l_steps s);
          ps = (if l_steps s \<noteq> [] then l_phases s @ [\<lparr>range_start = l_phase_start s, range_end = e\<rparr>]
                else l_phases s)
      in ps @ replicate (num_phases - length ps) \<lparr>range_start = e, range_end = e\<rparr>)"

definition total_call_bound :: "ir_step list \<Rightarrow> nat" where
  "total_call_bound steps = sum_list (map static_call_bound steps)"

definition compile :: "eal_program \<Rightarrow> planner_error + mission_ir" where
  "compile program =
     and_then (analyze_mission program) (\<lambda>am.
     (let (ordered, phase_of, num_phases) = schedule (am_items am) in
      and_then
        (lower_schedule phase_of 0 ordered
          \<lparr>l_steps = [], l_phases = [], l_cur_phase = 0, l_phase_start = 0,
           l_slots = map Some (am_items am)\<rparr>) (\<lambda>s.
      and_then
        (ensure (total_call_bound (l_steps s) \<le> default_max_calls)
          (CallBoundExceeded (mission_name (mission program)) (total_call_bound (l_steps s))
            default_max_calls)) (\<lambda>_.
      Inr \<lparr>ir_name = mission_name (mission program), ir_steps = l_steps s,
           ir_phases = finish_phases num_phases s, ir_emits = am_emits am,
           ir_constraints = default_constraints\<rparr>))))"

end
