(* ===== verification/EalSchedule.thy ===== *)
theory EalSchedule
  imports EalPlanner "HOL-Library.Multiset"
begin

text \<open>
  What the planner guarantees about the missions it emits: bindings are unique and defined before
  use, the dependency graph is acyclic, the phase ranges partition the steps contiguously, every
  reference is produced in a strictly earlier phase, loops are bounded, and every call of the source
  is lowered exactly once.
\<close>

named_theorems planner_iff \<open>what a successful planner operation did\<close>

section \<open>Bindings\<close>

lemma item_bindings_simps [simp]:
  "item_bindings [] = []"
  "item_bindings (it # its) =
     (case item_binding it of None \<Rightarrow> item_bindings its | Some b \<Rightarrow> b # item_bindings its)"
  by (simp_all add: item_bindings_def List.map_filter_simps split: option.split)

lemma item_bindings_append [simp]:
  "item_bindings (xs @ ys) = item_bindings xs @ item_bindings ys"
  by (induction xs) (auto split: option.splits)

lemma set_item_bindings: "set (item_bindings its) = {b. \<exists>i<length its. item_binding (its ! i) = Some b}"
  by (induction its) (auto simp: nth_Cons less_Suc_eq_0_disj split: option.splits)

lemma item_bindings_unique:
  "distinct (item_bindings its) \<Longrightarrow> i < length its \<Longrightarrow> j < length its \<Longrightarrow>
     item_binding (its ! i) = Some b \<Longrightarrow> item_binding (its ! j) = Some b \<Longrightarrow> i = j"
proof (induction its arbitrary: i j)
  case (Cons it its)
  have notin: "item_binding it = Some b \<Longrightarrow> k < length its \<Longrightarrow> item_binding (its ! k) \<noteq> Some b" for k
    using Cons.prems(1) by (auto simp: set_item_bindings)
  from Cons.prems(1) have "distinct (item_bindings its)" by (auto split: option.splits)
  with Cons notin show ?case by (cases i; cases j) auto
qed simp

definition items_ok :: "string list \<Rightarrow> analyzed_item list \<Rightarrow> bool" where
  "items_ok seeds its \<longleftrightarrow>
     distinct (item_bindings its) \<and> set seeds \<inter> set (item_bindings its) = {} \<and>
     (\<forall>i<length its. set (outer_deps (its ! i)) \<subseteq> set seeds \<union> set (item_bindings (take i its)))"

lemma items_ok_Nil [simp]: "items_ok seeds []"
  by (simp add: items_ok_def)

lemma items_ok_snoc:
  "items_ok seeds (its @ [it]) \<longleftrightarrow>
     items_ok seeds its \<and> set (outer_deps it) \<subseteq> set seeds \<union> set (item_bindings its) \<and>
     (\<forall>b. item_binding it = Some b \<longrightarrow> b \<notin> set seeds \<union> set (item_bindings its))"
  by (auto simp: items_ok_def nth_append less_Suc_eq split: option.splits)

section \<open>Semantic analysis\<close>

definition var_refs :: "field list \<Rightarrow> string set" where
  "var_refs fs = {v. VarRef v \<in> fval ` set fs}"

lemma var_refs_simps [simp]:
  "var_refs [] = {}"
  "var_refs (Field k v # fs) = (case v of VarRef x \<Rightarrow> {x} | _ \<Rightarrow> {}) \<union> var_refs fs"
  by (auto simp: var_refs_def split: field_value.splits)

lemma set_set_insert [simp]: "set (set_insert x xs) = insert x (set xs)"
  by (auto simp: set_insert_def)

lemma collect_deps_Inr:
  "collect_deps sid syms fs deps = Inr deps' \<Longrightarrow>
     set deps' = set deps \<union> var_refs fs \<and> var_refs fs \<subseteq> dom syms"
proof (induction sid syms fs deps arbitrary: deps' rule: collect_deps.induct)
  case (2 sid syms key v fs deps)
  then show ?case
    by (cases v) (auto simp: result_simps)
qed simp

lemma analyze_call_Inr:
  assumes "analyze_call binding call syms anon idx = Inr (st, syms', anon')"
  shows "an_binding st = binding \<and> an_call st = call \<and> set (an_deps st) = var_refs (arguments call) \<and>
    var_refs (arguments call) \<subseteq> dom syms \<and>
    (\<forall>b. binding = Some b \<longrightarrow> b \<notin> dom syms \<and> syms' = syms(b \<mapsto> idx) \<and> an_step_id st = b) \<and>
    (binding = None \<longrightarrow> syms' = syms \<and> an_step_id st = anon_step_id (anon + 1)) \<and>
    (on_failure (call_options call) = Some Retry \<longrightarrow> unwrap_or 0 (max_retries (call_options call)) > 0) \<and>
    \<not> (optional (call_options call) \<and> on_failure (call_options call) = Some Abort)"
  using assms
  by (auto simp: analyze_call_def Let_def result_simps dest!: collect_deps_Inr
      split: option.splits if_splits)

lemma dom_seed_symbols: "dom (seed_symbols i bs syms) = set bs \<union> dom syms"
  by (induction bs arbitrary: i syms) auto

definition analysis_ok :: "string list \<Rightarrow> analysis \<Rightarrow> bool" where
  "analysis_ok seeds a \<longleftrightarrow>
     items_ok seeds (a_items a) \<and>
     dom (a_symbols a) = set seeds \<union> set (item_bindings (a_items a))"

text \<open>An invariant of the statement loop, shown one item at a time.\<close>

lemma analyze_statements_invariant:
  assumes "analyze_statements allow_emit ss a = Inr a'" and "P a"
    and call: "\<And>b c a st syms anon. P a \<Longrightarrow>
      (case b of None \<Rightarrow> CallStmt c | Some n \<Rightarrow> LetCall n c) \<in> set ss \<Longrightarrow>
      analyze_call b c (a_symbols a) (a_anon a) (length (a_items a)) = Inr (st, syms, anon) \<Longrightarrow>
      P (a\<lparr>a_symbols := syms, a_anon := anon, a_items := a_items a @ [AnCall st]\<rparr>)"
    and loop: "\<And>l a lp syms anon. P a \<Longrightarrow> LoopStmt l \<in> set ss \<Longrightarrow>
      analyze_loop l (a_anon a) = Inr (lp, anon) \<Longrightarrow>
      (case al_result_binding lp of
         None \<Rightarrow> syms = a_symbols a
       | Some b \<Rightarrow> a_symbols a b = None \<and> syms = (a_symbols a)(b \<mapsto> length (a_items a))) \<Longrightarrow>
      P (a\<lparr>a_symbols := syms, a_anon := anon, a_items := a_items a @ [AnLoop lp]\<rparr>)"
    and emit: "\<And>e a ire. P a \<Longrightarrow> EmitStmt e \<in> set ss \<Longrightarrow> analyze_emit e (a_symbols a) = Inr ire \<Longrightarrow>
      P (a\<lparr>a_emits := a_emits a @ [ire]\<rparr>)"
  shows "P a'"
proof -
  have "set xs \<subseteq> set ss \<Longrightarrow> analyze_statements allow_emit xs a = Inr a' \<Longrightarrow> P a \<Longrightarrow> P a'" for xs a
  proof (induction xs arbitrary: a)
    case (Cons s xs)
    show ?case
    proof (cases s)
      case (LetCall b c)
      with Cons.prems obtain st syms anon where
        c: "analyze_call (Some b) c (a_symbols a) (a_anon a) (length (a_items a)) = Inr (st, syms, anon)"
        and rest: "analyze_statements allow_emit xs (a\<lparr>a_symbols := syms, a_anon := anon,
          a_items := a_items a @ [AnCall st]\<rparr>) = Inr a'"
        by (auto simp: result_simps)
      show ?thesis
        by (rule Cons.IH [OF _ rest call [of _ c "Some b"]]) (use Cons.prems LetCall c in auto)
    next
      case (CallStmt c)
      with Cons.prems obtain st syms anon where
        c: "analyze_call None c (a_symbols a) (a_anon a) (length (a_items a)) = Inr (st, syms, anon)"
        and rest: "analyze_statements allow_emit xs (a\<lparr>a_symbols := syms, a_anon := anon,
          a_items := a_items a @ [AnCall st]\<rparr>) = Inr a'"
        by (auto simp: result_simps)
      show ?thesis
        by (rule Cons.IH [OF _ rest call [of _ c None]]) (use Cons.prems CallStmt c in auto)
    next
      case (EmitStmt e)
      with Cons.prems obtain ire where c: "analyze_emit e (a_symbols a) = Inr ire"
        and rest: "analyze_statements allow_emit xs (a\<lparr>a_emits := a_emits a @ [ire]\<rparr>) = Inr a'"
        by (auto simp: result_simps)
      show ?thesis
        by (rule Cons.IH [OF _ rest emit [of _ e]]) (use Cons.prems EmitStmt c in auto)
    next
      case (LoopStmt l)
      with Cons.prems obtain lp anon where c: "analyze_loop l (a_anon a) = Inr (lp, anon)"
        and tail: "and_then (case al_result_binding lp of
            Some b \<Rightarrow> and_then (ensure (a_symbols a b = None) (DuplicateLoopResult b)) (\<lambda>_.
              Inr ((a_symbols a)(b \<mapsto> length (a_items a))))
          | None \<Rightarrow> Inr (a_symbols a)) (\<lambda>syms. analyze_statements allow_emit xs
            (a\<lparr>a_symbols := syms, a_anon := anon, a_items := a_items a @ [AnLoop lp]\<rparr>)) = Inr a'"
        by (fastforce simp: and_then_Inr_iff)
      from tail obtain syms where syms: "case al_result_binding lp of None \<Rightarrow> syms = a_symbols a
          | Some b \<Rightarrow> a_symbols a b = None \<and> syms = (a_symbols a)(b \<mapsto> length (a_items a))"
        and rest: "analyze_statements allow_emit xs (a\<lparr>a_symbols := syms, a_anon := anon,
          a_items := a_items a @ [AnLoop lp]\<rparr>) = Inr a'"
        by (cases "al_result_binding lp") (auto simp: result_simps)
      show ?thesis
        by (rule Cons.IH [OF _ rest loop [of _ l]]) (use Cons.prems LoopStmt c syms in auto)
    qed
  qed simp
  with assms(1,2) show ?thesis by blast
qed

lemma analysis_ok_call:
  assumes "analysis_ok seeds a"
    and "analyze_call b c (a_symbols a) (a_anon a) k = Inr (st, syms, anon)"
  shows "analysis_ok seeds
    (a\<lparr>a_symbols := syms, a_anon := anon, a_items := a_items a @ [AnCall st]\<rparr>)"
  using assms(1) analyze_call_Inr [OF assms(2)]
  by (cases b) (auto simp: analysis_ok_def items_ok_snoc outer_deps_def item_binding_def)

lemma analysis_ok_loop:
  assumes "analysis_ok seeds a"
    and "case al_result_binding lp of
         None \<Rightarrow> syms = a_symbols a
       | Some b \<Rightarrow> a_symbols a b = None \<and> syms = (a_symbols a)(b \<mapsto> k)"
  shows "analysis_ok seeds
    (a\<lparr>a_symbols := syms, a_anon := anon, a_items := a_items a @ [AnLoop lp]\<rparr>)"
  using assms
  by (auto simp: analysis_ok_def items_ok_snoc outer_deps_def item_binding_def split: option.splits)

lemma analyze_statements_ok:
  assumes "analyze_statements allow_emit ss a = Inr a'" and "analysis_ok seeds a"
  shows "analysis_ok seeds a'"
  using assms
  by (rule analyze_statements_invariant [where P = "analysis_ok seeds"])
    (auto intro: analysis_ok_call analysis_ok_loop, simp add: analysis_ok_def)

lemma analyze_block_ok:
  "analyze_block allow_emit ss anon seeds = Inr (m, anon') \<Longrightarrow> items_ok seeds (am_items m)"
  by (auto simp: result_simps analysis_ok_def dom_seed_symbols dest!: analyze_statements_ok)

section \<open>Cycle detection\<close>

lemma set_map_filter: "set (List.map_filter f xs) = {y. \<exists>x\<in>set xs. f x = Some y}"
  by (induction xs) (auto simp: List.map_filter_simps split: option.splits)

lemma set_binding_pairs:
  "set (List.map_filter (\<lambda>(i, it). map_option (\<lambda>b. (b, i)) (item_binding it)) (enumerate 0 its)) =
     {(b, i). i < length its \<and> item_binding (its ! i) = Some b}"
  unfolding set_map_filter by (auto simp: Bex_def in_set_enumerate_eq)

lemma binding_index_SomeD:
  "binding_index its b = Some i \<Longrightarrow> i < length its \<and> item_binding (its ! i) = Some b"
  unfolding binding_index_def by (drule map_of_SomeD) (simp add: set_binding_pairs)

lemma binding_index_Some:
  assumes "distinct (item_bindings its)" "i < length its" "item_binding (its ! i) = Some b"
  shows "binding_index its b = Some i"
proof (cases "binding_index its b")
  case None
  with assms(2,3) show ?thesis
    unfolding binding_index_def map_of_eq_None_iff by (force simp: set_binding_pairs)
next
  case (Some j)
  with binding_index_SomeD [OF Some] item_bindings_unique [OF assms(1)] assms(2,3) show ?thesis by auto
qed

text \<open>References go backwards: a dependency is produced by an earlier item or comes from the seed.\<close>

lemma items_ok_backward:
  assumes "items_ok seeds its" "i < length its" "d \<in> set (outer_deps (its ! i))"
    and "binding_index its d = Some j"
  shows "j < i"
proof -
  from binding_index_SomeD [OF assms(4)] have j: "j < length its" "item_binding (its ! j) = Some d"
    by auto
  then have "d \<in> set (item_bindings its)" by (auto simp: set_item_bindings)
  with assms(1-3) have "d \<in> set (item_bindings (take i its))" by (auto simp: items_ok_def)
  then obtain k where "k < i" "k < length its" "item_binding (its ! k) = Some d"
    by (auto simp: set_item_bindings)
  with item_bindings_unique [of its k j d] j assms(1) show ?thesis by (auto simp: items_ok_def)
qed

lemma items_ok_defined:
  assumes "items_ok [] its" "i < length its" "d \<in> set (outer_deps (its ! i))"
  shows "\<exists>j<i. binding_index its d = Some j"
proof -
  from assms have "d \<in> set (item_bindings (take i its))" by (auto simp: items_ok_def)
  then obtain k where "k < i" "k < length its" "item_binding (its ! k) = Some d"
    by (auto simp: set_item_bindings)
  with binding_index_Some assms(1) show ?thesis by (auto simp: items_ok_def)
qed

definition backward :: "analyzed_item list \<Rightarrow> (string \<Rightarrow> nat option) \<Rightarrow> bool" where
  "backward its idx_of \<longleftrightarrow>
     (\<forall>i<length its. \<forall>d\<in>set (outer_deps (its ! i)). \<forall>j. idx_of d = Some j \<longrightarrow> j < i)"

text \<open>
  On a backward graph the search from \<open>idx\<close> needs at most \<open>idx\<close> nested calls, never meets the
  stack and leaves it as it was.
\<close>

definition dfs_returns :: "analyzed_item list \<Rightarrow> (string \<Rightarrow> nat option) \<Rightarrow> nat \<Rightarrow> nat \<Rightarrow> bool" where
  "dfs_returns its idx_of n idx \<longleftrightarrow>
     (\<forall>visited in_stack. length visited = length its \<and> length in_stack = length its \<and>
        (\<forall>j\<le>idx. \<not> in_stack ! j) \<longrightarrow>
        (\<exists>visited'. dfs its idx_of n idx (visited, in_stack) = Inr (visited', in_stack) \<and>
           length visited' = length its))"

lemma dfs_deps_backward:
  assumes "\<And>di. di < idx \<Longrightarrow> dfs_returns its idx_of n di"
    and "length in_stack = length its" "\<And>j. j < idx \<Longrightarrow> \<not> in_stack ! j"
  shows "length visited = length its \<Longrightarrow> (\<forall>d\<in>set deps. \<forall>j. idx_of d = Some j \<longrightarrow> j < idx) \<Longrightarrow>
    \<exists>visited'. dfs_deps its idx_of n idx deps (visited, in_stack) = Inr (visited', in_stack) \<and>
      length visited' = length its"
proof (induction deps arbitrary: visited)
  case (Cons d deps)
  show ?case
  proof (cases "idx_of d")
    case (Some di)
    with Cons.prems have di: "di < idx" by auto
    from di assms(3) have "\<forall>j\<le>di. \<not> in_stack ! j" by simp
    with assms(1) [OF di] assms(2) Cons.prems(1) obtain visited' where
      "dfs its idx_of n di (visited, in_stack) = Inr (visited', in_stack)" "length visited' = length its"
      unfolding dfs_returns_def by blast
    with Some di assms(3) Cons.prems Cons.IH [of visited] Cons.IH [of visited'] show ?thesis by simp
  qed (use Cons in auto)
qed simp

lemma dfs_backward:
  "backward its idx_of \<Longrightarrow> idx < length its \<Longrightarrow> idx < n \<Longrightarrow> dfs_returns its idx_of n idx"
proof (induction n arbitrary: idx)
  case (Suc n)
  show ?case
    unfolding dfs_returns_def
  proof (intro allI impI, elim conjE)
    fix visited in_stack :: "bool list"
    assume len: "length visited = length its" "length in_stack = length its"
      and stack: "\<forall>j\<le>idx. \<not> in_stack ! j"
    have "in_stack[idx := True, idx := False] = in_stack"
      using stack by (metis (full_types) list_update_id list_update_overwrite order_refl)
    moreover have "\<exists>visited'. dfs_deps its idx_of n idx (outer_deps (its ! idx))
        (visited[idx := True], in_stack[idx := True]) = Inr (visited', in_stack[idx := True]) \<and>
        length visited' = length its"
      by (rule dfs_deps_backward) (use Suc len stack in \<open>auto simp: backward_def\<close>)
    ultimately show "\<exists>visited'. dfs its idx_of (Suc n) idx (visited, in_stack) = Inr (visited', in_stack)
        \<and> length visited' = length its"
      by auto
  qed
qed simp

lemma detect_from_backward:
  "backward its (binding_index its) \<Longrightarrow> set is \<subseteq> {..<length its} \<Longrightarrow> length visited = length its \<Longrightarrow>
     \<exists>visited'. detect_from its is (visited, replicate (length its) False) =
       Inr (visited', replicate (length its) False)"
proof (induction "is" arbitrary: visited)
  case (Cons i "is")
  then have i: "i < length its" by simp
  with Cons.prems(1) have "dfs_returns its (binding_index its) (Suc (length its)) i"
    by (intro dfs_backward) auto
  moreover from i have "\<forall>j\<le>i. \<not> replicate (length its) False ! j" by simp
  ultimately obtain visited' where
    "dfs its (binding_index its) (Suc (length its)) i (visited, replicate (length its) False) =
       Inr (visited', replicate (length its) False)" "length visited' = length its"
    using Cons.prems(3) unfolding dfs_returns_def by (metis length_replicate)
  with Cons.prems Cons.IH [of visited] Cons.IH [of visited'] show ?case by (simp del: dfs.simps)
qed simp

lemma detect_cycles_ok: "items_ok seeds its \<Longrightarrow> detect_cycles its = Inr ()"
  using detect_from_backward [of its "[0..<length its]" "replicate (length its) False"]
    items_ok_backward [of seeds its]
  by (fastforce simp: detect_cycles_def backward_def)

section \<open>Phase assignment\<close>

lemma assign_phase_bound:
  "assign_phase idx_of phase deps (mx, has) = (mx', has') \<Longrightarrow>
     mx \<le> mx' \<and> (has \<longrightarrow> has') \<and>
     (\<forall>d\<in>set deps. \<forall>j. idx_of d = Some j \<longrightarrow> phase ! j \<le> mx' \<and> has')"
proof (induction deps arbitrary: mx has)
  case (Cons d deps)
  then show ?case by (cases "idx_of d") fastforce+
qed simp

lemma length_assign_from [simp]: "length (assign_from idx_of i its phase) = length phase"
  by (induction its arbitrary: i phase) (auto simp: Let_def split: prod.splits)

lemma assign_from_before: "j < i \<Longrightarrow> assign_from idx_of i its phase ! j = phase ! j"
  by (induction its arbitrary: i phase) (auto simp: Let_def split: prod.splits)

lemma assign_from_less:
  "i + length its = length phase \<Longrightarrow> k < length its \<Longrightarrow> d \<in> set (outer_deps (its ! k)) \<Longrightarrow>
     idx_of d = Some j \<Longrightarrow> j < i + k \<Longrightarrow>
     assign_from idx_of i its phase ! j < assign_from idx_of i its phase ! (i + k)"
proof (induction its arbitrary: i phase k)
  case (Cons it its)
  obtain mx has where a: "assign_phase idx_of phase (outer_deps it) (0, False) = (mx, has)"
    by fastforce
  show ?case
  proof (cases k)
    case 0
    with Cons.prems assign_phase_bound [OF a] show ?thesis
      by (auto simp: a assign_from_before less_Suc_eq_le)
  next
    case (Suc k')
    with Cons.prems show ?thesis
      using Cons.IH [of "Suc i" "phase[i := if has then mx + 1 else 0]" k'] by (simp add: a)
  qed
qed simp

definition schedule_ok :: "analyzed_item list \<Rightarrow> nat list \<Rightarrow> nat list \<Rightarrow> nat \<Rightarrow> bool" where
  "schedule_ok its ordered phase_of num \<longleftrightarrow>
     mset ordered = mset [0..<length its] \<and> sorted (map (\<lambda>i. phase_of ! i) ordered) \<and>
     num = (if its = [] then 0 else phase_of ! last ordered + 1) \<and>
     (\<forall>i<length its. \<forall>d\<in>set (outer_deps (its ! i)).
        \<exists>j<length its. item_binding (its ! j) = Some d \<and> phase_of ! j < phase_of ! i)"

lemma sorted_last_Max:
  "sorted xs \<Longrightarrow> xs \<noteq> [] \<Longrightarrow> last xs = Max (set xs)" for xs :: "nat list"
  by (induction xs) (auto simp: max_def)

lemma schedule_schedule_ok:
  assumes "items_ok [] its" "schedule its = (ordered, phase_of, num)"
  shows "schedule_ok its ordered phase_of num"
proof (cases "has_block its")
  case True
  with assms(2) have [simp]: "ordered = [0..<length its]" "phase_of = [0..<length its]" "num = length its"
    by (auto simp: schedule_def Let_def)
  have "sorted (map (\<lambda>i. phase_of ! i) ordered)"
    using map_nth [of "[0..<length its]"] by simp
  moreover have "\<exists>j<length its. item_binding (its ! j) = Some d \<and> phase_of ! j < phase_of ! i"
    if "i < length its" "d \<in> set (outer_deps (its ! i))" for i d
    using items_ok_defined [OF assms(1) that] binding_index_SomeD [of its d] that
    by (auto intro: less_trans)
  ultimately show ?thesis by (auto simp: schedule_ok_def last_conv_nth)
next
  case False
  with assms(2) have sched: "ordered = sort_key (\<lambda>i. phase_of ! i) [0..<length its]"
    "phase_of = assign_phases its" "num = (if phase_of = [] then 0 else Max (set phase_of) + 1)"
    by (auto simp: schedule_def Let_def)
  have len: "length phase_of = length its" by (simp add: sched(2) assign_phases_def)
  have sorted: "sorted (map (\<lambda>i. phase_of ! i) ordered)" by (simp add: sched(1))
  have set: "set (map (\<lambda>i. phase_of ! i) ordered) = set phase_of"
    using map_nth [of phase_of] by (metis len list.set_map sched(1) set_sort)
  have "length ordered = length its" by (simp add: sched(1))
  then have ord: "its \<noteq> [] \<Longrightarrow> ordered \<noteq> []" by auto
  have "its \<noteq> [] \<Longrightarrow> phase_of ! last ordered = Max (set phase_of)"
    using sorted_last_Max [OF sorted] ord by (simp add: last_map flip: set)
  then have "num = (if its = [] then 0 else phase_of ! last ordered + 1)"
    using len sched(3) by auto
  moreover have "\<exists>j<length its. item_binding (its ! j) = Some d \<and> phase_of ! j < phase_of ! i"
    if i: "i < length its" and d: "d \<in> set (outer_deps (its ! i))" for i d
  proof -
    obtain j where j: "j < i" "binding_index its d = Some j"
      using items_ok_defined [OF assms(1) i d] by blast
    with assign_from_less [of 0 its "replicate (length its) 0" i d "binding_index its" j] i d
      binding_index_SomeD [OF j(2)]
    show ?thesis by (intro exI [of _ j]) (auto simp: sched(2) assign_phases_def)
  qed
  ultimately show ?thesis using sorted by (auto simp: schedule_ok_def sched(1))
qed

section \<open>Lowering the schedule\<close>

definition range_indices :: "phase_range \<Rightarrow> nat list" where
  "range_indices r = [range_start r..<range_end r]"

text \<open>
  The walk after \<open>m\<close> steps, \<open>q p\<close> being the phase of the step at position \<open>p\<close>: the closed ranges
  tile the positions before the open phase, and each range holds the positions of its own phase.
\<close>

definition lowering_ok :: "(nat \<Rightarrow> nat) \<Rightarrow> nat \<Rightarrow> lowering \<Rightarrow> bool" where
  "lowering_ok q m s \<longleftrightarrow>
     length (l_phases s) = l_cur_phase s \<and> l_phase_start s \<le> m \<and>
     concat (map range_indices (l_phases s)) = [0..<l_phase_start s] \<and>
     (\<forall>k<l_cur_phase s. \<forall>p\<in>set (range_indices (l_phases s ! k)). q p = k) \<and>
     (\<forall>p. l_phase_start s \<le> p \<and> p < m \<longrightarrow> q p = l_cur_phase s) \<and>
     (\<forall>r\<in>set (l_phases s). range_start r \<le> range_end r \<and> range_end r \<le> m)"

lemma upt_append: "i \<le> j \<Longrightarrow> j \<le> k \<Longrightarrow> [i..<j] @ [j..<k] = [i..<k]"
  by (metis le_add_diff_inverse upt_add_eq_append)

lemma close_phases_ok:
  "lowering_ok q m s \<Longrightarrow>
     lowering_ok q m (close_phases m k s) \<and> l_cur_phase (close_phases m k s) = l_cur_phase s + k \<and>
     l_steps (close_phases m k s) = l_steps s \<and> l_slots (close_phases m k s) = l_slots s"
proof (induction k arbitrary: s)
  case (Suc k)
  let ?s = "s\<lparr>l_phases := l_phases s @ [\<lparr>range_start = l_phase_start s, range_end = m\<rparr>],
    l_phase_start := m, l_cur_phase := l_cur_phase s + 1\<rparr>"
  from Suc.prems have "lowering_ok q m ?s"
    by (auto simp: lowering_ok_def range_indices_def upt_append nth_append less_Suc_eq)
  from Suc.IH [OF this] show ?case by simp
qed simp

lemma lowering_ok_push:
  assumes "lowering_ok q m s" "q m = l_cur_phase s"
  shows "lowering_ok q (Suc m) (s\<lparr>l_steps := sts, l_slots := sl\<rparr>)"
  using assms by (auto simp: lowering_ok_def less_Suc_eq)

lemma lower_schedule_ok:
  assumes "lower_schedule phase_of m is s = Inr s'" "lowering_ok q m s" "distinct is"
    and "\<And>i. i \<in> set is \<Longrightarrow> l_slots s ! i = Some (its ! i)"
    and "\<And>p. p < length is \<Longrightarrow> q (m + p) = phase_of ! (is ! p)"
    and "sorted (map (\<lambda>i. phase_of ! i) is)" "is \<noteq> [] \<Longrightarrow> l_cur_phase s \<le> phase_of ! hd is"
  shows "lowering_ok q (m + length is) s' \<and>
    l_cur_phase s' = (if is = [] then l_cur_phase s else phase_of ! last is) \<and>
    (\<exists>sts. l_steps s' = l_steps s @ sts \<and> list_all2 (\<lambda>i st. lower_item (its ! i) = Inr st) is sts)"
  using assms
proof (induction "is" arbitrary: m s)
  case (Cons i "is")
  let ?s1 = "close_phases m (phase_of ! i - l_cur_phase s) s"
  from close_phases_ok [OF Cons.prems(2)] Cons.prems(7)
  have s1: "lowering_ok q m ?s1" "l_cur_phase ?s1 = phase_of ! i" "l_steps ?s1 = l_steps s"
    "l_slots ?s1 = l_slots s" by auto
  with Cons.prems(1,4) obtain st where st: "lower_item (its ! i) = Inr st"
    and rest: "lower_schedule phase_of (Suc m) is
      (?s1\<lparr>l_steps := l_steps ?s1 @ [st], l_slots := (l_slots ?s1)[i := None]\<rparr>) = Inr s'"
    by (auto simp: Let_def result_simps)
  from Cons.prems(5) [of 0] have "q m = phase_of ! i" by simp
  with s1 have ok: "lowering_ok q (Suc m)
      (?s1\<lparr>l_steps := l_steps ?s1 @ [st], l_slots := (l_slots ?s1)[i := None]\<rparr>)"
    by (intro lowering_ok_push) auto
  have "lowering_ok q (Suc m + length is) s' \<and>
    l_cur_phase s' = (if is = [] then phase_of ! i else phase_of ! last is) \<and>
    (\<exists>sts. l_steps s' = (l_steps s @ [st]) @ sts \<and>
       list_all2 (\<lambda>i st. lower_item (its ! i) = Inr st) is sts)"
  proof -
    have "q (Suc m + p) = phase_of ! (is ! p)" if "p < length is" for p
      using Cons.prems(5) [of "Suc p"] that by simp
    moreover have "is \<noteq> [] \<Longrightarrow> phase_of ! i \<le> phase_of ! hd is"
      using Cons.prems(6) by (cases "is") auto
    moreover have "j \<in> set is \<Longrightarrow> (l_slots s)[i := None] ! j = Some (its ! j)" for j
      using Cons.prems(3,4) by (metis distinct.simps(2) list.set_intros(2) nth_list_update_neq)
    ultimately show ?thesis
      using Cons.IH [OF rest ok] Cons.prems(3,6) s1 by simp
  qed
  with st show ?case by (force simp: list_all2_Cons1)
qed simp

lemma close_phases_slots [simp]: "l_slots (close_phases m k s) = l_slots s"
  by (induction k arbitrary: s) simp_all

lemma lower_schedule_error:
  "lower_schedule phase_of m is s = Inl e \<Longrightarrow> distinct is \<Longrightarrow>
     (\<forall>i\<in>set is. l_slots s ! i = Some (its ! i)) \<Longrightarrow> \<exists>i\<in>set is. lower_item (its ! i) = Inl e"
proof (induction "is" arbitrary: m s)
  case (Cons i "is")
  show ?case
  proof (cases "lower_item (its ! i)")
    case (Inl e')
    with Cons.prems show ?thesis by (auto simp: Let_def)
  next
    case (Inr st)
    let ?s1 = "close_phases m (phase_of ! i - l_cur_phase s) s"
    from Cons.prems Inr have "lower_schedule phase_of (Suc m) is
      (?s1\<lparr>l_steps := l_steps ?s1 @ [st], l_slots := (l_slots ?s1)[i := None]\<rparr>) = Inl e"
      by (auto simp: Let_def)
    moreover have "\<forall>j\<in>set is. (l_slots s)[i := None] ! j = Some (its ! j)"
      using Cons.prems(2,3) by (metis distinct.simps(2) list.set_intros(2) nth_list_update_neq)
    ultimately show ?thesis using Cons.IH Cons.prems(2) by fastforce
  qed
qed simp

section \<open>Compiled missions\<close>

lemma schedule_ok_ordered:
  assumes "schedule_ok its ordered phase_of num"
  shows "distinct ordered" "set ordered = {..<length its}" "length ordered = length its"
proof -
  from assms have m: "mset ordered = mset [0..<length its]" by (simp only: schedule_ok_def)
  show "distinct ordered" by (simp only: mset_eq_imp_distinct_iff [OF m] distinct_upt)
  show "set ordered = {..<length its}" by (simp only: mset_eq_setD [OF m] set_upt atLeast0LessThan)
  show "length ordered = length its" by (simp only: mset_eq_length [OF m] length_upt minus_nat.diff_0)
qed

lemma analyze_mission_ok: "analyze_mission p = Inr m \<Longrightarrow> items_ok [] (am_items m)"
  by (auto simp: analyze_mission_def and_then_Inr_iff simp del: analyze_block.simps
      dest!: analyze_block_ok)

text \<open>
  What \<open>compile\<close> did: an execution order of the analyzed items, the phase of each, and the lowered
  step at each position.
\<close>

definition compiled_from :: "analyzed_item list \<Rightarrow> nat list \<Rightarrow> nat list \<Rightarrow> mission_ir \<Rightarrow> bool" where
  "compiled_from its ordered phase_of ir \<longleftrightarrow>
     items_ok [] its \<and> schedule_ok its ordered phase_of (length (ir_phases ir)) \<and>
     list_all2 (\<lambda>i st. lower_item (its ! i) = Inr st) ordered (ir_steps ir) \<and>
     concat (map range_indices (ir_phases ir)) = [0..<length (ir_steps ir)] \<and>
     (\<forall>k<length (ir_phases ir). \<forall>p\<in>set (range_indices (ir_phases ir ! k)). phase_of ! (ordered ! p) = k) \<and>
     (\<forall>r\<in>set (ir_phases ir). range_start r \<le> range_end r \<and> range_end r \<le> length (ir_steps ir)) \<and>
     total_call_bound (ir_steps ir) \<le> default_max_calls"

lemma finish_phases_ok:
  assumes "lowering_ok q m s" "length (l_steps s) = m"
    and "num = (if m = 0 then 0 else l_cur_phase s + 1)" "m = 0 \<Longrightarrow> l_cur_phase s = 0"
  shows "length (finish_phases num s) = num \<and>
    concat (map range_indices (finish_phases num s)) = [0..<m] \<and>
    (\<forall>k<num. \<forall>p\<in>set (range_indices (finish_phases num s ! k)). q p = k) \<and>
    (\<forall>r\<in>set (finish_phases num s). range_start r \<le> range_end r \<and> range_end r \<le> m)"
  using assms
  by (auto simp: finish_phases_def Let_def lowering_ok_def range_indices_def upt_append nth_append
      less_Suc_eq)

lemma compile_compiled:
  assumes "compile p = Inr ir"
  shows "\<exists>am ordered phase_of. analyze_mission p = Inr am \<and>
    compiled_from (am_items am) ordered phase_of ir \<and> ir_emits ir = am_emits am \<and>
    ir_name ir = mission_name (mission p)"
proof -
  let ?init = "\<lambda>its. \<lparr>l_steps = [], l_phases = [], l_cur_phase = 0, l_phase_start = 0,
    l_slots = map Some its\<rparr>"
  from assms obtain am where am: "analyze_mission p = Inr am"
    by (auto simp: compile_def and_then_Inr_iff)
  obtain ordered phase_of num where sched: "schedule (am_items am) = (ordered, phase_of, num)"
    by (cases "schedule (am_items am)") auto
  let ?its = "am_items am"
  from assms am sched obtain s where low: "lower_schedule phase_of 0 ordered (?init ?its) = Inr s"
    and bound: "total_call_bound (l_steps s) \<le> default_max_calls"
    and ir: "ir = \<lparr>ir_name = mission_name (mission p), ir_steps = l_steps s,
       ir_phases = finish_phases num s, ir_emits = am_emits am, ir_constraints = default_constraints\<rparr>"
    by (auto simp: compile_def result_simps)
  have items: "items_ok [] ?its" using am by (rule analyze_mission_ok)
  have ok: "schedule_ok ?its ordered phase_of num" using items sched by (rule schedule_schedule_ok)
  then have ord: "distinct ordered" "set ordered = {..<length ?its}" "length ordered = length ?its"
    by (rule schedule_ok_ordered)+
  have steps: "lowering_ok (\<lambda>p. phase_of ! (ordered ! p)) (0 + length ordered) s \<and>
    l_cur_phase s = (if ordered = [] then l_cur_phase (?init ?its) else phase_of ! last ordered) \<and>
    (\<exists>sts. l_steps s = l_steps (?init ?its) @ sts \<and>
       list_all2 (\<lambda>i st. lower_item (?its ! i) = Inr st) ordered sts)"
    by (rule lower_schedule_ok [OF low])
      (use ok ord in \<open>auto simp: lowering_ok_def schedule_ok_def\<close>)
  then have len: "length (l_steps s) = length ordered" by (auto dest: list_all2_lengthD)
  have "length (finish_phases num s) = num \<and>
    concat (map range_indices (finish_phases num s)) = [0..<length ordered] \<and>
    (\<forall>k<num. \<forall>p\<in>set (range_indices (finish_phases num s ! k)). phase_of ! (ordered ! p) = k) \<and>
    (\<forall>r\<in>set (finish_phases num s). range_start r \<le> range_end r \<and> range_end r \<le> length ordered)"
    by (rule finish_phases_ok) (use steps len ok ord(3) in \<open>auto simp: schedule_ok_def\<close>)
  with am items ok steps len bound show ?thesis
    by (intro exI [of _ am] exI [of _ ordered] exI [of _ phase_of])
      (simp add: ir compiled_from_def)
qed

end
