(* ===== verification/EalCompile.thy ===== *)
theory EalCompile
  imports EalSchedule
begin

text \<open>
  The compiled mission against its source: every call statement is lowered once, with its target,
  arguments and options, loops are bounded and closed, and data flows forwards.
\<close>

section \<open>A small mission\<close>

text \<open>Two calls joined by a reference, an independent one, and an emit.\<close>

definition device_call :: "string \<Rightarrow> field list \<Rightarrow> call_expr" where
  "device_call f args =
     \<lparr>function_name = f, target_node = Some ''n1'', target_kind = DeviceKind,
      arguments = args, call_options = default_options\<rparr>"

definition demo_program :: eal_program where
  "demo_program =
     \<lparr>mission = \<lparr>mission_name = ''demo'', statements =
        [LetCall ''b'' (device_call ''fetch'' []),
         LetCall ''a'' (device_call ''score'' [Field ''x'' (VarRef ''b'')]),
         CallStmt (device_call ''audit'' []),
         EmitStmt \<lparr>emit_name = ''out'', emit_kind = ''text'', emit_value = VarRef ''a''\<rparr>]\<rparr>\<rparr>"

section \<open>Lowering one call\<close>

lemma set_btree_refs: "snd ` set (btree_insert k v m) \<subseteq> insert v (snd ` set m)"
  using set_btree_insert [of k v m] by fastforce

lemma lower_arguments_refs:
  "lower_arguments fs (sargs, refs) = Inr (sargs', refs') \<Longrightarrow>
     snd ` set refs' \<subseteq> snd ` set refs \<union> var_refs fs"
proof (induction fs arbitrary: sargs refs)
  case (Cons f fs)
  obtain k v where f: "f = Field k v" by (cases f)
  show ?case
  proof (cases "\<exists>x. v = VarRef x")
    case True
    then obtain x where v: "v = VarRef x" by blast
    with Cons.prems f have "lower_arguments fs (sargs, btree_insert k x refs) = Inr (sargs', refs')"
      by simp
    from Cons.IH [OF this] set_btree_refs [of k x refs] f v show ?thesis by auto
  next
    case False
    with Cons.prems f obtain j where
      "lower_arguments fs (json_insert k j sargs, refs) = Inr (sargs', refs')"
      by (cases v) (auto simp: result_simps)
    from Cons.IH [OF this] f False show ?thesis by (cases v) auto
  qed
qed simp

text \<open>What the interpreter may assume of the IR call made from a source call.\<close>

definition target_lowered :: "call_expr \<Rightarrow> ir_target \<Rightarrow> bool" where
  "target_lowered c t \<longleftrightarrow>
     (case target_kind c of
        AgentKind \<Rightarrow> \<exists>raw a. target_node c = Some raw \<and> agent_id_parse raw = Inr a \<and> t = IrAgent a
      | DeviceKind \<Rightarrow> \<exists>node. target_node c = Some node \<and> t = IrDevice node)"

definition call_lowered :: "call_expr \<Rightarrow> ir_call \<Rightarrow> bool" where
  "call_lowered c i \<longleftrightarrow>
     ability i = AbilityName (function_name c) \<and> target_lowered c (ir_target i) \<and>
     (\<exists>sargs. lower_arguments (arguments c) ([], []) = Inr (sargs, input_refs i) \<and>
        static_arguments i = JObject sargs) \<and>
     ir_timeout_seconds i = unwrap_or 0 (timeout_seconds (call_options c)) \<and>
     ir_max_retries i = unwrap_or 0 (max_retries (call_options c)) \<and>
     ir_on_failure i = lower_policy (on_failure (call_options c)) \<and>
     ir_optional i = optional (call_options c)"

lemma ability_name_parse_str: "ability_name_parse s = Inr a \<Longrightarrow> a = AbilityName s"
  by (auto simp: ability_name_parse_def result_simps)

lemma lower_call_Inr:
  assumes "lower_call s = Inr st"
  shows "\<exists>i. st = IrStepCall i \<and> call_lowered (an_call s) i \<and> output_binding i = an_binding s \<and>
    step_id i = an_step_id s \<and> snd ` set (input_refs i) \<subseteq> var_refs (arguments (an_call s))"
proof -
  from assms obtain sargs refs tgt ab where
    a: "lower_arguments (arguments (an_call s)) ([], []) = Inr (sargs, refs)"
    and t: "lower_target s = Inr tgt" and b: "ability_name_parse (function_name (an_call s)) = Inr ab"
    and st: "st = IrStepCall
             \<lparr>step_id = an_step_id s, step_name = an_step_id s, ability = ab, ir_target = tgt,
              static_arguments = JObject sargs, input_refs = refs, output_binding = an_binding s,
              ir_timeout_seconds = unwrap_or 0 (timeout_seconds (call_options (an_call s))),
              ir_max_retries = unwrap_or 0 (max_retries (call_options (an_call s))),
              ir_on_failure = lower_policy (on_failure (call_options (an_call s))),
              ir_optional = optional (call_options (an_call s)), content_type = ''application/json''\<rparr>"
    by (cases "ability_name_parse (function_name (an_call s))")
      (auto simp: lower_call_def Let_def and_then_Inr_iff)
  have "target_lowered (an_call s) tgt"
    using t by (auto simp: lower_target_def target_lowered_def split: target_kind.splits option.splits
        sum.splits)
  with lower_arguments_refs [OF a] a ability_name_parse_str [OF b] show ?thesis
    by (auto simp: st call_lowered_def)
qed

lemma lower_item_binding: "lower_item it = Inr st \<Longrightarrow> step_binding st = item_binding it"
  by (auto simp: lower_item_def item_binding_def dest!: lower_call_Inr split: analyzed_item.splits)

section \<open>Items and statements\<close>

definition is_emit :: "statement \<Rightarrow> bool" where
  "is_emit s \<longleftrightarrow> (case s of EmitStmt _ \<Rightarrow> True | _ \<Rightarrow> False)"

definition call_item :: "string option \<Rightarrow> call_expr \<Rightarrow> analyzed_item \<Rightarrow> bool" where
  "call_item b c it \<longleftrightarrow>
     (\<exists>st. it = AnCall st \<and> an_binding st = b \<and> an_call st = c \<and>
        set (an_deps st) = var_refs (arguments c) \<and>
        (on_failure (call_options c) = Some Retry \<longrightarrow> unwrap_or 0 (max_retries (call_options c)) > 0) \<and>
        \<not> (optional (call_options c) \<and> on_failure (call_options c) = Some Abort))"

definition item_of :: "statement \<Rightarrow> analyzed_item \<Rightarrow> bool" where
  "item_of s it \<longleftrightarrow>
     (case s of
        LetCall b c \<Rightarrow> call_item (Some b) c it
      | CallStmt c \<Rightarrow> call_item None c it
      | LoopStmt l \<Rightarrow> (\<exists>lp anon anon'. it = AnLoop lp \<and> analyze_loop l anon = Inr (lp, anon'))
      | EmitStmt _ \<Rightarrow> False)"

lemma item_of_simps [simp]:
  "item_of (LetCall b c) it \<longleftrightarrow> call_item (Some b) c it"
  "item_of (CallStmt c) it \<longleftrightarrow> call_item None c it"
  "item_of (LoopStmt l) it \<longleftrightarrow> (\<exists>lp anon anon'. it = AnLoop lp \<and> analyze_loop l anon = Inr (lp, anon'))"
  "\<not> item_of (EmitStmt e) it"
  by (simp_all add: item_of_def)

lemma is_emit_simps [simp]:
  "\<not> is_emit (LetCall b c)" "\<not> is_emit (CallStmt c)" "\<not> is_emit (LoopStmt l)" "is_emit (EmitStmt e)"
  by (simp_all add: is_emit_def)

lemma analyze_call_item:
  "analyze_call b c syms anon idx = Inr (st, syms', anon') \<Longrightarrow> call_item b c (AnCall st)"
  by (auto simp: call_item_def dest!: analyze_call_Inr)

lemma analyze_statements_items:
  "analyze_statements allow_emit ss a = Inr a' \<Longrightarrow>
     \<exists>its. a_items a' = a_items a @ its \<and> list_all2 item_of (filter (\<lambda>s. \<not> is_emit s) ss) its"
proof (induction ss arbitrary: a)
  case (Cons s ss)
  show ?case
  proof (cases "is_emit s")
    case True
    with Cons.prems obtain ire where
      "analyze_statements allow_emit ss (a\<lparr>a_emits := a_emits a @ [ire]\<rparr>) = Inr a'"
      by (cases s) (auto simp: result_simps)
    from Cons.IH [OF this] True show ?thesis by simp
  next
    case False
    from Cons.prems False obtain it syms anon where it: "item_of s it" and
      "analyze_statements allow_emit ss
        (a\<lparr>a_symbols := syms, a_anon := anon, a_items := a_items a @ [it]\<rparr>) = Inr a'"
      by (cases s) (auto simp: and_then_Inr_iff dest: analyze_call_item, blast)
    from Cons.IH [OF this(2)] it False show ?thesis by (auto simp: list_all2_Cons1)
  qed
qed simp

lemma analyze_block_items:
  "analyze_block allow_emit ss anon seeds = Inr (m, anon') \<Longrightarrow>
     list_all2 item_of (filter (\<lambda>s. \<not> is_emit s) ss) (am_items m)"
  by (auto simp: and_then_Inr_iff dest!: analyze_statements_items)

lemma analyze_statements_no_emit:
  "analyze_statements False ss a = Inr a' \<Longrightarrow> \<forall>s\<in>set ss. \<not> is_emit s"
proof (induction ss arbitrary: a)
  case (Cons s ss)
  then show ?case by (cases s) (auto simp: result_simps)
qed simp

section \<open>Loops\<close>

lemma nested_loop_None: "nested_loop ss = None \<Longrightarrow> \<forall>s\<in>set ss. \<forall>l. s \<noteq> LoopStmt l"
  by (induction ss rule: nested_loop.induct) auto

definition call_step :: "statement \<Rightarrow> ir_step \<Rightarrow> bool" where
  "call_step s st \<longleftrightarrow>
     (\<exists>c i. st = IrStepCall i \<and> call_lowered c i \<and>
        (s = CallStmt c \<and> output_binding i = None \<or> s = LetCall (the (output_binding i)) c \<and> output_binding i \<noteq> None))"

lemma item_of_lower_call:
  assumes "item_of s it" "lower_item it = Inr st" "\<forall>l. s \<noteq> LoopStmt l"
  shows "call_step s st \<and> step_refs st \<subseteq> set (outer_deps it)"
proof -
  from assms(1,3) obtain sa where it: "it = AnCall sa"
    and deps: "set (an_deps sa) = var_refs (arguments (an_call sa))"
    and s: "s = (case an_binding sa of None \<Rightarrow> CallStmt (an_call sa) | Some n \<Rightarrow> LetCall n (an_call sa))"
    by (cases s) (auto simp: call_item_def)
  from assms(2) it have "lower_call sa = Inr st" by (simp add: lower_item_def)
  from lower_call_Inr [OF this] deps show ?thesis
    by (auto simp: it s call_step_def outer_deps_def split: option.splits)
qed

text \<open>References inside a block: each is exported by an earlier step of the block or by the seed.\<close>

definition refs_ok :: "string set \<Rightarrow> ir_step list \<Rightarrow> bool" where
  "refs_ok seeds sts \<longleftrightarrow>
     (\<forall>p<length sts. \<forall>b\<in>step_refs (sts ! p). b \<in> seeds \<or> (\<exists>q<p. step_binding (sts ! q) = Some b))"

definition exports :: "ir_step list \<Rightarrow> string set" where
  "exports sts = {b. Some b \<in> step_binding ` set sts}"

lemma exports_items:
  "list_all2 (\<lambda>it st. lower_item it = Inr st) its sts \<Longrightarrow> exports sts = set (item_bindings its)"
proof (induction rule: list_all2_induct)
  case (Cons it its st sts)
  have "exports (st # sts) = {b. step_binding st = Some b} \<union> exports sts"
    by (auto simp: exports_def)
  with Cons lower_item_binding [OF Cons.hyps(1)] show ?case by (auto split: option.splits)
qed (simp add: exports_def)

lemma refs_ok_items:
  assumes "items_ok seeds its" "list_all2 (\<lambda>it st. lower_item it = Inr st) its sts"
    and "\<And>p. p < length its \<Longrightarrow> step_refs (sts ! p) \<subseteq> set (outer_deps (its ! p))"
  shows "refs_ok (set seeds) sts"
  unfolding refs_ok_def
proof (intro allI impI ballI)
  fix p b
  assume p: "p < length sts" and b: "b \<in> step_refs (sts ! p)"
  from assms(2) have len: "length its = length sts" by (rule list_all2_lengthD)
  with assms p b have "b \<in> set seeds \<union> set (item_bindings (take p its))"
    by (fastforce simp: items_ok_def)
  then show "b \<in> set seeds \<or> (\<exists>q<p. step_binding (sts ! q) = Some b)"
  proof
    assume "b \<in> set (item_bindings (take p its))"
    then obtain q where q: "q < p" "q < length its" "item_binding (its ! q) = Some b"
      by (auto simp: set_item_bindings)
    from list_all2_nthD [OF assms(2) q(2)] lower_item_binding q(1,3) show ?thesis by auto
  qed simp
qed

text \<open>A loop of the IR against its source block.\<close>

definition loop_lowered :: "loop_block \<Rightarrow> ir_loop \<Rightarrow> bool" where
  "loop_lowered l il \<longleftrightarrow>
     irl_name il = loop_name l \<and> irl_max_iters il = max_iters l \<and>
     irl_result_binding il = map_option (\<lambda>n. n @ ''.result'') (loop_name l) \<and>
     1 \<le> irl_max_iters il \<and> irl_max_iters il \<le> 32 \<and> irl_body il \<noteq> [] \<and> irl_verify il \<noteq> [] \<and>
     list_all2 call_step (loop_body l) (irl_body il) \<and>
     list_all2 call_step (loop_verify l) (irl_verify il) \<and>
     refs_ok {} (irl_body il) \<and> refs_ok (exports (irl_body il)) (irl_verify il)"

lemma analyze_block_lowered:
  assumes "analyze_block False ss anon seeds = Inr (m, anon')"
    and "\<forall>s\<in>set ss. \<forall>l. s \<noteq> LoopStmt l"
    and "list_all2 (\<lambda>it st. lower_item it = Inr st) (am_items m) sts"
  shows "list_all2 call_step ss sts \<and> refs_ok (set seeds) sts"
proof -
  have "\<forall>s\<in>set ss. \<not> is_emit s"
    using assms(1) by (auto simp: and_then_Inr_iff dest!: analyze_statements_no_emit)
  then have items: "list_all2 item_of ss (am_items m)"
    using analyze_block_items [OF assms(1)] by (simp add: filter_id_conv)
  have len: "length ss = length sts" "length ss = length (am_items m)"
    using list_all2_lengthD [OF items] list_all2_lengthD [OF assms(3)] by simp_all
  have step: "call_step (ss ! p) (sts ! p) \<and> step_refs (sts ! p) \<subseteq> set (outer_deps (am_items m ! p))"
    if p: "p < length ss" for p
    by (rule item_of_lower_call)
      (use p len list_all2_nthD [OF items] list_all2_nthD [OF assms(3)] assms(2) in auto)
  have "list_all2 call_step ss sts" using step len by (simp add: list_all2_conv_all_nth)
  moreover have "refs_ok (set seeds) sts"
    using step len by (intro refs_ok_items [OF analyze_block_ok [OF assms(1)] assms(3)]) simp
  ultimately show ?thesis ..
qed

lemma analyze_loop_lowered:
  assumes "analyze_loop l anon = Inr (lp, anon')" "lower_item (AnLoop lp) = Inr st"
  shows "\<exists>il. st = IrStepLoop il \<and> loop_lowered l il"
proof -
  obtain nm iters body verify where l: "l = LoopBlock nm iters body verify" by (cases l)
  from assms(1) obtain bm vm anon1 anon2 bir vir where
    chk: "check_loop l = Inr ()"
    and b: "analyze_block False body anon [] = Inr (bm, anon1)"
    and v: "analyze_block False verify anon1 (item_bindings (am_items bm)) = Inr (vm, anon2)"
    and bir: "list_all2 (\<lambda>it st. lower_item it = Inr st) (am_items bm) bir"
    and vir: "list_all2 (\<lambda>it st. lower_item it = Inr st) (am_items vm) vir"
    and lp: "lp = \<lparr>al_name = nm, al_max_iters = iters, al_body = bir, al_verify = vir,
           al_result_binding = map_option (\<lambda>n. n @ ''.result'') nm\<rparr>"
    unfolding l by (auto simp: result_simps simp del: analyze_block.simps)
  from chk have c: "1 \<le> iters" "iters \<le> 32" "body \<noteq> []" "verify \<noteq> []"
    "nested_loop (body @ verify) = None"
    by (auto simp: l check_loop_def Let_def result_simps split: option.splits)
  have "\<forall>s\<in>set body. \<forall>l. s \<noteq> LoopStmt l" "\<forall>s\<in>set verify. \<forall>l. s \<noteq> LoopStmt l"
    using nested_loop_None [OF c(5)] by auto
  note blocks = analyze_block_lowered [OF b this(1) bir] analyze_block_lowered [OF v this(2) vir]
  from c blocks exports_items [OF bir] assms(2) show ?thesis
    by (auto simp: lower_item_def lp l loop_lowered_def)
qed

section \<open>The whole mission\<close>

text \<open>A top-level step made from a top-level statement.\<close>

definition step_of :: "statement \<Rightarrow> ir_step \<Rightarrow> bool" where
  "step_of s st \<longleftrightarrow>
     (case s of
        LoopStmt l \<Rightarrow> (\<exists>il. st = IrStepLoop il \<and> loop_lowered l il)
      | _ \<Rightarrow> call_step s st)"

lemma item_of_lower:
  assumes "item_of s it" "lower_item it = Inr st"
  shows "step_of s st \<and> step_refs st \<subseteq> set (outer_deps it)"
proof (cases "\<exists>l. s = LoopStmt l")
  case True
  with assms analyze_loop_lowered show ?thesis by (fastforce simp: step_of_def)
next
  case False
  with item_of_lower_call [OF assms] show ?thesis
    by (cases s) (auto simp: step_of_def)
qed

definition mission_statements :: "eal_program \<Rightarrow> statement list" where
  "mission_statements p = filter (\<lambda>s. \<not> is_emit s) (statements (mission p))"

lemma analyze_mission_items:
  "analyze_mission p = Inr m \<Longrightarrow> list_all2 item_of (mission_statements p) (am_items m)"
  by (auto simp: analyze_mission_def mission_statements_def and_then_Inr_iff
      simp del: analyze_block.simps dest!: analyze_block_items)

lemma map_nth_mset:
  assumes "mset is = mset [0..<length xs]"
  shows "mset (map (\<lambda>i. xs ! i) is) = mset xs"
  by (metis assms map_nth mset_map)

lemma compile_steps_of:
  assumes "compile p = Inr ir"
  shows "\<exists>ss. mset ss = mset (mission_statements p) \<and> list_all2 step_of ss (ir_steps ir)"
proof -
  from compile_compiled [OF assms] obtain am ordered phase_of where
    am: "analyze_mission p = Inr am" and c: "compiled_from (am_items am) ordered phase_of ir" by blast
  let ?ss = "mission_statements p"
  from analyze_mission_items [OF am] have items: "list_all2 item_of ?ss (am_items am)" .
  from c have sched: "schedule_ok (am_items am) ordered phase_of (length (ir_phases ir))"
    and low: "list_all2 (\<lambda>i st. lower_item (am_items am ! i) = Inr st) ordered (ir_steps ir)"
    by (simp_all add: compiled_from_def)
  have len: "length (am_items am) = length ?ss" using list_all2_lengthD [OF items] by simp
  have "mset (map (\<lambda>i. ?ss ! i) ordered) = mset ?ss"
    using sched by (intro map_nth_mset) (simp only: schedule_ok_def len)
  moreover have "list_all2 step_of (map (\<lambda>i. ?ss ! i) ordered) (ir_steps ir)"
    unfolding list.rel_map
  proof (rule list.rel_mono_strong [OF low])
    fix i st
    assume "i \<in> set ordered" "lower_item (am_items am ! i) = Inr st"
    with schedule_ok_ordered(2) [OF sched] list_all2_nthD2 [OF items] item_of_lower
    show "step_of (?ss ! i) st" by blast
  qed
  ultimately show ?thesis by blast
qed

lemma compile_step_positions:
  assumes "compile p = Inr ir"
  shows "\<exists>its ordered phase_of. compiled_from its ordered phase_of ir \<and>
    (\<forall>q<length (ir_steps ir). ordered ! q < length its \<and> lower_item (its ! (ordered ! q)) = Inr (ir_steps ir ! q) \<and>
       step_refs (ir_steps ir ! q) \<subseteq> set (outer_deps (its ! (ordered ! q))))"
proof -
  from compile_compiled [OF assms] obtain am ordered phase_of where
    am: "analyze_mission p = Inr am" and c: "compiled_from (am_items am) ordered phase_of ir" by blast
  from analyze_mission_items [OF am] have items: "list_all2 item_of (mission_statements p) (am_items am)" .
  from c have sched: "schedule_ok (am_items am) ordered phase_of (length (ir_phases ir))"
    and low: "list_all2 (\<lambda>i st. lower_item (am_items am ! i) = Inr st) ordered (ir_steps ir)"
    by (simp_all add: compiled_from_def)
  have "ordered ! q < length (am_items am) \<and> lower_item (am_items am ! (ordered ! q)) = Inr (ir_steps ir ! q) \<and>
     step_refs (ir_steps ir ! q) \<subseteq> set (outer_deps (am_items am ! (ordered ! q)))"
    if q: "q < length (ir_steps ir)" for q
  proof -
    from q list_all2_lengthD [OF low] have "ordered ! q \<in> set ordered" by simp
    then have i: "ordered ! q < length (am_items am)" using schedule_ok_ordered(2) [OF sched] by blast
    with list_all2_nthD2 [OF items] list_all2_nthD2 [OF low q] item_of_lower show ?thesis by blast
  qed
  with c show ?thesis by blast
qed

text \<open>The position of the step that exports a binding, and the phase it runs in.\<close>

lemma concat_ranges:
  assumes "concat (map range_indices rs) = [0..<n]" "p < n"
  shows "\<exists>k<length rs. p \<in> set (range_indices (rs ! k))"
proof -
  from assms have "p \<in> set (concat (map range_indices rs))" by simp
  then obtain r where "r \<in> set rs" "p \<in> set (range_indices r)" by auto
  then show ?thesis by (metis in_set_conv_nth)
qed

lemma compiled_phase_order:
  assumes "compile p = Inr ir" "k < length (ir_phases ir)" "i \<in> set (range_indices (ir_phases ir ! k))"
    and "b \<in> step_refs (ir_steps ir ! i)"
  shows "\<exists>k'<k. \<exists>j\<in>set (range_indices (ir_phases ir ! k')). step_binding (ir_steps ir ! j) = Some b"
proof -
  from compile_step_positions [OF assms(1)] obtain its ordered phase_of where
    c: "compiled_from its ordered phase_of ir"
    and pos: "\<And>q. q < length (ir_steps ir) \<Longrightarrow> ordered ! q < length its \<and>
       lower_item (its ! (ordered ! q)) = Inr (ir_steps ir ! q) \<and>
       step_refs (ir_steps ir ! q) \<subseteq> set (outer_deps (its ! (ordered ! q)))" by blast
  from c have sched: "schedule_ok its ordered phase_of (length (ir_phases ir))"
    and cat: "concat (map range_indices (ir_phases ir)) = [0..<length (ir_steps ir)]"
    and ph: "\<And>k p. k < length (ir_phases ir) \<Longrightarrow> p \<in> set (range_indices (ir_phases ir ! k)) \<Longrightarrow>
       phase_of ! (ordered ! p) = k"
    and len: "length ordered = length (ir_steps ir)"
    by (auto simp: compiled_from_def dest: list_all2_lengthD)
  have i: "i < length (ir_steps ir)"
    using assms(2,3) by (metis UN_I atLeastLessThan_iff cat nth_mem set_concat set_map set_upt imageI)
  with pos assms(4) sched obtain d where
    d: "d < length its" "item_binding (its ! d) = Some b" "phase_of ! d < phase_of ! (ordered ! i)"
    unfolding schedule_ok_def by blast
  then obtain j where j: "j < length ordered" "ordered ! j = d"
    using schedule_ok_ordered(2) [OF sched] by (metis in_set_conv_nth lessThan_iff)
  then obtain k' where k': "k' < length (ir_phases ir)" "j \<in> set (range_indices (ir_phases ir ! k'))"
    using concat_ranges [OF cat] len by auto
  with ph [OF k'] ph [OF assms(2,3)] d(3) j(2) have "k' < k" by simp
  with k' pos [of j] j d(2) len lower_item_binding show ?thesis by (metis (no_types))
qed

lemma compiled_bindings_distinct:
  assumes "compile p = Inr ir" "i < length (ir_steps ir)" "j < length (ir_steps ir)"
    and "step_binding (ir_steps ir ! i) = Some b" "step_binding (ir_steps ir ! j) = Some b"
  shows "i = j"
proof -
  from compile_step_positions [OF assms(1)] obtain its ordered phase_of where
    c: "compiled_from its ordered phase_of ir"
    and pos: "\<And>q. q < length (ir_steps ir) \<Longrightarrow> ordered ! q < length its \<and>
       lower_item (its ! (ordered ! q)) = Inr (ir_steps ir ! q)" by blast
  from c have sched: "schedule_ok its ordered phase_of (length (ir_phases ir))"
    and dist: "distinct (item_bindings its)" and len: "length ordered = length (ir_steps ir)"
    by (auto simp: compiled_from_def items_ok_def dest: list_all2_lengthD)
  have "ordered ! i = ordered ! j"
    by (rule item_bindings_unique [OF dist])
      (use pos [of i] pos [of j] assms lower_item_binding in auto)
  with schedule_ok_ordered(1) [OF sched] assms(2,3) len show ?thesis
    by (simp add: nth_eq_iff_index_eq)
qed

lemma distinct_map_filterI:
  "(\<And>i j b. i < length xs \<Longrightarrow> j < length xs \<Longrightarrow> f (xs ! i) = Some b \<Longrightarrow> f (xs ! j) = Some b \<Longrightarrow> i = j) \<Longrightarrow>
     distinct (List.map_filter f xs)"
proof (induction xs)
  case (Cons x xs)
  have "distinct (List.map_filter f xs)"
    by (rule Cons.IH) (use Cons.prems [of "Suc i" "Suc j" for i j] in auto)
  moreover have "b \<notin> set (List.map_filter f xs)" if "f x = Some b" for b
    using Cons.prems [of 0 "Suc j" b for j] that by (auto simp: set_map_filter in_set_conv_nth)
  ultimately show ?case by (auto simp: List.map_filter_simps split: option.splits)
qed (simp add: List.map_filter_simps)

lemma range_index_bound:
  assumes "concat (map range_indices rs) = [0..<n]" "k < length rs" "i \<in> set (range_indices (rs ! k))"
  shows "i < n"
proof -
  from assms(2,3) have "i \<in> set (concat (map range_indices rs))" by (auto intro!: bexI [of _ "rs ! k"])
  with assms(1) show ?thesis by simp
qed

lemma compiled_not_same_phase:
  assumes "compile p = Inr ir" "k < length (ir_phases ir)" "i \<in> set (range_indices (ir_phases ir ! k))"
    and "b \<in> step_refs (ir_steps ir ! i)"
  shows "\<forall>j\<in>set (range_indices (ir_phases ir ! k)). step_binding (ir_steps ir ! j) \<noteq> Some b"
proof (intro ballI notI)
  fix j
  assume j: "j \<in> set (range_indices (ir_phases ir ! k))" "step_binding (ir_steps ir ! j) = Some b"
  from compiled_phase_order [OF assms] obtain k' j' where k': "k' < k"
    and j': "j' \<in> set (range_indices (ir_phases ir ! k'))" "step_binding (ir_steps ir ! j') = Some b"
    by blast
  from compile_compiled [OF assms(1)] obtain its ordered phase_of where
    c: "compiled_from its ordered phase_of ir" by blast
  then have cat: "concat (map range_indices (ir_phases ir)) = [0..<length (ir_steps ir)]"
    and ph: "\<And>k p. k < length (ir_phases ir) \<Longrightarrow> p \<in> set (range_indices (ir_phases ir ! k)) \<Longrightarrow>
       phase_of ! (ordered ! p) = k"
    by (simp_all add: compiled_from_def)
  from k' assms(2) have kl: "k' < length (ir_phases ir)" by simp
  have "j = j'"
    by (rule compiled_bindings_distinct [OF assms(1) _ _ j(2) j'(2)])
      (rule range_index_bound [OF cat assms(2) j(1)], rule range_index_bound [OF cat kl j'(1)])
  with ph [OF assms(2) j(1)] ph [OF kl j'(1)] k' show False by simp
qed

section \<open>Errors the planner cannot raise\<close>

text \<open>
  The checks behind these errors are defensive: analysis has already excluded the input that
  would trip them.
\<close>

definition internal :: "planner_error \<Rightarrow> bool" where
  "internal e \<longleftrightarrow>
     (case e of
        CycleInvolving _ _ \<Rightarrow> True
      | DfsOutOfFuel \<Rightarrow> True
      | SlotAlreadyTaken _ \<Rightarrow> True
      | InternalVarRef _ \<Rightarrow> True
      | VerifyNotCall _ \<Rightarrow> True
      | _ \<Rightarrow> False)"

lemma internal_simps [simp]:
  "\<not> internal (DuplicateBinding b)" "\<not> internal (DuplicateLoopResult b)"
  "\<not> internal (EmitNotTopLevel b)" "\<not> internal (UndefinedVariable a b)"
  "\<not> internal (EmitUndefinedVariable a b)" "\<not> internal (RetryWithoutRetries b)"
  "\<not> internal (OptionalAbortConflict b)" "\<not> internal (MaxItersTooSmall b)"
  "\<not> internal (MaxItersTooLarge b)" "\<not> internal (EmptyLoopBody b)" "\<not> internal (EmptyLoopVerify b)"
  "\<not> internal (NestedLoop b i)" "\<not> internal (NestedVarRef b)" "\<not> internal (MissingAgentTarget b)"
  "\<not> internal (InvalidAgentTarget a b x)" "\<not> internal (MissingDeviceTarget b)"
  "\<not> internal (InvalidAbilityName a b x)" "\<not> internal (CallBoundExceeded a m n)"
  by (simp_all add: internal_def)

lemma field_value_to_json_error:
  "field_value_to_json v = Inl e \<Longrightarrow> (\<forall>x. v \<noteq> VarRef x) \<Longrightarrow> \<not> internal e"
  "fields_to_json fs m = Inl e \<Longrightarrow> \<not> internal e"
proof (induction v and fs m arbitrary: e and e rule: field_value_to_json_fields_to_json.induct)
  case (8 key val fs m)
  show ?case
  proof (cases "\<exists>x. val = VarRef x")
    case True
    with "8.prems" show ?thesis by auto
  next
    case False
    then have nv: "\<not> (case val of VarRef _ \<Rightarrow> True | _ \<Rightarrow> False)" by (cases val) auto
    with "8.prems" have "field_value_to_json val = Inl e \<or>
        (\<exists>j. field_value_to_json val = Inr j \<and> fields_to_json fs (json_insert key j m) = Inl e)"
      by (simp add: and_then_Inl_iff del: field_value_to_json.simps)
    with "8.IH"(1) [OF nv] "8.IH"(2) [OF nv] False show ?thesis by blast
  qed
qed (auto simp: result_simps)

lemma lower_arguments_error: "lower_arguments fs acc = Inl e \<Longrightarrow> \<not> internal e"
proof (induction fs acc rule: lower_arguments.induct)
  case (2 key val fs sargs refs)
  then show ?case
    by (cases val) (auto simp: and_then_Inl_iff dest: field_value_to_json_error)
qed simp

lemma lower_target_error: "lower_target s = Inl e \<Longrightarrow> \<not> internal e"
  by (auto simp: lower_target_def split: target_kind.splits option.splits sum.splits)

lemma lower_call_error: "lower_call s = Inl e \<Longrightarrow> \<not> internal e"
  by (cases "ability_name_parse (function_name (an_call s))")
    (auto simp: lower_call_def Let_def and_then_Inl_iff dest: lower_arguments_error lower_target_error)

lemma lower_item_error: "lower_item it = Inl e \<Longrightarrow> \<not> internal e"
  by (auto simp: lower_item_def dest: lower_call_error split: analyzed_item.splits)

lemma collect_deps_error: "collect_deps sid syms fs deps = Inl e \<Longrightarrow> \<not> internal e"
proof (induction sid syms fs deps rule: collect_deps.induct)
  case (2 sid syms key val fs deps)
  then show ?case by (cases val) (auto simp: result_simps)
qed simp

lemma analyze_call_error: "analyze_call b c syms anon k = Inl e \<Longrightarrow> \<not> internal e"
  by (auto simp: analyze_call_def Let_def result_simps dest: collect_deps_error
      split: option.splits if_splits)

lemma analyze_emit_error: "analyze_emit em syms = Inl e \<Longrightarrow> \<not> internal e"
  by (cases "emit_value em")
    (auto simp: analyze_emit_def emit_value_to_ir_def result_simps dest: field_value_to_json_error)

lemma check_loop_error: "check_loop l = Inl e \<Longrightarrow> \<not> internal e"
  by (auto simp: check_loop_def Let_def result_simps split: option.splits)

lemma try_map_Inl: "try_map f xs = Inl e \<Longrightarrow> \<exists>x\<in>set xs. f x = Inl e"
  by (induction xs) (auto simp: result_simps)

lemma last_is_call_items:
  assumes "list_all2 item_of ss its" "ss \<noteq> []" "\<forall>s\<in>set ss. \<forall>l. s \<noteq> LoopStmt l"
  shows "last_is_call its"
proof -
  from assms(1,2) have ne: "its \<noteq> []" and len: "length ss = length its"
    by (auto dest: list_all2_lengthD)
  have "item_of (last ss) (last its)"
    using list_all2_nthD [OF assms(1), of "length ss - 1"] assms(2) ne len by (simp add: last_conv_nth)
  moreover have "\<forall>l. last ss \<noteq> LoopStmt l" using assms(2,3) by simp
  ultimately show ?thesis
    using ne by (cases "last ss") (auto simp: last_is_call_def call_item_def)
qed

lemma analyze_error:
  "analyze_statements allow_emit ss a = Inl e \<Longrightarrow> \<not> internal e"
  "analyze_block allow_emit ss anon seeds = Inl e \<Longrightarrow> \<not> internal e"
  "analyze_loop l anon = Inl e \<Longrightarrow> \<not> internal e"
proof (induction allow_emit ss a and allow_emit ss anon seeds and l anon
    arbitrary: e and e and e rule: analyze_statements_analyze_block_analyze_loop.induct)
  case (4 allow_emit l ss a)
  show ?case
  proof (cases "analyze_loop l (a_anon a)")
    case (Inl e')
    with 4 show ?thesis by simp
  next
    case (Inr r)
    obtain lp anon where r: "r = (lp, anon)" by fastforce
    with Inr "4.prems" "4.IH"(2) [OF Inr r [symmetric]] show ?thesis
      by (cases "al_result_binding lp") (auto simp: result_simps)
  qed
next
  case (6 allow_emit ss anon seeds)
  let ?a = "\<lparr>a_symbols = seed_symbols 0 seeds Map.empty, a_anon = anon, a_items = [], a_emits = []\<rparr>"
  have "analysis_ok seeds ?a" by (simp add: analysis_ok_def dom_seed_symbols)
  then have "analyze_statements allow_emit ss ?a = Inr a' \<Longrightarrow> detect_cycles (a_items a') = Inr ()" for a'
    by (intro detect_cycles_ok [of seeds]) (auto dest: analyze_statements_ok simp: analysis_ok_def)
  with 6 show ?case by (auto simp: result_simps)
next
  case (7 nm iters body verify anon)
  show ?case
  proof (cases "check_loop (LoopBlock nm iters body verify)")
    case (Inl e')
    with "7.prems" show ?thesis by (auto dest: check_loop_error)
  next
    case chk: (Inr u)
    then have c: "verify \<noteq> []" "\<forall>s\<in>set verify. \<forall>l. s \<noteq> LoopStmt l"
      by (auto simp: check_loop_def Let_def result_simps dest!: nested_loop_None split: option.splits)
    have last: "last_is_call (am_items vm)" if "analyze_block False verify x y = Inr (vm, z)" for x y vm z
    proof -
      have "\<forall>s\<in>set verify. \<not> is_emit s"
        using that by (auto simp: and_then_Inr_iff dest!: analyze_statements_no_emit)
      with analyze_block_items [OF that] c show ?thesis
        by (intro last_is_call_items [of verify]) (simp_all add: filter_id_conv)
    qed
    from "7.prems" chk show ?thesis
      by (auto simp: and_then_Inl_iff ensure_Inl_iff last simp del: analyze_block.simps
          dest!: try_map_Inl dest: lower_item_error 7(1) 7(2))
  qed
qed (auto simp: result_simps dest: analyze_call_error analyze_emit_error split: option.splits)

lemma compile_error_not_internal:
  assumes "compile p = Inl e"
  shows "\<not> internal e"
proof (cases "analyze_mission p")
  case (Inl e')
  with assms show ?thesis
    by (auto simp: compile_def analyze_mission_def and_then_Inl_iff and_then_Inr_iff
        simp del: analyze_block.simps dest: analyze_error(2))
next
  case (Inr am)
  obtain ordered phase_of num where sched: "schedule (am_items am) = (ordered, phase_of, num)"
    by (cases "schedule (am_items am)") auto
  have ok: "schedule_ok (am_items am) ordered phase_of num"
    using analyze_mission_ok [OF Inr] sched by (rule schedule_schedule_ok)
  have "\<not> internal e'" if "lower_schedule phase_of 0 ordered
      \<lparr>l_steps = [], l_phases = [], l_cur_phase = 0, l_phase_start = 0,
       l_slots = map Some (am_items am)\<rparr> = Inl e'" for e'
    using lower_schedule_error [OF that, of "am_items am"] schedule_ok_ordered [OF ok] lower_item_error
    by auto
  with assms Inr sched show ?thesis
    by (auto simp: compile_def result_simps)
qed

section \<open>Properties\<close>

text \<open>The concrete missions of the witnesses.\<close>

lemma demo_compiles: "compile demo_program = Inr (projr (compile demo_program))"
proof -
  have "\<not> isl (compile demo_program)" by code_simp
  then show ?thesis by simp
qed

text \<open>The phase ranges of a compiled mission tile its step list: no gap, no overlap, nothing left
  over.\<close>

theorem phases_partition_steps:
  assumes "compile p = Inr ir"
  shows "concat (map range_indices (ir_phases ir)) = [0..<length (ir_steps ir)]"
  using compile_compiled [OF assms] by (auto simp: compiled_from_def)

theorem phases_partition_steps_witness:
  "concat (map range_indices (ir_phases (projr (compile demo_program)))) =
     [0..<length (ir_steps (projr (compile demo_program)))]"
  by (rule phases_partition_steps [OF demo_compiles])

text \<open>C1: Data flows forwards: every binding a step of phase \<open>k\<close> reads is exported by a step of a
  strictly earlier phase, and by no step of phase \<open>k\<close> itself, so the calls of one phase may run in
  any order.\<close>

theorem phases_respect_data_flow:
  assumes "compile p = Inr ir" and "k < length (ir_phases ir)"
    and "i \<in> set (range_indices (ir_phases ir ! k))" and "b \<in> step_refs (ir_steps ir ! i)"
  shows "(\<exists>k'<k. \<exists>j\<in>set (range_indices (ir_phases ir ! k')). step_binding (ir_steps ir ! j) = Some b) \<and>
    (\<forall>j\<in>set (range_indices (ir_phases ir ! k)). step_binding (ir_steps ir ! j) \<noteq> Some b)"
  using compiled_phase_order [OF assms] compiled_not_same_phase [OF assms] by blast

theorem phases_respect_data_flow_witness:
  "\<exists>j\<in>set (range_indices (ir_phases (projr (compile demo_program)) ! 0)).
     step_binding (ir_steps (projr (compile demo_program)) ! j) = Some ''b''"
proof -
  have "1 < length (ir_phases (projr (compile demo_program))) \<and>
      2 \<in> set (range_indices (ir_phases (projr (compile demo_program)) ! 1)) \<and>
      ''b'' \<in> step_refs (ir_steps (projr (compile demo_program)) ! 2)" by code_simp
  with phases_respect_data_flow [OF demo_compiles, of 1 2 "''b''"] show ?thesis by auto
qed

text \<open>Bindings are single-assignment: no two steps of a compiled mission export the same name.\<close>

theorem bindings_single_assignment:
  assumes "compile p = Inr ir"
  shows "distinct (List.map_filter step_binding (ir_steps ir))"
  using compiled_bindings_distinct [OF assms] by (rule distinct_map_filterI)

theorem bindings_single_assignment_witness:
  "distinct (List.map_filter step_binding (ir_steps (projr (compile demo_program))))"
  by (rule bindings_single_assignment [OF demo_compiles])

text \<open>C15: Compilation keeps the program: up to the execution order, the steps of the mission are the
  non-emit statements of the source, each lowered once with its target, arguments and options; loops
  keep their blocks, are bounded by 1 to 32 iterations and read only bindings of their own scope.\<close>

theorem compile_preserves_statements:
  assumes "compile p = Inr ir"
  shows "\<exists>ss. mset ss = mset (mission_statements p) \<and> list_all2 step_of ss (ir_steps ir)"
  using assms by (rule compile_steps_of)

theorem compile_preserves_statements_witness:
  "\<exists>ss. mset ss = mset (mission_statements demo_program) \<and>
     list_all2 step_of ss (ir_steps (projr (compile demo_program)))"
  by (rule compile_preserves_statements [OF demo_compiles])

text \<open>The defensive errors of the planner are unreachable: no program makes it report a dependency
  cycle, an item lowered twice, a variable reference in static data or a verify block that does not
  end in a call. In particular the depth-first search always finishes within its bound.\<close>

theorem compile_never_internal_error:
  "compile p \<noteq> Inl (CycleInvolving a b) \<and> compile p \<noteq> Inl DfsOutOfFuel \<and>
   compile p \<noteq> Inl (SlotAlreadyTaken i) \<and> compile p \<noteq> Inl (InternalVarRef v) \<and>
   compile p \<noteq> Inl (VerifyNotCall l)"
  using compile_error_not_internal [of p] by (auto simp: internal_def)

end
