(* ===== verification/EalDemo.thy ===== *)
theory EalDemo
  imports EalRetry
begin

text \<open>
  A concrete runtime for evaluating runs: a dispatcher that answers from a script, one answer per
  call, with a monotonic clock that stands still and a JSON codec for a handful of values. The workers of a batch finish in reverse order.
\<close>

definition demo_anchor :: "string \<Rightarrow> receipt_anchor" where
  "demo_anchor ura =
     \<lparr>ra_invocation_ura = ura, ra_receipt_ura = ura @ ''/receipt'', ra_receipt_hash = ura\<rparr>"

definition demo_record :: "string \<Rightarrow> receipt_anchor list \<Rightarrow> child_invocation_record" where
  "demo_record ura deps =
     \<lparr>ci_envelope =
        \<lparr>env_caller_ura = ''caller'', env_callee_ura = ''callee'', env_ability = ''demo'',
         env_subject_ura = ''subject'', env_nonce = ''n'', env_causal_context = CausalNone\<rparr>,
      ci_invocation_ura = ura, ci_terminal_receipt = demo_anchor ura, ci_dependency_receipts = deps\<rparr>"

definition done_object :: "bool \<Rightarrow> json" where
  "done_object b = JObject [(''done'', JBool b)]"

definition demo_codec :: "(json \<times> string) list" where
  "demo_codec =
     [(JNull, ''null''), (JBool True, ''true''), (JBool False, ''false''),
      (done_object True, ''{done:true}''), (done_object False, ''{done:false}'')]"

definition demo_decode :: "string \<Rightarrow> string + json" where
  "demo_decode s =
     (case map_of (map (\<lambda>(v, t). (t, v)) demo_codec) s of
        Some v \<Rightarrow> Inr v | None \<Rightarrow> Inl ''expected value'')"

definition demo_encode :: "json \<Rightarrow> string + string" where
  "demo_encode v =
     (case map_of demo_codec v of Some t \<Rightarrow> Inr t | None \<Rightarrow> Inl ''unsupported value'')"

type_synonym script = "nat \<Rightarrow> eal_error + json"

definition scripted_runtime :: "script \<Rightarrow> nat runtime" where
  "scripted_runtime script =
     \<lparr>rt_dispatch = (\<lambda>run target abil args timeout deps n.
        (case script n of
           Inl e \<Rightarrow> Inl e
         | Inr v \<Rightarrow> Inr \<lparr>do_value = v, do_invocation = demo_record [char_of n] deps\<rparr>, n + 1)),
      rt_concurrency = Parallel, rt_clone = (\<lambda>n. (Inr (), n)), rt_schedule = (\<lambda>xs n. rev xs),
      rt_instant = (\<lambda>n. (0, n)), rt_unix_ms = (\<lambda>n. (n, n)), rt_sleep = (\<lambda>ms n. n),
      rt_sha256 = (\<lambda>s. s), rt_from_slice = demo_decode, rt_to_vec = demo_encode,
      rt_display_json = (\<lambda>v. ''value''), rt_utf8_lossy = (\<lambda>s. s)\<rparr>"

definition demo_run :: "nat option \<Rightarrow> run_context" where
  "demo_run deadline = \<lparr>rc_tenant = ''default'', rc_trace_id = ''t1'', rc_deadline = deadline\<rparr>"

definition demo_call :: "string \<Rightarrow> (string \<times> string) list \<Rightarrow> string option \<Rightarrow> ir_failure_policy \<Rightarrow> ir_call" where
  "demo_call sid refs binding policy =
     \<lparr>step_id = sid, step_name = sid, ability = AbilityName ''chat'', ir_target = IrDevice ''n1'',
      static_arguments = JObject [(''mode'', JBool True)], input_refs = refs, output_binding = binding,
      ir_timeout_seconds = 0, ir_max_retries = 2, ir_on_failure = policy, ir_optional = False,
      content_type = ''application/json''\<rparr>"

text \<open>A dispatcher that is down for the first calls and then answers.\<close>

definition recovering :: "nat \<Rightarrow> script" where
  "recovering k n = (if n < k then Inl (Unavailable ''down'') else Inr (done_object True))"

text \<open>Evaluating a zero duration without unfolding the 64-bit bound.\<close>

lemma millis_u64_code [code]:
  "millis_u64 ns = (if ns = 0 then 0 else min u64_max (ns div 1000000))"
  by (simp add: millis_u64_def)

end
