(* ===== verification/EalBatch.thy ===== *)
theory EalBatch
  imports EalRun EalCompile EalDemo "HOL-Library.Multiset"
begin

text \<open>
  Batches and bounds: a batch answers every step it was given exactly once and in step order, in
  whatever order the workers finish; the number of results a run records is bounded by the static
  call bound of its steps.
\<close>

section \<open>Every index is answered once\<close>

text \<open>The thread pool runs each task it was given exactly once.\<close>

definition fair_schedule :: "('w, 'z) runtime_scheme \<Rightarrow> bool" where
  "fair_schedule rt \<longleftrightarrow> (\<forall>xs w. mset (rt_schedule rt xs w) = mset xs)"

lemma fair_scripted: "fair_schedule (scripted_runtime script)"
  by (simp add: fair_schedule_def scripted_runtime_def)

lemma prepare_tasks_indices:
  "prepare_tasks rt rq is col tasks w = (col', tasks', w') \<Longrightarrow>
     mset (map fst col') + mset (map fst tasks') = mset (map fst col) + mset (map fst tasks) + mset is"
proof (induction "is" arbitrary: col tasks w)
  case (Cons i "is")
  show ?case
  proof (cases "resolve_arguments rt (br_steps rq ! i) (br_captured rq) (br_skipped_bindings rq)")
    case (Inl e)
    obtain r w1 where "unresolved_result rt e w = (r, w1)" by fastforce
    with Cons.prems Inl have "prepare_tasks rt rq is (col @ [(i, r)]) tasks w1 = (col', tasks', w')" by simp
    from Cons.IH [OF this] show ?thesis by simp
  next
    case (Inr args)
    obtain cl w1 where c: "rt_clone rt w = (cl, w1)" by fastforce
    show ?thesis
    proof (cases cl)
      case (Inl e)
      obtain now w2 where "rt_unix_ms rt w1 = (now, w2)" by fastforce
      with Cons.prems Inr c Inl obtain r where
        "prepare_tasks rt rq is (col @ [(i, r)]) tasks w2 = (col', tasks', w')" by auto
      from Cons.IH [OF this] show ?thesis by simp
    next
      case r: (Inr u)
      with Cons.prems Inr c obtain x where
        "prepare_tasks rt rq is col (tasks @ [(i, x)]) w1 = (col', tasks', w')" by auto
      from Cons.IH [OF this] show ?thesis by simp
    qed
  qed
qed simp

lemma run_tasks_indices:
  "run_tasks rt rq tasks order col w = (res, w') \<Longrightarrow> set order \<subseteq> fst ` set tasks \<Longrightarrow>
     mset (map fst res) = mset (map fst col) + mset order"
proof (induction order arbitrary: col w)
  case (Cons i order)
  from Cons.prems(2) have "map_of tasks i \<noteq> None" by (simp add: map_of_eq_None_iff)
  then obtain x where "map_of tasks i = Some x" by blast
  then obtain args deps where t: "map_of tasks i = Some (args, deps)" by (cases x) auto
  obtain r w1 where "execute_step_with_retry rt (br_run rq) (br_steps rq ! i) args deps w = (r, w1)"
    by fastforce
  with Cons.prems t have "run_tasks rt rq tasks order (col @ [(i, r)]) w1 = (res, w')" by simp
  from Cons.IH [OF this] Cons.prems(2) show ?case by simp
qed simp

lemma run_sequential_indices: "run_sequential rt rq is w = (res, w') \<Longrightarrow> map fst res = is"
  by (induction "is" arbitrary: w res w') (auto simp: Let_def split: prod.splits)

lemma map_fst_sort_key: "map fst (sort_key fst xs) = sort (map fst xs)" for xs :: "(nat \<times> 'a) list"
  by (rule properties_for_sort [symmetric]) simp_all

lemma dispatch_batch_indices:
  assumes "dispatch_batch rt rq is par w = (res, w')" "fair_schedule rt" "sorted is"
  shows "map fst res = is"
proof (cases "par \<and> length is > 1")
  case True
  obtain col tasks w1 where p: "prepare_tasks rt rq is [] [] w = (col, tasks, w1)" by (metis prod_cases3)
  obtain rs w2 where r: "run_tasks rt rq tasks (rt_schedule rt (map fst tasks) w1) col w1 = (rs, w2)"
    by fastforce
  have order: "mset (rt_schedule rt (map fst tasks) w1) = mset (map fst tasks)"
    using assms(2) by (simp add: fair_schedule_def)
  then have "set (rt_schedule rt (map fst tasks) w1) \<subseteq> fst ` set tasks"
    by (metis list.set_map mset_eq_setD order_refl)
  from run_tasks_indices [OF r this] order prepare_tasks_indices [OF p]
  have "mset (map fst rs) = mset is" by simp
  then have "sort (map fst rs) = is" using assms(3) by (metis properties_for_sort)
  moreover from assms(1) True p r have "res = sort_key fst rs"
    by (auto simp: dispatch_batch_def Let_def split: if_splits)
  ultimately show ?thesis by (simp add: map_fst_sort_key)
next
  case False
  with assms(1) show ?thesis
    by (auto simp: dispatch_batch_def dest: run_sequential_indices split: if_splits)
qed

section \<open>Counting results\<close>

lemma record_result_count [simp]:
  "ps_global_step (record_result call res t st) = Suc (ps_global_step st)"
  by (cases res) (simp_all add: record_result_def Let_def)

lemma process_batch_count:
  "process_batch rt steps phase_idx rs st w = (st', w') \<Longrightarrow> ps_global_step st' = ps_global_step st + length rs"
proof (induction rs arbitrary: st w)
  case (Cons r rs)
  obtain i res where r: "r = (i, res)" by fastforce
  obtain t w1 where "process_result rt steps phase_idx r st w = (record_result (steps ! i) res t st, w1)"
    using process_result_record [of rt steps phase_idx i res st w] r by blast
  with Cons show ?case by fastforce
qed simp

lemma length_filter_split: "length (filter P xs) + length (filter (\<lambda>x. \<not> P x) xs) = length xs"
  by (induction xs) auto

lemma execute_calls_count:
  assumes "execute_calls_phase_partition rt run steps phase_idx st w = (st', w')" "fair_schedule rt"
  shows "ps_global_step st' \<le> ps_global_step st + length steps"
proof (cases "steps = []")
  case False
  let ?par = "length steps > 1 \<and> rt_concurrency rt = Parallel"
  let ?req = "filter (\<lambda>i. \<not> ir_optional (steps ! i)) [0..<length steps]"
  let ?opt = "filter (\<lambda>i. ir_optional (steps ! i)) [0..<length steps]"
  obtain rs w1 where d: "dispatch_batch rt (batch_of run steps st) ?req ?par w = (rs, w1)" by fastforce
  obtain st2 w2 where p: "process_batch rt steps phase_idx rs st w1 = (st2, w2)" by fastforce
  obtain rs' w3 where d': "dispatch_batch rt (batch_of run steps st2) ?opt ?par w2 = (rs', w3)" by fastforce
  have "map fst rs = ?req" "map fst rs' = ?opt"
    using dispatch_batch_indices [OF d assms(2)] dispatch_batch_indices [OF d' assms(2)]
    by (simp_all add: sorted_filter [of id, simplified])
  then have len: "length rs = length ?req" "length rs' = length ?opt" by (metis length_map)+
  have sum: "length ?opt + length ?req = length steps"
    using length_filter_split [of "\<lambda>i. ir_optional (steps ! i)" "[0..<length steps]"] by simp
  from assms(1) False d p d' consider "st' = st2" | "process_batch rt steps phase_idx rs' st2 w3 = (st', w')"
    by (auto simp: execute_calls_phase_partition_def Let_def split: if_splits)
  then show ?thesis
    using process_batch_count [OF p] process_batch_count [of rt steps phase_idx rs' st2 w3 st' w'] len sum
    by cases auto
qed (use assms in \<open>simp add: execute_calls_phase_partition_def\<close>)

lemma process_in_scope_count:
  "process_in_scope rt steps phase_idx r st sc w = (st', sc', w') \<Longrightarrow>
     ps_global_step st' = Suc (ps_global_step st)"
  by (auto simp: process_in_scope_def enter_scope_def leave_scope_def simp del: process_batch.simps
      dest!: process_batch_count split: prod.splits)

lemma run_loop_block_count:
  "run_loop_block rt run steps phase_idx i st sc w = (ok, st', sc', w') \<Longrightarrow>
     ps_global_step st' \<le> ps_global_step st + (length steps - i)"
proof (induction "length steps - i" arbitrary: i st sc w)
  case 0
  then show ?case by (auto elim: run_loop_block_cases)
next
  case (Suc n)
  from Suc.prems show ?case
  proof (cases rule: run_loop_block_cases)
    case (unresolved e r w1)
    then show ?thesis by (auto dest!: process_in_scope_count)
  next
    case (step r sc1 w1 st2 sc2 w2)
    with Suc.hyps(2) have "ps_global_step st' \<le> ps_global_step st2 + (length steps - Suc i)"
      by (intro Suc.hyps(1) [OF _ step(5)]) simp
    with process_in_scope_count [OF step(4)] step(1) show ?thesis by simp
  qed simp
qed

lemma loop_iterations_count:
  "loop_iterations rt run rb body verify phase_idx n st w = (st', w') \<Longrightarrow>
     ps_global_step st' \<le> ps_global_step st + n * (length body + length verify)"
proof (induction n arbitrary: st w)
  case 0
  then show ?case by (auto simp: fail_loop_def)
next
  case (Suc n)
  obtain ok1 st1 sc1 w1 where b:
    "run_loop_block rt run body phase_idx 0 st (Map.empty, {}) w = (ok1, st1, sc1, w1)"
    by (metis prod_cases4)
  obtain ok2 st2 sc2 w2 where v: "run_loop_block rt run verify phase_idx 0 st1 sc1 w1 = (ok2, st2, sc2, w2)"
    by (metis prod_cases4)
  note c = run_loop_block_count [OF b] run_loop_block_count [OF v]
  have cont: "loop_iterations rt run rb body verify phase_idx n st2 w2 = (st', w') \<Longrightarrow> ?case"
    using c Suc.IH [of st2 w2] by simp
  from Suc.prems b v consider "ps_global_step st' \<in> {ps_global_step st, ps_global_step st1, ps_global_step st2}"
    | "loop_iterations rt run rb body verify phase_idx n st2 w2 = (st', w')"
    by (auto simp: fail_loop_def split: if_splits option.splits verify_done.splits)
  then show ?case using c cont by cases auto
qed

text \<open>The calls a step can make: the static call bound before it saturates.\<close>

fun call_budget :: "ir_step \<Rightarrow> nat" where
  "call_budget (IrStepCall c) = 1"
| "call_budget (IrStepLoop l) = irl_max_iters l * (length (irl_body l) + length (irl_verify l))"

fun partition_budget :: "phase_partition \<Rightarrow> nat" where
  "partition_budget (PCalls steps) = length steps"
| "partition_budget (PLoop l) = call_budget (IrStepLoop l)"

lemma length_walk_calls: "list_all is_call_step ss \<Longrightarrow> length (concat (map walk_calls ss)) = length ss"
proof (induction ss)
  case (Cons s ss)
  then show ?case by (cases s) auto
qed simp

lemma static_call_bound_budget:
  "executable_step s \<Longrightarrow> static_call_bound s = min u64_max (call_budget s)"
proof (cases s)
  case (IrStepLoop l)
  then show "executable_step s \<Longrightarrow> ?thesis" by (cases l) (simp add: length_walk_calls)
qed (simp add: u64_max_def)

lemma calls_from_partition_length: "calls_from_partition ss = Some cs \<Longrightarrow> length cs = length ss"
  by (induction ss arbitrary: cs rule: calls_from_partition.induct) auto

lemma split_phase_from_budget:
  "sum_list (map partition_budget (split_phase_from run ss)) = length run + sum_list (map call_budget ss)"
  by (induction run ss rule: split_phase_from.induct) auto

lemma split_phase_budget:
  "sum_list (map partition_budget (split_phase_steps ss)) = sum_list (map call_budget ss)"
  by (simp add: split_phase_steps_def split_phase_from_budget)

lemma execute_loop_count:
  assumes "execute_loop rt run lp phase_idx st w = (st', w')"
  shows "ps_global_step st' \<le> ps_global_step st + call_budget (IrStepLoop lp)"
proof (cases "\<exists>b v. calls_from_partition (irl_body lp) = Some b \<and> calls_from_partition (irl_verify lp) = Some v \<and> v \<noteq> []")
  case True
  then obtain b v where c: "calls_from_partition (irl_body lp) = Some b"
    "calls_from_partition (irl_verify lp) = Some v" "v \<noteq> []" by blast
  with assms have "loop_iterations rt run (irl_result_binding lp) b v phase_idx (irl_max_iters lp) st w = (st', w')"
    by (simp add: execute_loop_def)
  from loop_iterations_count [OF this] c show ?thesis by (simp add: calls_from_partition_length)
next
  case False
  with assms show ?thesis
    by (auto simp: execute_loop_def fail_loop_def panic_def split: option.splits if_splits)
qed

lemma execute_partition_count:
  assumes "execute_partition rt run phase_idx p st w = (st', w')" "fair_schedule rt"
  shows "ps_global_step st' \<le> ps_global_step st + partition_budget p"
proof (cases p)
  case (PCalls ss)
  with assms show ?thesis
    by (cases "calls_from_partition ss")
      (auto simp: execute_partition_def panic_def dest!: execute_calls_count calls_from_partition_length)
next
  case (PLoop lp)
  with assms(1) execute_loop_count show ?thesis by (simp add: execute_partition_def)
qed

lemma execute_partitions_count:
  "execute_partitions rt run phase_idx ps st w = (st', w') \<Longrightarrow> fair_schedule rt \<Longrightarrow>
     ps_global_step st' \<le> ps_global_step st + sum_list (map partition_budget ps)"
proof (induction ps arbitrary: st w)
  case (Cons p ps)
  obtain st1 w1 where p: "execute_partition rt run phase_idx p st w = (st1, w1)" by fastforce
  show ?case
  proof (cases "ps_aborted st")
    case False
    with Cons.prems p have "execute_partitions rt run phase_idx ps st1 w1 = (st', w')" by simp
    from Cons.IH [OF this Cons.prems(2)] execute_partition_count [OF p Cons.prems(2)] show ?thesis by simp
  qed (use Cons.prems in simp)
qed simp

lemma slice_range_indices:
  "range_in (length steps) r \<Longrightarrow>
     slice (range_start r) (range_end r) steps = Some (map (\<lambda>i. steps ! i) (range_indices r))"
  by (auto simp: slice_def range_in_def range_indices_def intro!: nth_equalityI)

lemma execute_phases_count:
  "execute_phases rt run steps phase_idx rs st w = (st', w') \<Longrightarrow> fair_schedule rt \<Longrightarrow>
     list_all (range_in (length steps)) rs \<Longrightarrow>
     ps_global_step st' \<le> ps_global_step st +
       sum_list (map (\<lambda>i. call_budget (steps ! i)) (concat (map range_indices rs)))"
proof (induction rs arbitrary: phase_idx st w)
  case (Cons r rs)
  then have r: "range_in (length steps) r" by simp
  define xs where "xs = map (\<lambda>i. steps ! i) (range_indices r)"
  have xs: "slice (range_start r) (range_end r) steps = Some xs" "xs = map (\<lambda>i. steps ! i) (range_indices r)"
    using r by (simp_all add: xs_def slice_range_indices)
  obtain st1 w1 where p: "execute_partitions rt run phase_idx (split_phase_steps xs) st w = (st1, w1)"
    by fastforce
  show ?case
  proof (cases "ps_aborted st")
    case False
    with Cons.prems xs(1) p have "execute_phases rt run steps (Suc phase_idx) rs st1 w1 = (st', w')" by simp
    from Cons.IH [OF this Cons.prems(2)] Cons.prems(3) execute_partitions_count [OF p Cons.prems(2)]
    show ?thesis by (simp add: split_phase_budget xs(2) comp_def)
  qed (use Cons.prems in simp)
qed simp

section \<open>Compiled missions\<close>

lemma call_step_is_call: "call_step s st \<Longrightarrow> is_call_step st"
  by (cases st; cases s) (auto simp: call_step_def)

lemma step_of_executable: "step_of s st \<Longrightarrow> executable_step st"
  by (cases st; cases s)
    (auto simp: step_of_def loop_lowered_def list_all2_conv_all_nth list_all_length call_step_is_call
      dest: call_step_is_call)

lemma compiled_executable: "compile p = Inr ir \<Longrightarrow> list_all executable_step (ir_steps ir)"
  using compile_steps_of by (fastforce simp: list_all_length list_all2_conv_all_nth intro: step_of_executable)

lemma compiled_ranges: "compile p = Inr ir \<Longrightarrow> list_all (range_in (length (ir_steps ir))) (ir_phases ir)"
  by (auto simp: compiled_from_def range_in_def list_all_iff dest!: compile_compiled)

lemma compiled_budget:
  assumes "compile p = Inr ir"
  shows "sum_list (map (\<lambda>i. call_budget (ir_steps ir ! i)) (concat (map range_indices (ir_phases ir)))) \<le> 256"
proof -
  from compile_compiled [OF assms] have
    cat: "concat (map range_indices (ir_phases ir)) = [0..<length (ir_steps ir)]"
    and b: "total_call_bound (ir_steps ir) \<le> 256"
    by (auto simp: compiled_from_def default_max_calls_def)
  have "call_budget s \<le> static_call_bound s" if s: "s \<in> set (ir_steps ir)" for s
  proof -
    have "static_call_bound s \<le> 256"
      using b s member_le_sum_list [of "static_call_bound s" "map static_call_bound (ir_steps ir)"]
      by (simp add: total_call_bound_def)
    moreover have "executable_step s" using compiled_executable [OF assms] s by (simp add: list_all_iff)
    ultimately show ?thesis by (auto simp: static_call_bound_budget u64_max_def min_def split: if_splits)
  qed
  then have "sum_list (map call_budget (ir_steps ir)) \<le> total_call_bound (ir_steps ir)"
    unfolding total_call_bound_def by (rule sum_list_mono)
  moreover have "map (\<lambda>i. call_budget (ir_steps ir ! i)) [0..<length (ir_steps ir)] = map call_budget (ir_steps ir)"
    by (rule nth_equalityI) simp_all
  ultimately show ?thesis using b unfolding cat by simp
qed

section \<open>Parallel and sequential batches\<close>

text \<open>
  With a world of one state the dispatcher answers every request the same way and the clocks stand
  still. The result of a step is then a function of the request alone.
\<close>

definition step_result :: "(unit, 'z) runtime_scheme \<Rightarrow> batch_request \<Rightarrow> nat \<Rightarrow> step_exec_result" where
  "step_result rt rq i =
     (case resolve_arguments rt (br_steps rq ! i) (br_captured rq) (br_skipped_bindings rq) of
        Inl e \<Rightarrow> fst (unresolved_result rt e ())
      | Inr args \<Rightarrow>
          fst (execute_step_with_retry rt (br_run rq) (br_steps rq ! i)
                 (substitute_receipt_graph args (br_receipt_graph rq))
                 (dependency_receipts_from_captured (br_steps rq ! i) (br_captured rq)) ()))"

definition task_of :: "(unit, 'z) runtime_scheme \<Rightarrow> batch_request \<Rightarrow> nat \<Rightarrow> task" where
  "task_of rt rq i =
     (substitute_receipt_graph
        (projr (resolve_arguments rt (br_steps rq ! i) (br_captured rq) (br_skipped_bindings rq)))
        (br_receipt_graph rq),
      dependency_receipts_from_captured (br_steps rq ! i) (br_captured rq))"

definition resolves :: "('w, 'z) runtime_scheme \<Rightarrow> batch_request \<Rightarrow> nat \<Rightarrow> bool" where
  "resolves rt rq i \<longleftrightarrow>
     \<not> isl (resolve_arguments rt (br_steps rq ! i) (br_captured rq) (br_skipped_bindings rq))"

lemma run_sequential_unit: "run_sequential rt rq is () = (map (\<lambda>i. (i, step_result rt rq i)) is, ())"
  by (induction "is") (auto simp: step_result_def Let_def split: prod.splits sum.splits)

lemma prepare_tasks_unit:
  assumes "rt_clone rt () = (Inr (), ())"
  shows "prepare_tasks rt rq is col tasks () =
    (col @ map (\<lambda>i. (i, step_result rt rq i)) (filter (\<lambda>i. \<not> resolves rt rq i) is),
     tasks @ map (\<lambda>i. (i, task_of rt rq i)) (filter (resolves rt rq) is), ())"
proof (induction "is" arbitrary: col tasks)
  case (Cons i "is")
  show ?case
  proof (cases "resolve_arguments rt (br_steps rq ! i) (br_captured rq) (br_skipped_bindings rq)")
    case (Inl e)
    then show ?thesis
      by (cases "unresolved_result rt e ()") (simp add: Cons.IH resolves_def step_result_def)
  next
    case (Inr args)
    then show ?thesis using assms by (simp add: Cons.IH resolves_def task_of_def)
  qed
qed simp

lemma run_tasks_unit:
  assumes "\<forall>i\<in>set order. map_of tasks i = Some (task_of rt rq i) \<and> resolves rt rq i"
  shows "run_tasks rt rq tasks order col () = (col @ map (\<lambda>i. (i, step_result rt rq i)) order, ())"
  using assms
proof (induction order arbitrary: col)
  case (Cons i order)
  from Cons.prems obtain args where
    "resolve_arguments rt (br_steps rq ! i) (br_captured rq) (br_skipped_bindings rq) = Inr args"
    by (cases "resolve_arguments rt (br_steps rq ! i) (br_captured rq) (br_skipped_bindings rq)")
      (auto simp: resolves_def)
  with Cons show ?case by (auto simp: task_of_def step_result_def split: prod.splits)
qed simp

lemma dispatch_batch_unit:
  assumes "fair_schedule rt" "rt_clone rt () = (Inr (), ())" "sorted is" "distinct is"
  shows "dispatch_batch rt rq is par () = (map (\<lambda>i. (i, step_result rt rq i)) is, ())"
proof (cases "par \<and> length is > 1")
  case False
  then show ?thesis by (auto simp: dispatch_batch_def run_sequential_unit)
next
  case True
  let ?f = "\<lambda>i. (i, step_result rt rq i)"
  let ?tasks = "map (\<lambda>i. (i, task_of rt rq i)) (filter (resolves rt rq) is)"
  let ?order = "rt_schedule rt (map fst ?tasks) ()"
  have ms: "mset ?order = mset (filter (resolves rt rq) is)"
    using assms(1) by (simp add: fair_schedule_def comp_def)
  then have set: "set ?order = set (filter (resolves rt rq) is)" by (rule mset_eq_setD)
  have "\<forall>i\<in>set ?order. map_of ?tasks i = Some (task_of rt rq i) \<and> resolves rt rq i"
    unfolding set by (auto simp: map_of_map_restrict)
  note run = run_tasks_unit [OF this]
  have "mset (map ?f (filter (\<lambda>i. \<not> resolves rt rq i) is) @ map ?f ?order) = mset (map ?f is)"
  proof -
    have "mset is = filter_mset (\<lambda>i. \<not> resolves rt rq i) (mset is) + filter_mset (resolves rt rq) (mset is)"
      using multiset_partition [of "mset is" "\<lambda>i. \<not> resolves rt rq i"] by simp
    then have "image_mset ?f (mset is) =
        image_mset ?f (filter_mset (\<lambda>i. \<not> resolves rt rq i) (mset is)) + image_mset ?f (mset ?order)"
      unfolding ms mset_filter by (metis image_mset_union)
    then show ?thesis by (simp only: mset_append mset_map mset_filter)
  qed
  then have "sort_key fst (map ?f (filter (\<lambda>i. \<not> resolves rt rq i) is) @ map ?f ?order) = map ?f is"
    using assms(3,4) by (intro sort_key_inj_key_eq) (auto simp: comp_def inj_on_def)
  with True run prepare_tasks_unit [OF assms(2), of rq "is" "[]" "[]"] show ?thesis
    by (auto simp: dispatch_batch_def)
qed

end
