(* ===== verification/EalStep.thy ===== *)
theory EalStep
  imports EalDemo
begin

text \<open>
  What one step of a mission guarantees (\<open>src/eal/interpreter/retry.rs\<close>): the retry loop and its
  history, the backoff, the deadline budget, argument resolution and the loop termination predicate.
\<close>

section \<open>The retry loop\<close>

text \<open>The world with the list of answers the dispatcher has given, and the runtime over it.\<close>

type_synonym 'w answered = "'w \<times> (eal_error + dispatch_outcome) list"

definition logging :: "('w, 'z) runtime_scheme \<Rightarrow> 'w answered runtime" where
  "logging rt =
     \<lparr>rt_dispatch = (\<lambda>run target ab args t deps (w, log).
        case rt_dispatch rt run target ab args t deps w of (r, w') \<Rightarrow> (r, w', log @ [r])),
      rt_concurrency = rt_concurrency rt,
      rt_clone = (\<lambda>(w, log). case rt_clone rt w of (r, w') \<Rightarrow> (r, w', log)),
      rt_schedule = (\<lambda>is (w, log). rt_schedule rt is w),
      rt_instant = (\<lambda>(w, log). case rt_instant rt w of (t, w') \<Rightarrow> (t, w', log)),
      rt_unix_ms = (\<lambda>(w, log). case rt_unix_ms rt w of (t, w') \<Rightarrow> (t, w', log)),
      rt_sleep = (\<lambda>ms (w, log). (rt_sleep rt ms w, log)),
      rt_sha256 = rt_sha256 rt, rt_from_slice = rt_from_slice rt, rt_to_vec = rt_to_vec rt,
      rt_display_json = rt_display_json rt, rt_utf8_lossy = rt_utf8_lossy rt\<rparr>"

text \<open>The retries a step has after its first attempt.\<close>

definition retries :: "ir_call \<Rightarrow> nat" where
  "retries step = (if ir_on_failure step = IrRetry then nat (ir_max_retries step) else 0)"

text \<open>The history lists these errors: numbered from one, in order, each with the backoff slept before the next
  attempt, and none after the last.\<close>

definition history_of :: "('w, 'z) runtime_scheme \<Rightarrow> ir_call \<Rightarrow> eal_error list \<Rightarrow> retry_record list \<Rightarrow> bool" where
  "history_of rt step errors hist \<longleftrightarrow>
     map rr_error hist = map eal_error_display errors \<and> map rr_attempt hist = [1..<length errors + 1] \<and>
     list_all (\<lambda>r. rr_backoff_ms r =
       (if rr_attempt r \<le> retries step then compute_backoff rt (rr_attempt r) (step_id step) else 0)) hist"

text \<open>The result of a step for the answers its attempts got. \<open>errors\<close> are those of the attempts that failed.\<close>

definition retry_result ::
  "('w, 'z) runtime_scheme \<Rightarrow> run_context \<Rightarrow> ir_call \<Rightarrow> (eal_error + dispatch_outcome) list \<Rightarrow> step_exec_result \<Rightarrow> bool" where
  "retry_result rt run step answers r \<longleftrightarrow>
     (\<exists>errors. length errors \<le> 1 + retries step \<and>
        (case r of
           ExecOk bytes _ _ _ _ k hist invocation \<Rightarrow>
             k = length errors \<and> k \<le> retries step \<and> history_of rt step errors hist \<and>
             (\<exists>outcome. answers = map Inl errors @ [Inr outcome] \<and> rt_to_vec rt (do_value outcome) = Inr bytes \<and>
                invocation = do_invocation outcome)
         | ExecError msg _ _ k hist \<Rightarrow>
             history_of rt step errors hist \<and>
             (answers = map Inl errors \<and> length errors = 1 + retries step \<and> k = retries step \<and>
                msg = eal_error_display (last errors) \<or>
              answers = map Inl errors \<and> length errors \<le> retries step \<and> k = length errors \<and> rc_deadline run \<noteq> None \<and>
                msg = ''deadline_exceeded: mission run timeout expired before dispatch'' \<or>
              k = length errors \<and> k \<le> retries step \<and>
                (\<exists>outcome e. answers = map Inl errors @ [Inr outcome] \<and> rt_to_vec rt (do_value outcome) = Inl e \<and>
                   msg = ''internal_error: step result not JSON-serializable: '' @ e))
         | ExecSkipped _ _ \<Rightarrow> False))"

lemma max_attempts_retries: "max_attempts step = 1 + retries step"
  by (simp add: max_attempts_def retries_def)

lemma max_attempts_pos: "0 < max_attempts step"
  by (simp add: max_attempts_def)

lemma history_of_snoc:
  "history_of rt step errors hist \<Longrightarrow>
     history_of rt step (errors @ [e]) (hist @ [\<lparr>rr_attempt = length errors + 1, rr_elapsed_ms = el,
       rr_backoff_ms = (if length errors + 1 < max_attempts step
          then compute_backoff rt (length errors + 1) (step_id step) else 0), rr_error = eal_error_display e\<rparr>])"
  by (simp add: history_of_def max_attempts_retries)

lemma logging_simps:
  "rt_sha256 (logging rt) = rt_sha256 rt" "rt_to_vec (logging rt) = rt_to_vec rt"
  "compute_backoff (logging rt) = compute_backoff rt"
  "snd (backoff_sleep (logging rt) ms (w, log)) = log" "snd (snd (rt_instant (logging rt) (w, log))) = log"
  "snd (snd (rt_unix_ms (logging rt) (w, log))) = log" "snd (snd (elapsed_ms (logging rt) t0 (w, log))) = log"
  "snd (snd (effective_dispatch_timeout_ms (logging rt) t d (w, log))) = log"
  "snd (snd (rt_dispatch (logging rt) run target ab args timeout deps (w, log))) =
     log @ [fst (rt_dispatch (logging rt) run target ab args timeout deps (w, log))]"
proof -
  have fold: "snd (fold (rt_sleep (logging rt)) xs (w, log)) = log" for xs
    by (induction xs arbitrary: w) (simp_all add: logging_def)
  show "snd (backoff_sleep (logging rt) ms (w, log)) = log"
    by (simp add: backoff_sleep_def fold) (simp add: logging_def)
qed (simp_all add: logging_def fun_eq_iff compute_backoff_def backoff_jitter_def elapsed_ms_def
    effective_dispatch_timeout_ms_def Let_def split: prod.split option.split)

lemma effective_timeout_error:
  "effective_dispatch_timeout_ms rt t d w = (Inl e, w') \<Longrightarrow>
     d \<noteq> None \<and> eal_error_display e = ''deadline_exceeded: mission run timeout expired before dispatch''"
  by (auto simp: effective_dispatch_timeout_ms_def eal_error_display_def error_code_def error_message_def Let_def
      split: option.splits prod.splits if_splits)

lemma attempt_loop_result:
  "attempt_loop (logging rt) run step args deps t0 started n (length errors) hist (w, map Inl errors) = (r, w', answers) \<Longrightarrow>
     history_of rt step errors hist \<Longrightarrow> n + length errors = 1 + retries step \<Longrightarrow> 0 < n \<Longrightarrow>
     retry_result rt run step answers r"
proof (induction n arbitrary: errors hist w)
  case (Suc n)
  let ?rt = "logging rt" and ?k = "length errors" and ?log = "map Inl errors :: (eal_error + dispatch_outcome) list"
  let ?w0 = "if 0 < ?k then backoff_sleep ?rt (compute_backoff ?rt ?k (step_id step)) (w, ?log) else (w, ?log)"
  obtain v0 where w0: "?w0 = (v0, ?log)"
    using logging_simps(4) [of rt "compute_backoff ?rt ?k (step_id step)" w ?log] by (metis prod.collapse snd_conv)
  obtain start v1 where w1: "rt_instant ?rt (v0, ?log) = (start, v1, ?log)"
    using logging_simps(5) [of rt v0 ?log] by (metis prod.collapse)
  obtain b v2 where w2:
    "effective_dispatch_timeout_ms ?rt (step_timeout_ms step) (rc_deadline run) (v1, ?log) = (b, v2, ?log)"
    using logging_simps(8) [of rt "step_timeout_ms step" "rc_deadline run" v1 ?log] by (metis prod.collapse)
  note run = Suc.prems(1) [unfolded attempt_loop.simps w0 Let_def w1 w2 prod.case]
  from Suc.prems(3) have k: "?k \<le> retries step" by simp
  show ?case
  proof (cases b)
    case (Inl e)
    have "snd (snd (elapsed_ms ?rt t0 (v2, ?log))) = ?log" by (rule logging_simps)
    with run Inl have a: "answers = ?log" and r: "\<exists>el. r = ExecError (eal_error_display e) el started ?k hist"
      by (auto split: prod.splits)
    from effective_timeout_error [OF w2 [unfolded Inl]] r a Suc.prems(2) k show ?thesis
      unfolding retry_result_def by (intro exI [of _ errors]) auto
  next
    case (Inr timeout)
    obtain res v3 where w3:
      "rt_dispatch ?rt run (ir_target step) (ability step) args timeout deps (v2, ?log) = (res, v3, ?log @ [res])"
      using logging_simps(9) [of rt run "ir_target step" "ability step" args timeout deps v2 ?log]
      by (metis prod.collapse)
    note run = run [unfolded Inr sum.case w3 prod.case]
    have same: "snd (snd (elapsed_ms ?rt t (v, log))) = log" "snd (snd (rt_unix_ms ?rt (v, log))) = log" for t v log
      by (rule logging_simps)+
    show ?thesis
    proof (cases res)
      case ok: (Inr out)
      show ?thesis
      proof (cases "rt_to_vec rt (do_value out)")
        case (Inl e)
        obtain el v4 where "elapsed_ms ?rt t0 (v3, ?log @ [res]) = (el, v4, ?log @ [res])"
          using same(1) [of t0 v3 "?log @ [res]"] by (metis prod.collapse)
        with run ok Inl have "answers = ?log @ [Inr out]" and
          "r = ExecError (eal_error_display (Internal (''step result not JSON-serializable: '' @ e))) el started ?k hist"
          by (auto simp: logging_simps(2))
        with Suc.prems(2) k Inl show ?thesis
          unfolding retry_result_def
          by (intro exI [of _ errors]) (auto simp: eal_error_display_def error_code_def error_message_def)
      next
        case (Inr bytes)
        obtain completed v4 where w4: "rt_unix_ms ?rt (v3, ?log @ [res]) = (completed, v4, ?log @ [res])"
          using same(2) [of v3 "?log @ [res]"] by (metis prod.collapse)
        obtain el v5 where w5: "elapsed_ms ?rt t0 (v4, ?log @ [res]) = (el, v5, ?log @ [res])"
          using same(1) [of t0 v4 "?log @ [res]"] by (metis prod.collapse)
        from run ok Inr w4 w5 have "answers = ?log @ [Inr out]" and
          "\<exists>sha. r = ExecOk bytes sha el started completed ?k hist (do_invocation out)"
          by (auto simp: logging_simps(2))
        with Suc.prems(2) k Inr show ?thesis unfolding retry_result_def by (intro exI [of _ errors]) auto
      qed
    next
      case err: (Inl e)
      obtain el v4 where w4: "elapsed_ms ?rt start (v3, ?log @ [res]) = (el, v4, ?log @ [res])"
        using same(1) [of start v3 "?log @ [res]"] by (metis prod.collapse)
      let ?hist = "hist @ [\<lparr>rr_attempt = ?k + 1, rr_elapsed_ms = el,
        rr_backoff_ms = (if ?k + 1 < max_attempts step then compute_backoff rt (?k + 1) (step_id step) else 0),
        rr_error = eal_error_display e\<rparr>]"
      have h: "history_of rt step (errors @ [e]) ?hist" using Suc.prems(2) by (rule history_of_snoc)
      show ?thesis
      proof (cases "?k + 1 \<ge> max_attempts step")
        case True
        with k have last: "?k = retries step" by (simp add: max_attempts_retries)
        obtain el' v5 where w5: "elapsed_ms ?rt t0 (v4, ?log @ [res]) = (el', v5, ?log @ [res])"
          using same(1) [of t0 v4 "?log @ [res]"] by (metis prod.collapse)
        from run err w4 w5 True have "answers = map Inl (errors @ [e])"
          "r = ExecError (eal_error_display e) el' started ?k ?hist"
          by (auto simp: logging_simps(3))
        with h last show ?thesis unfolding retry_result_def by (intro exI [of _ "errors @ [e]"]) auto
      next
        case False
        with run err w4 have
          "attempt_loop ?rt run step args deps t0 started n (length (errors @ [e])) ?hist (v4, map Inl (errors @ [e])) =
             (r, w', answers)" by (simp add: logging_simps(3))
        from Suc.IH [OF this h] False Suc.prems(3) show ?thesis by (simp add: max_attempts_retries)
      qed
    qed
  qed
qed simp

text \<open>C32: The retry loop keeps its contract. A step makes one attempt and, under the retry policy, at most
  \<open>max_retries\<close> more. It stops at the first answer that is no error; the history lists the errors of all failed attempts,
  the last one included, in order and with the backoff that followed each. A success returns the bytes and the
  invocation of that answer. An error is the last attempt's own after the last retry, a deadline that passed before the
  next attempt, or an answer that cannot be serialized.\<close>

theorem retry_contract:
  assumes "execute_step_with_retry (logging rt) run step args deps (w, []) = (r, w', answers)"
  shows "retry_result rt run step answers r"
proof -
  obtain started w1 where 1: "rt_unix_ms (logging rt) (w, []) = (started, w1, [])"
    using logging_simps(6) [of rt w "[]"] by (metis prod.collapse)
  obtain t0 w2 where 2: "rt_instant (logging rt) (w1, []) = (t0, w2, [])"
    using logging_simps(5) [of rt w1 "[]"] by (metis prod.collapse)
  from assms have "attempt_loop (logging rt) run step args deps t0 started (max_attempts step) (length []) [] (w2, map Inl []) =
      (r, w', answers)"
    by (simp add: execute_step_with_retry_def 1 2)
  then show ?thesis
    by (rule attempt_loop_result) (simp_all add: history_of_def max_attempts_retries)
qed

text \<open>Two failures and a success.\<close>

lemma scripted_sleep: "backoff_sleep (logging (scripted_runtime script)) ms w = w"
proof -
  have "rt_sleep (logging (scripted_runtime script)) ms w = w" for ms w
    by (cases w) (simp add: logging_def scripted_runtime_def)
  then have "fold (rt_sleep (logging (scripted_runtime script))) xs w = w" for xs
    by (induction xs) simp_all
  then show ?thesis by (simp add: backoff_sleep_def logging_def scripted_runtime_def split: prod.split)
qed

lemma scripted_logging:
  "rt_dispatch (logging (scripted_runtime script)) run target ab args t deps (n, log) =
     (let r = (case script n of Inl e \<Rightarrow> Inl e
        | Inr v \<Rightarrow> Inr \<lparr>do_value = v, do_invocation = demo_record [char_of n] deps\<rparr>) in (r, n + 1, log @ [r]))"
  "rt_instant (logging (scripted_runtime script)) w = (0, w)"
  "rt_unix_ms (logging (scripted_runtime script)) (n, log) = (n, n, log)"
  "rt_to_vec (logging (scripted_runtime script)) = demo_encode"
  "elapsed_ms (logging (scripted_runtime script)) t0 w = (0, w)"
proof -
  show i: "rt_instant (logging (scripted_runtime script)) w = (0, w)"
    by (cases w) (simp add: logging_def scripted_runtime_def)
  show "elapsed_ms (logging (scripted_runtime script)) t0 w = (0, w)"
    by (simp add: elapsed_ms_def i millis_u64_def)
qed (simp_all add: logging_def scripted_runtime_def Let_def)

theorem retry_contract_witness:
  "\<exists>r w' answers. execute_step_with_retry (logging (scripted_runtime (recovering 2))) (demo_run None)
       (demo_call ''s'' [] None IrRetry) JNull [] (0, []) = (r, w', answers) \<and> length answers = 3 \<and>
     retry_result (scripted_runtime (recovering 2)) (demo_run None) (demo_call ''s'' [] None IrRetry) answers r"
proof -
  let ?run = "execute_step_with_retry (logging (scripted_runtime (recovering 2))) (demo_run None)
       (demo_call ''s'' [] None IrRetry) JNull [] (0, [])"
  have three: "max_attempts (demo_call ''s'' [] None IrRetry) = Suc (Suc (Suc 0))"
    by (simp add: max_attempts_def demo_call_def)
  have n: "length (snd (snd ?run)) = 3"
    unfolding execute_step_with_retry_def
    by (simp add: three scripted_sleep scripted_logging recovering_def effective_dispatch_timeout_ms_def demo_run_def
        demo_encode_def demo_codec_def Let_def)
  have run: "?run = (fst ?run, fst (snd ?run), snd (snd ?run))" by simp
  show ?thesis by (intro exI conjI) (rule run, rule n, rule retry_contract [OF run])
qed

section \<open>Backoff\<close>

text \<open>The backoff before attempt \<open>k\<close> doubles from one second up to the thirty-second cap, plus a
  jitter of at most half a second that depends on the step and the attempt only; this is exact for the
  first 55 attempts, where the 64-bit product does not overflow.\<close>

theorem backoff_doubles:
  assumes "1 \<le> k" "k \<le> 55"
  shows "compute_backoff rt k sid = min (1000 * 2 ^ (k - 1)) 30000 + backoff_jitter rt k sid \<and>
    backoff_jitter rt k sid \<le> 500"
  using backoff_base_exact [OF assms] backoff_jitter_le [of rt k sid]
  by (simp add: compute_backoff_def RETRY_MAX_MS_def)

theorem backoff_doubles_witness:
  "compute_backoff (scripted_runtime (recovering 0)) 3 ''s'' =
     4000 + backoff_jitter (scripted_runtime (recovering 0)) 3 ''s''"
  using backoff_doubles [of 3 "scripted_runtime (recovering 0)" "''s''"] by simp

text \<open>From attempt 62 on the 64-bit product is zero and the backoff collapses to the jitter: a step
  with that many retries hammers its target with pauses of at most half a second instead of the
  thirty-second cap.\<close>

theorem backoff_collapses:
  assumes "62 \<le> k"
  shows "compute_backoff rt k sid = backoff_jitter rt k sid \<and> compute_backoff rt k sid \<le> 500"
  using backoff_base_collapse [OF assms] backoff_jitter_le [of rt k sid]
  by (simp add: compute_backoff_def)

theorem backoff_collapses_witness:
  "compute_backoff (scripted_runtime (recovering 0)) 62 ''s'' \<le> 500"
  using backoff_collapses [of 62 "scripted_runtime (recovering 0)" "''s''"] by simp

section \<open>The deadline\<close>

text \<open>The budget of a dispatch under a run deadline: none is granted at or after the deadline, and
  the timeout granted before it is positive, never exceeds the step's own timeout and never reaches
  past the deadline, up to the one-millisecond minimum.\<close>

theorem deadline_budget:
  assumes "effective_dispatch_timeout_ms rt step_timeout (Some d) w = (budget, w')"
    and "fst (rt_instant rt w) = now"
  shows "case budget of
      Inl e \<Rightarrow> d \<le> now \<and> error_code e = ''deadline_exceeded''
    | Inr t \<Rightarrow> now < d \<and>
        (\<exists>ms. t = Some ms \<and> (ms = 1 \<or> now + ms * 1000000 \<le> d) \<and>
           (\<forall>s. step_timeout = Some s \<longrightarrow> ms \<le> s) \<and> (step_timeout \<noteq> Some 0 \<longrightarrow> 1 \<le> ms))"
proof -
  obtain w1 where c: "rt_instant rt w = (now, w1)" using assms(2) by (cases "rt_instant rt w") auto
  let ?rem = "max (millis_u64 (d - now)) 1"
  have rem: "?rem = 1 \<or> now + ?rem * 1000000 \<le> d" if "now < d"
  proof -
    have "millis_u64 (d - now) * 1000000 \<le> (d - now) div 1000000 * 1000000" by (simp add: millis_u64_def)
    also have "\<dots> \<le> d - now" by simp
    finally show ?thesis using that by (auto simp: max_def)
  qed
  have mono: "now + m * 1000000 \<le> d" if "m \<le> n" "now + n * 1000000 \<le> d" for m n
    using that by (meson add_left_mono le_trans mult_le_mono1)
  show ?thesis
  proof (cases "d \<le> now")
    case True
    with assms(1) c show ?thesis by (auto simp: effective_dispatch_timeout_ms_def error_code_def)
  next
    case False
    then have lt: "now < d" by simp
    show ?thesis
    proof (cases step_timeout)
      case None
      with assms(1) c lt rem [OF lt] show ?thesis
        by (auto simp: effective_dispatch_timeout_ms_def Let_def)
    next
      case (Some s)
      with assms(1) c lt have b: "budget = Inr (Some (min s ?rem))"
        by (auto simp: effective_dispatch_timeout_ms_def Let_def)
      have "min s ?rem = 1 \<or> now + min s ?rem * 1000000 \<le> d"
        using rem [OF lt] mono [of "min s ?rem" ?rem] lt by (cases "s = 0") (auto simp: min_def)
      with Some b lt show ?thesis by auto
    qed
  qed
qed

theorem deadline_budget_witness:
  "\<exists>ms. fst (effective_dispatch_timeout_ms (scripted_runtime (recovering 0)) (Some 7) (Some 5000000) 2) =
     Inr (Some ms) \<and> ms \<le> 7"
proof -
  have "fst (effective_dispatch_timeout_ms (scripted_runtime (recovering 0)) (Some 7) (Some 5000000) 2) =
      Inr (Some 5)"
    by (simp add: effective_dispatch_timeout_ms_def scripted_runtime_def millis_u64_def u64_max_def)
  with deadline_budget [where rt = "scripted_runtime (recovering 0)" and step_timeout = "Some 7" and
      d = 5000000 and w = 2, OF prod.collapse [symmetric] HOL.refl]
  show ?thesis by auto
qed

text \<open>Once the deadline has passed nothing is dispatched: the step fails with
  \<open>deadline_exceeded\<close> on its first attempt, and the run is the same with any other dispatcher.\<close>

theorem deadline_stops_dispatch:
  assumes "rc_deadline run = Some d" and "\<forall>w. d \<le> fst (rt_instant rt w)"
  shows "execute_step_with_retry (rt\<lparr>rt_dispatch := f\<rparr>) run step args deps w =
      execute_step_with_retry rt run step args deps w \<and>
    (\<exists>el started. fst (execute_step_with_retry rt run step args deps w) =
       ExecError ''deadline_exceeded: mission run timeout expired before dispatch'' el started 0 [])"
proof -
  obtain n where n: "max_attempts step = Suc n" using max_attempts_pos [of step] by (cases "max_attempts step") auto
  have e: "\<exists>w'. effective_dispatch_timeout_ms rt t (Some d) w =
      (Inl (DeadlineExceeded ''mission run timeout expired before dispatch''), w') \<and>
      effective_dispatch_timeout_ms (rt\<lparr>rt_dispatch := f\<rparr>) t (Some d) w =
      (Inl (DeadlineExceeded ''mission run timeout expired before dispatch''), w')" for t w
    using assms(2) [rule_format, of w] by (cases "rt_instant rt w") (auto simp: effective_dispatch_timeout_ms_def)
  obtain started w1 where w1: "rt_unix_ms rt w = (started, w1)" by fastforce
  obtain t0 w2 where w2: "rt_instant rt w1 = (t0, w2)" by fastforce
  obtain start w3 where w3: "rt_instant rt w2 = (start, w3)" by fastforce
  from e [of "step_timeout_ms step" w3] w1 w2 w3 assms(1) n show ?thesis
    by (auto simp: execute_step_with_retry_def elapsed_ms_def eal_error_display_def error_code_def
        error_message_def Let_def split: prod.splits)
qed

theorem deadline_stops_dispatch_witness:
  "\<exists>el started. fst (execute_step_with_retry (scripted_runtime (recovering 0)) (demo_run (Some 0))
      (demo_call ''s'' [] None IrRetry) JNull [] 3) =
     ExecError ''deadline_exceeded: mission run timeout expired before dispatch'' el started 0 []"
  using deadline_stops_dispatch [of "demo_run (Some 0)" 0 "scripted_runtime (recovering 0)"]
  by (simp add: demo_run_def)

section \<open>Argument resolution\<close>

definition decoded_ref :: "('w, 'z) runtime_scheme \<Rightarrow> (string \<rightharpoonup> captured_result) \<Rightarrow> string \<Rightarrow> json option" where
  "decoded_ref rt results b =
     (case results b of
        None \<Rightarrow> None
      | Some c \<Rightarrow> (case rt_from_slice rt (cap_value c) of Inl _ \<Rightarrow> None | Inr v \<Rightarrow> Some v))"

lemma resolve_refs_ok:
  "resolve_refs rt results skipped refs m0 = Inr m \<Longrightarrow> distinct (map fst refs) \<Longrightarrow>
     (\<forall>b\<in>snd ` set refs. b \<notin> skipped \<and> decoded_ref rt results b \<noteq> None) \<and>
     map_of m k = (case map_of refs k of Some b \<Rightarrow> decoded_ref rt results b | None \<Rightarrow> map_of m0 k)"
proof (induction refs arbitrary: m0)
  case (Cons r refs)
  obtain key b where r: "r = (key, b)" by fastforce
  with Cons.prems(1) obtain c v where c: "b \<notin> skipped" "results b = Some c"
    "rt_from_slice rt (cap_value c) = Inr v"
    and rec: "resolve_refs rt results skipped refs (json_insert key v m0) = Inr m"
    by (auto split: if_splits option.splits sum.splits)
  from Cons.prems(2) r have d: "distinct (map fst refs)" "map_of refs key = None"
    by (auto simp: map_of_eq_None_iff)
  from c have "decoded_ref rt results b = Some v" by (simp add: decoded_ref_def)
  with Cons.IH [OF rec d(1)] c d(2) r show ?case
    by (auto simp: update_conv' split: option.splits)
qed simp

text \<open>A reference that resolves, and the error a reference that does not is reported with: it names the reference.\<close>

definition usable_ref :: "('w, 'z) runtime_scheme \<Rightarrow> (string \<rightharpoonup> captured_result) \<Rightarrow> string set \<Rightarrow> string \<times> string \<Rightarrow> bool" where
  "usable_ref rt results skipped r \<longleftrightarrow> snd r \<notin> skipped \<and> decoded_ref rt results (snd r) \<noteq> None"

definition ref_error ::
  "('w, 'z) runtime_scheme \<Rightarrow> (string \<rightharpoonup> captured_result) \<Rightarrow> string set \<Rightarrow> resolve_error \<Rightarrow> string \<times> string
    \<Rightarrow> bool" where
  "ref_error rt results skipped e r =
     (case e of
        UpstreamSkipped b k \<Rightarrow> r = (k, b) \<and> b \<in> skipped
      | ResolveOther msg \<Rightarrow> snd r \<notin> skipped \<and>
          (case results (snd r) of
             None \<Rightarrow> \<exists>rest. msg = ''unresolved ref `'' @ snd r @ ''`'' @ rest
           | Some c \<Rightarrow> isl (rt_from_slice rt (cap_value c)) \<and>
               (\<exists>rest. msg = ''input ref `'' @ fst r @ ''` from binding `'' @ snd r @ ''` is not valid JSON'' @ rest)))"

lemma resolve_refs_error:
  "resolve_refs rt results skipped refs m0 = Inl e \<Longrightarrow>
     \<exists>before r after. refs = before @ r # after \<and> list_all (usable_ref rt results skipped) before \<and>
       ref_error rt results skipped e r"
proof (induction refs arbitrary: m0)
  case (Cons r refs)
  obtain key b where r: "r = (key, b)" by fastforce
  show ?case
  proof (cases "usable_ref rt results skipped r")
    case True
    then obtain c v where "b \<notin> skipped" "results b = Some c" "rt_from_slice rt (cap_value c) = Inr v"
      by (auto simp: r usable_ref_def decoded_ref_def split: option.splits sum.splits)
    with Cons.prems r have "resolve_refs rt results skipped refs (json_insert key v m0) = Inl e" by simp
    from Cons.IH [OF this] obtain before r' after where "refs = before @ r' # after"
      "list_all (usable_ref rt results skipped) before" "ref_error rt results skipped e r'" by blast
    with True show ?thesis by (intro exI [of _ "r # before"] exI [of _ r'] exI [of _ after]) simp
  next
    case False
    with Cons.prems r have "ref_error rt results skipped e r"
      by (auto simp: ref_error_def usable_ref_def decoded_ref_def unresolved_ref_message_def malformed_input_message_def
          split: if_splits option.splits sum.splits)
    then show ?thesis by (intro exI [of _ "[]"]) auto
  qed
qed simp

text \<open>C36: Argument resolution is exact. The resolved object has, under every reference key, the decoded
  output of the producer it names, and under every other key the static argument; it exists only when
  no producer was skipped and every one was captured and decodes. Otherwise the error is about the first reference,
  in order, that cannot be used, and names it: a skip error gives the key and the binding of a skipped producer, any other
  message starts with the binding that was not captured, or with the key and the binding whose value does not decode.\<close>

theorem resolve_arguments_exact:
  assumes "distinct (map fst (input_refs step))" and "static_arguments step = JObject m0"
  shows "case resolve_arguments rt step results skipped of
      Inr v \<Rightarrow> list_all (usable_ref rt results skipped) (input_refs step) \<and>
        (\<exists>m. v = JObject m \<and> (\<forall>k. map_of m k =
          (case map_of (input_refs step) k of Some b \<Rightarrow> decoded_ref rt results b | None \<Rightarrow> map_of m0 k)))
    | Inl e \<Rightarrow> \<exists>before r after. input_refs step = before @ r # after \<and>
        list_all (usable_ref rt results skipped) before \<and> ref_error rt results skipped e r"
proof (cases "resolve_refs rt results skipped (input_refs step) m0")
  case (Inr m)
  from resolve_refs_ok [OF this assms(1)] show ?thesis
    by (simp add: resolve_arguments_def assms(2) as_object_def Inr usable_ref_def list_all_iff)
next
  case (Inl e)
  then have "resolve_arguments rt step results skipped = Inl e"
    by (simp add: resolve_arguments_def assms(2) as_object_def)
  with resolve_refs_error [OF Inl] show ?thesis by simp
qed

text \<open>The binding is not captured, and captured.\<close>

theorem resolve_arguments_exact_witness:
  "\<exists>msg m. resolve_arguments (scripted_runtime (recovering 0)) (demo_call ''s'' [(''x'', ''b'')] None IrRetry) Map.empty {} =
       Inl (ResolveOther msg) \<and> take 18 msg = ''unresolved ref `b`'' \<and>
     resolve_arguments (scripted_runtime (recovering 0)) (demo_call ''s'' [(''x'', ''b'')] None IrRetry)
       [''b'' \<mapsto> \<lparr>cap_value = ''true'', cap_invocation = demo_record ''i'' []\<rparr>] {} = Inr (JObject m) \<and>
     map_of m ''x'' = Some (JBool True)"
proof -
  let ?rt = "scripted_runtime (recovering 0)" and ?step = "demo_call ''s'' [(''x'', ''b'')] None IrRetry"
  let ?res = "[''b'' \<mapsto> \<lparr>cap_value = ''true'', cap_invocation = demo_record ''i'' []\<rparr>]"
  note exact = resolve_arguments_exact [where step = ?step and ?m0.0 = "[(''mode'', JBool True)]" and rt = ?rt and skipped = "{}"]
  have "resolve_arguments ?rt ?step ?res {} = Inr (JObject [(''mode'', JBool True), (''x'', JBool True)])"
    "resolve_arguments ?rt ?step Map.empty {} = Inl (ResolveOther (unresolved_ref_message ''b''))"
    by (simp_all add: resolve_arguments_def demo_call_def as_object_def scripted_runtime_def demo_decode_def
        demo_codec_def)
  with exact [of Map.empty] show ?thesis
    by (auto simp: demo_call_def ref_error_def append_eq_Cons_conv Cons_eq_append_conv)
qed

end
