(* ===== verification/EalDataFlow.thy ===== *)
theory EalDataFlow
  imports EalBatch EalStep
begin

text \<open>
  Bindings at run time (\<open>src/eal/interpreter/phases.rs\<close>): which bindings a run has produced when a
  phase starts, what a loop exports and what it hides.
\<close>

section \<open>Covered bindings\<close>

text \<open>A binding is accounted for: captured, skipped, or lost to a failure.\<close>

definition covered :: "phase_state \<Rightarrow> string \<Rightarrow> bool" where
  "covered st b \<longleftrightarrow> 0 < ps_failed st \<or> b \<in> dom (ps_captured st) \<or> b \<in> ps_skipped_bindings st"

lemma covered_grows: "grows st st' \<Longrightarrow> covered st b \<Longrightarrow> covered st' b"
  by (auto simp: grows_def covered_def)

lemma record_result_covers:
  "output_binding call = Some b \<Longrightarrow> covered (record_result call res t st) b"
  by (cases res) (auto simp: covered_def record_result_def Let_def)

lemma process_batch_covers:
  "process_batch rt steps phase_idx rs st w = (st', w') \<Longrightarrow> i \<in> fst ` set rs \<Longrightarrow>
     output_binding (steps ! i) = Some b \<Longrightarrow> covered st' b"
proof (induction rs arbitrary: st w)
  case (Cons r rs)
  obtain j res where r: "r = (j, res)" by fastforce
  obtain t w1 where p: "process_result rt steps phase_idx r st w = (record_result (steps ! j) res t st, w1)"
    using process_result_record [of rt steps phase_idx j res st w] r by blast
  with Cons.prems(1) have rec: "process_batch rt steps phase_idx rs (record_result (steps ! j) res t st) w1 = (st', w')"
    by simp
  show ?case
  proof (cases "i = j")
    case True
    with Cons.prems(3) have "covered (record_result (steps ! j) res t st) b"
      by (simp add: record_result_covers)
    with gr.process_batch_R [OF rec] show ?thesis by (rule covered_grows)
  next
    case False
    with Cons r rec show ?thesis by auto
  qed
qed simp

lemma execute_calls_covers:
  assumes "execute_calls_phase_partition rt run steps phase_idx st w = (st', w')" "fair_schedule rt"
    and "\<not> ps_aborted st'" "c \<in> set steps" "output_binding c = Some b"
  shows "covered st' b"
proof -
  let ?par = "length steps > 1 \<and> rt_concurrency rt = Parallel"
  let ?req = "filter (\<lambda>i. \<not> ir_optional (steps ! i)) [0..<length steps]"
  let ?opt = "filter (\<lambda>i. ir_optional (steps ! i)) [0..<length steps]"
  obtain rs w1 where d: "dispatch_batch rt (batch_of run steps st) ?req ?par w = (rs, w1)" by fastforce
  obtain st2 w2 where p: "process_batch rt steps phase_idx rs st w1 = (st2, w2)" by fastforce
  obtain rs' w3 where d': "dispatch_batch rt (batch_of run steps st2) ?opt ?par w2 = (rs', w3)" by fastforce
  have ix: "fst ` set rs = set ?req" "fst ` set rs' = set ?opt"
    using dispatch_batch_indices [OF d assms(2)] dispatch_batch_indices [OF d' assms(2)]
    by (simp_all add: sorted_filter [of id, simplified] flip: set_map)
  obtain i where i: "i < length steps" "steps ! i = c" using assms(4) by (auto simp: in_set_conv_nth)
  from assms(1,4) d p d' have st': "st' = (if \<not> ps_aborted st2 \<and> ?opt \<noteq> []
      then fst (process_batch rt steps phase_idx rs' st2 w3) else st2)"
    by (auto simp: execute_calls_phase_partition_def Let_def split: if_splits)
  show ?thesis
  proof (cases "ir_optional c")
    case False
    with i have "i \<in> fst ` set rs" unfolding ix by simp
    with process_batch_covers [OF p] i(2) assms(5) have "covered st2 b" by simp
    moreover have "grows st2 st'"
      using gr.process_batch_R [of rt steps phase_idx rs' st2 w3] gr.refl
      by (cases "process_batch rt steps phase_idx rs' st2 w3") (simp add: st')
    ultimately show ?thesis by (blast intro: covered_grows)
  next
    case True
    with i have o: "i \<in> fst ` set rs'" unfolding ix by simp
    from i True have "i \<in> set ?opt" by simp
    then have "?opt \<noteq> []" by (metis empty_iff list.set(1))
    with assms(3) st' have "st' = fst (process_batch rt steps phase_idx rs' st2 w3)" by (auto split: if_splits)
    with process_batch_covers [OF prod.collapse [symmetric] o, of steps b rt phase_idx st2 w3] i(2) assms(5)
    show ?thesis by simp
  qed
qed

section \<open>Loops\<close>

lemma run_loop_block_outer:
  "run_loop_block rt run steps phase_idx i st sc w = (ok, st', sc', w') \<Longrightarrow>
     ps_captured st' = ps_captured st \<and> ps_skipped_bindings st' = ps_skipped_bindings st \<and> ok = (\<not> ps_aborted st')"
proof (induction "length steps - i" arbitrary: i st sc w)
  case 0
  then show ?case by (auto elim: run_loop_block_cases)
next
  case (Suc n)
  have outer: "ps_captured st2 = ps_captured st \<and> ps_skipped_bindings st2 = ps_skipped_bindings st"
    if "process_in_scope rt steps phase_idx (i, r) st sc1 w1 = (st2, sc2, w2)" for r sc1 w1 st2 sc2 w2
    using that by (auto simp: process_in_scope_def leave_scope_def split: prod.splits)
  from Suc.prems show ?case
  proof (cases rule: run_loop_block_cases)
    case (step r sc1 w1 st2 sc2 w2)
    with Suc.hyps(2) have "ps_captured st' = ps_captured st2 \<and> ps_skipped_bindings st' = ps_skipped_bindings st2 \<and>
        ok = (\<not> ps_aborted st')"
      by (intro Suc.hyps(1) [OF _ step(5)]) simp
    with outer [OF step(4)] show ?thesis by simp
  qed (auto dest: outer)
qed

text \<open>How a loop ends: aborted with nothing exported, or with a verify output that says done.\<close>

definition loop_exit :: "('w, 'z) runtime_scheme \<Rightarrow> string option \<Rightarrow> phase_state \<Rightarrow> phase_state \<Rightarrow> bool" where
  "loop_exit rt rb st st' \<longleftrightarrow>
     ps_skipped_bindings st' = ps_skipped_bindings st \<and>
     (if ps_aborted st' then ps_captured st' = ps_captured st
      else \<exists>c. verify_output_done rt (cap_value c) = VerifyTrue \<and>
        ps_captured st' = (case rb of None \<Rightarrow> ps_captured st | Some b \<Rightarrow> (ps_captured st)(b \<mapsto> c)))"

lemma loop_iterations_exit:
  "loop_iterations rt run rb body verify phase_idx n st w = (st', w') \<Longrightarrow> loop_exit rt rb st st'"
proof (induction n arbitrary: st w)
  case 0
  then show ?case by (auto simp: fail_loop_def loop_exit_def)
next
  case (Suc n)
  obtain ok1 st1 sc1 w1 where b:
    "run_loop_block rt run body phase_idx 0 st (Map.empty, {}) w = (ok1, st1, sc1, w1)"
    by (metis prod_cases4)
  obtain ok2 st2 sc2 w2 where v: "run_loop_block rt run verify phase_idx 0 st1 sc1 w1 = (ok2, st2, sc2, w2)"
    by (metis prod_cases4)
  note o = run_loop_block_outer [OF b] run_loop_block_outer [OF v]
  have eqs: "ps_captured st2 = ps_captured st" "ps_skipped_bindings st2 = ps_skipped_bindings st"
    using o by simp_all
  have same: "loop_exit rt rb st2 = loop_exit rt rb st" by (intro ext) (simp only: loop_exit_def eqs)
  consider "ps_aborted st1 \<and> st' = st1" | "ps_aborted st2 \<and> st' = st2" | "st' = fail_loop st2" | "ps_aborted st \<and> st' = st"
    | c where "\<not> ps_aborted st2" "verify_output_done rt (cap_value c) = VerifyTrue"
        "st' = (case rb of None \<Rightarrow> st2 | Some b \<Rightarrow> st2\<lparr>ps_captured := (ps_captured st2)(b \<mapsto> c)\<rparr>)"
    | "loop_iterations rt run rb body verify phase_idx n st2 w2 = (st', w')"
    using Suc.prems b v o by (auto split: if_splits option.splits verify_done.splits)
  then show ?case
  proof cases
    case 6
    from Suc.IH [OF this] show ?thesis by (simp only: same)
  next
    case (5 c)
    with o show ?thesis by (auto simp: loop_exit_def split: option.splits)
  qed (use o in \<open>auto simp: loop_exit_def fail_loop_def\<close>)
qed

lemma execute_loop_exit:
  assumes "execute_loop rt run lp phase_idx st w = (st', w')"
  shows "loop_exit rt (irl_result_binding lp) st st'"
  using assms
  by (auto simp: execute_loop_def fail_loop_def panic_def split: option.splits if_splits
      dest: loop_iterations_exit) (auto simp: loop_exit_def)

section \<open>Phases\<close>

fun partition_steps :: "phase_partition \<Rightarrow> ir_step list" where
  "partition_steps (PCalls ss) = ss"
| "partition_steps (PLoop l) = [IrStepLoop l]"

lemma split_phase_from_steps: "concat (map partition_steps (split_phase_from run ss)) = run @ ss"
  by (induction run ss rule: split_phase_from.induct) auto

lemma calls_from_partition_map: "calls_from_partition ss = Some cs \<Longrightarrow> ss = map IrStepCall cs"
  by (induction ss arbitrary: cs rule: calls_from_partition.induct) auto

lemma execute_partition_covers:
  assumes "execute_partition rt run phase_idx p st w = (st', w')" "fair_schedule rt" "\<not> ps_aborted st'"
    and "s \<in> set (partition_steps p)" "step_binding s = Some b"
  shows "covered st' b"
proof (cases p)
  case (PLoop lp)
  with assms execute_loop_exit [of rt run lp phase_idx st w st' w'] show ?thesis
    by (auto simp: execute_partition_def loop_exit_def covered_def split: if_splits)
next
  case (PCalls ss)
  with assms(1,3) obtain cs where cs: "calls_from_partition ss = Some cs"
    "execute_calls_phase_partition rt run cs phase_idx st w = (st', w')"
    by (auto simp: execute_partition_def panic_def split: option.splits)
  with assms(4,5) PCalls calls_from_partition_map [OF cs(1)] obtain c where "c \<in> set cs" "output_binding c = Some b"
    by auto
  with cs(2) assms(2,3) show ?thesis by (blast intro: execute_calls_covers)
qed

lemma execute_partitions_covers:
  "execute_partitions rt run phase_idx ps st w = (st', w') \<Longrightarrow> fair_schedule rt \<Longrightarrow> \<not> ps_aborted st' \<Longrightarrow>
     s \<in> set (concat (map partition_steps ps)) \<Longrightarrow> step_binding s = Some b \<Longrightarrow> covered st' b"
proof (induction ps arbitrary: st w)
  case (Cons p ps)
  obtain st1 w1 where p: "execute_partition rt run phase_idx p st w = (st1, w1)" by fastforce
  have "\<not> ps_aborted st" using Cons.prems(1,3) by (auto split: if_splits)
  with Cons.prems(1) p have rec: "execute_partitions rt run phase_idx ps st1 w1 = (st', w')" by simp
  from gr.execute_partitions_R [OF this] have g: "grows st1 st'" .
  with Cons.prems(3) have "\<not> ps_aborted st1" by (auto simp: grows_def)
  with execute_partition_covers [OF p Cons.prems(2)] g Cons.prems(5) covered_grows
  have "s \<in> set (partition_steps p) \<Longrightarrow> covered st' b" by blast
  with Cons rec show ?case by auto
qed simp

lemma execute_phases_covers:
  "execute_phases rt run steps phase_idx rs st w = (st', w') \<Longrightarrow> fair_schedule rt \<Longrightarrow> \<not> ps_aborted st' \<Longrightarrow>
     list_all (range_in (length steps)) rs \<Longrightarrow> r \<in> set rs \<Longrightarrow> i \<in> set (range_indices r) \<Longrightarrow>
     step_binding (steps ! i) = Some b \<Longrightarrow> covered st' b"
proof (induction rs arbitrary: phase_idx st w)
  case (Cons q rs)
  have "\<not> ps_aborted st" using Cons.prems(1,3) by (auto split: if_splits)
  moreover define xs where "xs = map (\<lambda>i. steps ! i) (range_indices q)"
  moreover have "slice (range_start q) (range_end q) steps = Some xs"
    using Cons.prems(4) unfolding xs_def by (simp add: slice_range_indices)
  moreover obtain st1 w1 where p: "execute_partitions rt run phase_idx (split_phase_steps xs) st w = (st1, w1)"
    by fastforce
  ultimately have rec: "execute_phases rt run steps (Suc phase_idx) rs st1 w1 = (st', w')"
    using Cons.prems(1) by simp
  from gr.execute_phases_R [OF this] have g: "grows st1 st'" .
  with Cons.prems(3) have na: "\<not> ps_aborted st1" by (auto simp: grows_def)
  show ?case
  proof (cases "r = q")
    case True
    with Cons.prems(6) have "steps ! i \<in> set (concat (map partition_steps (split_phase_steps xs)))"
      by (simp add: split_phase_steps_def split_phase_from_steps xs_def)
    from execute_partitions_covers [OF p Cons.prems(2) na this Cons.prems(7)] g show ?thesis
      by (blast intro: covered_grows)
  next
    case False
    with Cons.prems(2-7) show ?thesis by (intro Cons.IH [OF rec]) auto
  qed
qed simp

text \<open>A run is the run of its first phases continued: what holds of a prefix holds when the next phase
  starts.\<close>

lemma execute_phases_append:
  assumes "execute_phases rt run steps k rs st w = (st1, w1)" "\<not> ps_aborted st1"
  shows "execute_phases rt run steps k (rs @ rs') st w = execute_phases rt run steps (k + length rs) rs' st1 w1"
  using assms
proof (induction rs arbitrary: k st w)
  case (Cons r rs)
  have na: "\<not> ps_aborted st" using Cons.prems by (auto split: if_splits)
  show ?case
  proof (cases "slice (range_start r) (range_end r) steps")
    case None
    with Cons.prems na show ?thesis by (auto simp: panic_def)
  next
    case (Some xs)
    obtain st2 w2 where p: "execute_partitions rt run k (split_phase_steps xs) st w = (st2, w2)" by fastforce
    with Cons.prems na Some have "execute_phases rt run steps (Suc k) rs st2 w2 = (st1, w1)" by simp
    from Cons.IH [OF this Cons.prems(2)] Some na p show ?thesis by simp
  qed
qed simp

section \<open>Properties\<close>

text \<open>C2: References resolve at run time: when a phase of a compiled mission starts and no step has
  failed so far, every binding its steps read has been captured or recorded as skipped, and the rest
  of the run is the run of the remaining phases from that state.\<close>

theorem references_available:
  assumes "compile p = Inr ir" and "fair_schedule rt" and "k < length (ir_phases ir)"
    and "execute_phases rt run (ir_steps ir) 0 (take k (ir_phases ir)) initial_state w = (st, w')"
    and "\<not> ps_aborted st" and "ps_failed st = 0"
    and "i \<in> set (range_indices (ir_phases ir ! k))" and "b \<in> step_refs (ir_steps ir ! i)"
  shows "(b \<in> dom (ps_captured st) \<or> b \<in> ps_skipped_bindings st) \<and>
    execute_phases rt run (ir_steps ir) 0 (ir_phases ir) initial_state w =
      execute_phases rt run (ir_steps ir) k (drop k (ir_phases ir)) st w'"
proof -
  from compiled_phase_order [OF assms(1,3,7,8)] obtain k' j where k': "k' < k"
    "j \<in> set (range_indices (ir_phases ir ! k'))" "step_binding (ir_steps ir ! j) = Some b" by blast
  have mem: "ir_phases ir ! k' \<in> set (take k (ir_phases ir))"
    using k'(1) assms(3) by (auto simp: in_set_conv_nth intro!: exI [of _ k'])
  have "list_all (range_in (length (ir_steps ir))) (take k (ir_phases ir))"
    using compiled_ranges [OF assms(1)] by (auto simp: list_all_iff dest: in_set_takeD)
  from execute_phases_covers [OF assms(4,2,5) this mem k'(2,3)] assms(6)
  have "b \<in> dom (ps_captured st) \<or> b \<in> ps_skipped_bindings st" by (simp add: covered_def)
  with execute_phases_append [OF assms(4,5), of "drop k (ir_phases ir)"] assms(3) show ?thesis by simp
qed

definition demo_prefix :: phase_state where
  "demo_prefix = fst (execute_phases (scripted_runtime (recovering 0)) (demo_run None)
     (ir_steps (projr (compile demo_program))) 0 (take 1 (ir_phases (projr (compile demo_program)))) initial_state 0)"

theorem references_available_witness:
  "''b'' \<in> dom (ps_captured demo_prefix) \<or> ''b'' \<in> ps_skipped_bindings demo_prefix"
proof -
  let ?ir = "projr (compile demo_program)"
  have "1 < length (ir_phases ?ir) \<and> 2 \<in> set (range_indices (ir_phases ?ir ! 1)) \<and>
      ''b'' \<in> step_refs (ir_steps ?ir ! 2)" by code_simp
  moreover have "\<not> ps_aborted demo_prefix \<and> ps_failed demo_prefix = 0" by code_simp
  ultimately show ?thesis
    using references_available [OF demo_compiles fair_scripted _ prod.collapse [symmetric],
        of 1 "recovering 0" "demo_run None" 0 2 "''b''"]
    unfolding demo_prefix_def by blast
qed


definition demo_loop :: "ir_failure_policy \<Rightarrow> ir_loop" where
  "demo_loop policy =
     IrLoop (Some ''l'') 2 [IrStepCall (demo_call ''work'' [] (Some ''x'') IrContinue)]
       [IrStepCall (demo_call ''check'' [] None policy)] (Some ''l.result'')"


text \<open>The body says done and the verify call fails: the first call of the script succeeds, the second
  does not.\<close>

definition verify_down :: script where
  "verify_down n = (if n = 0 then Inr (done_object True) else Inl (Unavailable ''down''))"

definition unverified_run :: phase_state where
  "unverified_run =
     fst (execute_loop (scripted_runtime verify_down) (demo_run None) (demo_loop IrContinue) 0 initial_state 0)"

text \<open>A loop can end successfully without a verify output: when the final verify call fails with a
  non-abort policy, the fallback capture of the body's last call is read instead, and the body's own
  output becomes the result of the loop.\<close>

theorem loop_reads_body_as_verify:
  "\<not> ps_aborted unverified_run \<and> ps_failed unverified_run = 1 \<and> ps_completed unverified_run = 1 \<and>
   map_option cap_value (ps_captured unverified_run ''l.result'') = Some ''{done:true}''"
  by code_simp

end
