(* ===== verification/EalLedger.thy ===== *)
theory EalLedger
  imports EalDataFlow
begin

text \<open>
  The ledger of a run (\<open>src/eal/interpreter/phases.rs\<close>): one entry for every result the executor
  recorded, with the call that produced it and whether it ran inside a loop, and every counter of the
  state as a function of the entries.
\<close>

section \<open>Entries\<close>

text \<open>An entry: whether it was recorded inside a loop, the call, and its step trace.\<close>

type_synonym entry = "bool \<times> ir_call \<times> step_trace"

fun entry_trace :: "entry \<Rightarrow> step_trace" where
  "entry_trace (inl, c, t) = t"

fun aborting :: "entry \<Rightarrow> bool" where
  "aborting (inl, c, t) = (st_outcome t = StepFailed \<and> \<not> ir_optional c \<and> ir_on_failure c = IrAbort)"

definition count_entries :: "step_outcome \<Rightarrow> entry list \<Rightarrow> nat" where
  "count_entries k es = length (filter (\<lambda>(inl, c, t). st_outcome t = k) es)"

text \<open>A skip inside a loop is recorded, but not counted: the loop discards the counter of its scope.\<close>

definition count_skips :: "entry list \<Rightarrow> nat" where
  "count_skips es = length (filter (\<lambda>(inl, c, t). \<not> inl \<and> st_outcome t = StepSkipped) es)"

lemma count_simps [simp]:
  "count_entries k [] = 0" "count_skips [] = 0"
  "count_entries k (es @ fs) = count_entries k es + count_entries k fs"
  "count_skips (es @ fs) = count_skips es + count_skips fs"
  by (simp_all add: count_entries_def count_skips_def)

text \<open>The trace of an entry names its call; \<open>valid inl k c\<close>: phase \<open>k\<close> may run \<open>c\<close> there.\<close>

fun entry_of :: "(bool \<Rightarrow> nat \<Rightarrow> ir_call \<Rightarrow> bool) \<Rightarrow> entry \<Rightarrow> bool" where
  "entry_of valid (inl, c, t) =
     (valid inl (st_phase_index t) c \<and> st_step_id t = step_id c \<and> st_ability t = ability c \<and>
      st_target t = ir_target c \<and> st_output_binding t = output_binding c \<and> st_input_refs t = input_refs c \<and>
      (st_outcome t = StepCompleted \<longleftrightarrow> st_error t = None) \<and>
      (st_outcome t = StepFailed \<longrightarrow> \<not> ir_optional c \<and> ir_on_failure c \<noteq> IrSkip))"

section \<open>Tallies\<close>

text \<open>
  From \<open>st\<close> to \<open>st'\<close> the entries \<open>es\<close> were recorded, \<open>gave_up\<close> says whether a loop gave up, which counts
  as a failure without a trace, and \<open>p\<close> whether the run panicked.
\<close>

definition tallies ::
  "(bool \<Rightarrow> nat \<Rightarrow> ir_call \<Rightarrow> bool) \<Rightarrow> entry list \<Rightarrow> bool \<Rightarrow> bool \<Rightarrow> phase_state \<Rightarrow> phase_state \<Rightarrow> bool" where
  "tallies valid es gave_up p st st' \<longleftrightarrow>
     list_all (entry_of valid) es \<and>
     (\<forall>xs. buffer_log (ps_traces st) xs \<longrightarrow> buffer_log (ps_traces st') (xs @ map entry_trace es)) \<and>
     ps_global_step st' = ps_global_step st + length es \<and>
     ps_completed st' = ps_completed st + count_entries StepCompleted es \<and>
     ps_failed st' = ps_failed st + count_entries StepFailed es + of_bool gave_up \<and>
     ps_skipped st' = ps_skipped st + count_skips es \<and>
     (ps_panicked st' \<longleftrightarrow> ps_panicked st \<or> p) \<and>
     (ps_aborted st' \<longleftrightarrow> ps_aborted st \<or> gave_up \<or> p \<or> (\<exists>e\<in>set es. aborting e)) \<and>
     (gave_up \<longrightarrow> \<not> ps_aborted st \<and> \<not> (\<exists>e\<in>set es. aborting e))"

definition tallied :: "(bool \<Rightarrow> nat \<Rightarrow> ir_call \<Rightarrow> bool) \<Rightarrow> phase_state \<Rightarrow> phase_state \<Rightarrow> bool" where
  "tallied valid st st' \<longleftrightarrow> (\<exists>es gave_up p. tallies valid es gave_up p st st')"

text \<open>A stretch of the run in which no loop gave up and nothing panicked.\<close>

definition recorded :: "(bool \<Rightarrow> nat \<Rightarrow> ir_call \<Rightarrow> bool) \<Rightarrow> phase_state \<Rightarrow> phase_state \<Rightarrow> bool" where
  "recorded valid st st' \<longleftrightarrow> (\<exists>es. tallies valid es False False st st')"

lemma tallies_refl: "tallies valid [] False False st st"
  by (simp add: tallies_def)

lemma tallies_log:
  assumes "tallies valid es g p st1 st2" "tallies valid es' g' p' st2 st3" "buffer_log (ps_traces st1) xs"
  shows "buffer_log (ps_traces st3) (xs @ map entry_trace (es @ es'))"
proof -
  from assms(1,3) have "buffer_log (ps_traces st2) (xs @ map entry_trace es)" unfolding tallies_def by blast
  with assms(2) have "buffer_log (ps_traces st3) ((xs @ map entry_trace es) @ map entry_trace es')"
    unfolding tallies_def by blast
  then show ?thesis by simp
qed

text \<open>An aborted run only goes on with results that are already in hand.\<close>

lemma tallies_trans:
  assumes "tallies valid es g p st1 st2" "tallies valid es' g' p' st2 st3"
    and "g \<Longrightarrow> \<not> (\<exists>e\<in>set es'. aborting e) \<and> \<not> g'"
  shows "tallies valid (es @ es') (g \<or> g') (p \<or> p') st1 st3"
proof -
  from assms(1,2) have log: "\<forall>xs. buffer_log (ps_traces st1) xs \<longrightarrow>
      buffer_log (ps_traces st3) (xs @ map entry_trace (es @ es'))"
    by (blast intro: tallies_log)
  have "of_bool (g \<or> g') = (of_bool g + of_bool g' :: nat)" using assms(3) by auto
  moreover have "ps_aborted st3 \<longleftrightarrow> ps_aborted st1 \<or> (g \<or> g') \<or> (p \<or> p') \<or> (\<exists>e\<in>set (es @ es'). aborting e)"
    "ps_panicked st3 \<longleftrightarrow> ps_panicked st1 \<or> (p \<or> p')"
    "g \<or> g' \<longrightarrow> \<not> ps_aborted st1 \<and> \<not> (\<exists>e\<in>set (es @ es'). aborting e)"
    using assms unfolding tallies_def set_append bex_Un by argo+
  ultimately show ?thesis
    using assms(1,2) log unfolding tallies_def by (elim conjE) (intro conjI; simp only: list_all_append count_simps length_append add.assoc add.left_commute)
qed

lemma recorded_refl: "recorded valid st st"
  unfolding recorded_def using tallies_refl by blast

lemma recorded_trans: "recorded valid st1 st2 \<Longrightarrow> recorded valid st2 st3 \<Longrightarrow> recorded valid st1 st3"
  unfolding recorded_def
  using tallies_trans [where g = False and g' = False and p = False and p' = False, simplified] by blast

lemma recorded_tallied: "recorded valid st st' \<Longrightarrow> tallied valid st st'"
  unfolding recorded_def tallied_def by blast

lemmas tallied_refl = recorded_tallied [OF recorded_refl]

lemma recorded_tallied_trans: "recorded valid st1 st2 \<Longrightarrow> tallied valid st2 st3 \<Longrightarrow> tallied valid st1 st3"
  unfolding recorded_def tallied_def using tallies_trans [where g = False, simplified] by blast

lemma tallied_trans:
  assumes "tallied valid st1 st2" "tallied valid st2 st3" "ps_aborted st2 \<Longrightarrow> st3 = st2"
  shows "tallied valid st1 st3"
proof (cases "ps_aborted st2")
  case False
  from assms(1) obtain es g p where t: "tallies valid es g p st1 st2" unfolding tallied_def by blast
  with False have "\<not> g" unfolding tallies_def by blast
  with t have "tallies valid es False p st1 st2" by simp
  with assms(2) show ?thesis unfolding tallied_def using tallies_trans [where g = False, simplified] by blast
qed (use assms in simp)

section \<open>The ways the executor touches its state\<close>

lemma record_result_tallies:
  "trace_of call res k t \<Longrightarrow> valid False k call \<Longrightarrow>
     tallies valid [(False, call, t)] False False st (record_result call res t st)"
  by (cases res) (auto simp: tallies_def record_result_def trace_of_def res_outcome_def Let_def count_entries_def
      count_skips_def buffer_log_push split: if_splits)

lemma scoped_result_tallies:
  "trace_of call res k t \<Longrightarrow> valid True k call \<Longrightarrow>
     tallies valid [(True, call, t)] False False st (leave_scope st (record_result call res t (enter_scope st sc)))"
  by (cases res) (auto simp: tallies_def record_result_def trace_of_def res_outcome_def Let_def count_entries_def
      count_skips_def enter_scope_def leave_scope_def buffer_log_push split: if_splits)

lemma fail_loop_tallied: "\<not> ps_aborted st \<Longrightarrow> tallied valid st (fail_loop st)"
  unfolding tallied_def by (rule exI [of _ "[]"], rule exI [of _ True], rule exI [of _ False])
    (simp add: tallies_def fail_loop_def)

lemma panic_tallied: "tallied valid st (panic st)"
  unfolding tallied_def by (rule exI [of _ "[]"], rule exI [of _ False], rule exI [of _ True])
    (simp add: tallies_def panic_def)

lemma capture_tallied: "tallied valid st (st\<lparr>ps_captured := m\<rparr>)"
  unfolding tallied_def by (rule exI [of _ "[]"], rule exI [of _ False], rule exI [of _ False])
    (simp add: tallies_def)

section \<open>Batches\<close>

lemma run_tasks_within:
  "run_tasks rt rq tasks order col w = (res, w') \<Longrightarrow> fst ` set res \<subseteq> fst ` set col \<union> fst ` set tasks"
proof (induction order arbitrary: col w)
  case (Cons i order)
  show ?case
  proof (cases "map_of tasks i")
    case None
    with Cons show ?thesis by simp
  next
    case (Some x)
    obtain args deps where x: "x = (args, deps)" by fastforce
    obtain r w1 where "execute_step_with_retry rt (br_run rq) (br_steps rq ! i) args deps w = (r, w1)"
      by fastforce
    with Cons.prems Some x have "run_tasks rt rq tasks order (col @ [(i, r)]) w1 = (res, w')" by simp
    from Cons.IH [OF this] map_of_SomeD [OF Some] show ?thesis by force
  qed
qed auto

lemma dispatch_batch_within:
  assumes "dispatch_batch rt rq is par w = (res, w')"
  shows "fst ` set res \<subseteq> set is"
proof (cases "par \<and> length is > 1")
  case True
  obtain col tasks w1 where p: "prepare_tasks rt rq is [] [] w = (col, tasks, w1)" by (metis prod_cases3)
  obtain rs w2 where r: "run_tasks rt rq tasks (rt_schedule rt (map fst tasks) w1) col w1 = (rs, w2)"
    by fastforce
  from assms True p r have "res = sort_key fst rs"
    by (auto simp: dispatch_batch_def Let_def split: if_splits)
  moreover have "fst ` set col \<union> fst ` set tasks = set is"
    using prepare_tasks_indices [OF p] by (metis list.set_map mset_append mset.simps(1) add_0 list.simps(8)
        mset_eq_setD set_append)
  ultimately show ?thesis using run_tasks_within [OF r] by simp
next
  case False
  with assms have "res = [] \<or> run_sequential rt rq is w = (res, w')"
    by (auto simp: dispatch_batch_def split: if_splits)
  then show ?thesis by (auto simp flip: set_map dest: run_sequential_indices)
qed

lemma process_batch_recorded:
  "process_batch rt steps k rs st w = (st', w') \<Longrightarrow> \<forall>i\<in>fst ` set rs. valid False k (steps ! i) \<Longrightarrow>
     recorded valid st st'"
proof (induction rs arbitrary: st w)
  case (Cons r rs)
  obtain i res where r: "r = (i, res)" by fastforce
  obtain t w1 where p: "process_result rt steps k r st w = (record_result (steps ! i) res t st, w1)"
    and t: "trace_of (steps ! i) res k t"
    using process_result_record [of rt steps k i res st w] r by blast
  from Cons.prems(2) r have "recorded valid st (record_result (steps ! i) res t st)"
    unfolding recorded_def using record_result_tallies [OF t] by auto
  moreover have "recorded valid (record_result (steps ! i) res t st) st'"
    using Cons p by auto
  ultimately show ?case by (rule recorded_trans)
qed (simp add: recorded_refl)

lemma execute_calls_recorded:
  assumes "execute_calls_phase_partition rt run steps k st w = (st', w')" "\<forall>c\<in>set steps. valid False k c"
  shows "recorded valid st st'"
proof (cases "steps = []")
  case False
  let ?par = "length steps > 1 \<and> rt_concurrency rt = Parallel"
  let ?req = "filter (\<lambda>i. \<not> ir_optional (steps ! i)) [0..<length steps]"
  let ?opt = "filter (\<lambda>i. ir_optional (steps ! i)) [0..<length steps]"
  obtain rs w1 where d: "dispatch_batch rt (batch_of run steps st) ?req ?par w = (rs, w1)" by fastforce
  obtain st2 w2 where p: "process_batch rt steps k rs st w1 = (st2, w2)" by fastforce
  obtain rs' w3 where d': "dispatch_batch rt (batch_of run steps st2) ?opt ?par w2 = (rs', w3)" by fastforce
  have "\<forall>i\<in>fst ` set rs. valid False k (steps ! i)" "\<forall>i\<in>fst ` set rs'. valid False k (steps ! i)"
    using dispatch_batch_within [OF d] dispatch_batch_within [OF d'] assms(2) by fastforce+
  note 1 = process_batch_recorded [where valid = valid, OF p this(1)]
    and 2 = process_batch_recorded [where valid = valid, OF _ this(2)]
  from assms(1) False d p d' consider "st' = st2" | "process_batch rt steps k rs' st2 w3 = (st', w')"
    by (auto simp: execute_calls_phase_partition_def Let_def split: if_splits)
  then show ?thesis using 1 by cases (blast intro: recorded_trans dest: 2)+
qed (use assms in \<open>simp add: execute_calls_phase_partition_def recorded_refl\<close>)

section \<open>Loops\<close>

lemma process_in_scope_recorded:
  assumes "process_in_scope rt steps k (i, r) st sc w = (st', sc', w')" "valid True k (steps ! i)"
  shows "recorded valid st st'"
proof -
  obtain t w1 where "process_result rt steps k (i, r) (enter_scope st sc) w =
      (record_result (steps ! i) r t (enter_scope st sc), w1)" "trace_of (steps ! i) r k t"
    using process_result_record [of rt steps k i r "enter_scope st sc" w] by blast
  with assms show ?thesis
    unfolding recorded_def process_in_scope_def by (auto intro!: exI scoped_result_tallies)
qed

lemma run_loop_block_recorded:
  "run_loop_block rt run steps k i st sc w = (ok, st', sc', w') \<Longrightarrow> \<forall>c\<in>set steps. valid True k c \<Longrightarrow>
     recorded valid st st'"
proof (induction "length steps - i" arbitrary: i st sc w)
  case 0
  then show ?case by (auto simp: recorded_refl elim: run_loop_block_cases)
next
  case (Suc n)
  from Suc.prems(1) show ?case
  proof (cases rule: run_loop_block_cases)
    case stop
    then show ?thesis by (simp add: recorded_refl)
  next
    case (unresolved e r w1)
    with Suc.prems(2) show ?thesis by (auto intro: process_in_scope_recorded)
  next
    case (step r sc1 w1 st2 sc2 w2)
    with Suc.hyps(2) Suc.prems(2) have "recorded valid st2 st'" by (intro Suc.hyps(1) [OF _ step(5)]) simp_all
    moreover have "recorded valid st st2" using step(1,4) Suc.prems(2) by (auto intro: process_in_scope_recorded)
    ultimately show ?thesis by (blast intro: recorded_trans)
  qed
qed

lemma loop_iterations_tallied:
  "loop_iterations rt run rb body verify k n st w = (st', w') \<Longrightarrow> \<not> ps_aborted st \<Longrightarrow>
     \<forall>c\<in>set (body @ verify). valid True k c \<Longrightarrow> tallied valid st st'"
proof (induction n arbitrary: st w)
  case 0
  then show ?case by (auto intro: fail_loop_tallied)
next
  case (Suc n)
  obtain ok1 st1 sc1 w1 where b: "run_loop_block rt run body k 0 st (Map.empty, {}) w = (ok1, st1, sc1, w1)"
    by (metis prod_cases4)
  obtain ok2 st2 sc2 w2 where v: "run_loop_block rt run verify k 0 st1 sc1 w1 = (ok2, st2, sc2, w2)"
    by (metis prod_cases4)
  note ok = run_loop_block_outer [OF b] run_loop_block_outer [OF v]
  have 1: "recorded valid st st1" using run_loop_block_recorded [where valid = valid, OF b] Suc.prems(3) by simp
  with run_loop_block_recorded [where valid = valid, OF v] Suc.prems(3) have 2: "recorded valid st st2" by (auto intro: recorded_trans)
  consider "st' = st1" | "st' = st2" | "st' = fail_loop st2" "\<not> ps_aborted st2"
    | m where "st' = st2\<lparr>ps_captured := m\<rparr>"
    | "loop_iterations rt run rb body verify k n st2 w2 = (st', w')" "\<not> ps_aborted st2"
    using Suc.prems(1,2) b v ok by (auto split: if_splits option.splits verify_done.splits)
  then show ?case
  proof cases
    case 3
    with 2 show ?thesis by (auto intro: recorded_tallied_trans fail_loop_tallied)
  next
    case 5
    from recorded_tallied_trans [OF 2 Suc.IH [OF 5 Suc.prems(3)]] show ?thesis .
  qed (use 1 2 in \<open>auto intro: recorded_tallied recorded_tallied_trans capture_tallied\<close>)
qed

section \<open>Partitions and phases\<close>

text \<open>The calls of a step may run in phase \<open>k\<close>.\<close>

fun step_valid :: "(bool \<Rightarrow> nat \<Rightarrow> ir_call \<Rightarrow> bool) \<Rightarrow> nat \<Rightarrow> ir_step \<Rightarrow> bool" where
  "step_valid valid k (IrStepCall c) = valid False k c"
| "step_valid valid k (IrStepLoop l) =
     (\<forall>c. IrStepCall c \<in> set (irl_body l @ irl_verify l) \<longrightarrow> valid True k c)"

lemma execute_loop_tallied:
  assumes "execute_loop rt run lp k st w = (st', w')" "\<not> ps_aborted st" "step_valid valid k (IrStepLoop lp)"
  shows "tallied valid st st'"
proof -
  have "\<forall>c\<in>set (b @ v). valid True k c"
    if "calls_from_partition (irl_body lp) = Some b" "calls_from_partition (irl_verify lp) = Some v" for b v
    using calls_from_partition_map [OF that(1)] calls_from_partition_map [OF that(2)] assms(3) by auto
  with assms(1,2) show ?thesis
    by (auto simp: execute_loop_def panic_tallied fail_loop_tallied intro: loop_iterations_tallied
        split: option.splits if_splits)
qed

lemma execute_partition_tallied:
  assumes "execute_partition rt run k p st w = (st', w')" "\<not> ps_aborted st"
    and "\<forall>s\<in>set (partition_steps p). step_valid valid k s"
  shows "tallied valid st st'"
proof (cases p)
  case (PLoop lp)
  with assms show ?thesis by (auto simp: execute_partition_def intro: execute_loop_tallied)
next
  case (PCalls ss)
  show ?thesis
  proof (cases "calls_from_partition ss")
    case None
    with assms(1) PCalls show ?thesis by (auto simp: execute_partition_def panic_tallied)
  next
    case (Some cs)
    with assms PCalls calls_from_partition_map [OF Some] show ?thesis
      by (auto simp: execute_partition_def intro!: recorded_tallied execute_calls_recorded)
  qed
qed

lemma execute_partitions_aborted: "ps_aborted st \<Longrightarrow> execute_partitions rt run k ps st w = (st, w)"
  by (cases ps) simp_all

lemma execute_phases_aborted: "ps_aborted st \<Longrightarrow> execute_phases rt run steps k rs st w = (st, w)"
  by (cases rs) simp_all

lemma execute_partitions_tallied:
  "execute_partitions rt run k ps st w = (st', w') \<Longrightarrow>
     \<forall>s\<in>set (concat (map partition_steps ps)). step_valid valid k s \<Longrightarrow> tallied valid st st'"
proof (induction ps arbitrary: st w)
  case (Cons p ps)
  obtain st1 w1 where p: "execute_partition rt run k p st w = (st1, w1)" by fastforce
  show ?case
  proof (cases "ps_aborted st")
    case False
    with Cons.prems p have rec: "execute_partitions rt run k ps st1 w1 = (st', w')" by simp
    from execute_partition_tallied [where valid = valid, OF p False] Cons.prems(2) have "tallied valid st st1" by simp
    moreover from Cons.IH [OF rec] Cons.prems(2) have "tallied valid st1 st'" by simp
    moreover have "ps_aborted st1 \<Longrightarrow> st' = st1" using rec by (simp add: execute_partitions_aborted)
    ultimately show ?thesis by (rule tallied_trans)
  qed (use Cons.prems in \<open>simp add: tallied_refl\<close>)
qed (simp add: tallied_refl)

lemma execute_phases_tallied:
  "execute_phases rt run steps k rs st w = (st', w') \<Longrightarrow>
     \<forall>j<length rs. range_in (length steps) (rs ! j) \<longrightarrow>
       (\<forall>i\<in>set (range_indices (rs ! j)). step_valid valid (k + j) (steps ! i)) \<Longrightarrow> tallied valid st st'"
proof (induction rs arbitrary: k st w)
  case (Cons r rs)
  show ?case
  proof (cases "ps_aborted st")
    case False
    show ?thesis
    proof (cases "slice (range_start r) (range_end r) steps")
      case None
      with Cons.prems(1) False show ?thesis by (auto simp: panic_tallied)
    next
      case (Some xs)
      then have "range_in (length steps) r" by (auto simp: slice_def range_in_def split: if_splits)
      with slice_range_indices [OF this] Some Cons.prems(2) have
        "\<forall>s\<in>set (concat (map partition_steps (split_phase_steps xs))). step_valid valid k s"
        by (fastforce simp: split_phase_steps_def split_phase_from_steps)
      moreover obtain st1 w1 where p: "execute_partitions rt run k (split_phase_steps xs) st w = (st1, w1)"
        by fastforce
      ultimately have "tallied valid st st1" by (blast intro: execute_partitions_tallied)
      moreover have rec: "execute_phases rt run steps (Suc k) rs st1 w1 = (st', w')"
        using Cons.prems(1) False Some p by simp
      moreover have "tallied valid st1 st'" using Cons.prems(2) by (intro Cons.IH [OF rec]) fastforce
      moreover have "ps_aborted st1 \<Longrightarrow> st' = st1" using rec by (simp add: execute_phases_aborted)
      ultimately show ?thesis by (blast intro: tallied_trans)
    qed
  qed (use Cons.prems in \<open>simp add: tallied_refl\<close>)
qed (simp add: tallied_refl)

section \<open>Missions\<close>

text \<open>Call \<open>c\<close> is a step of phase \<open>k\<close>, or (\<open>inl\<close>) a call of a loop of phase \<open>k\<close>.\<close>

definition call_in_phase :: "mission_ir \<Rightarrow> bool \<Rightarrow> nat \<Rightarrow> ir_call \<Rightarrow> bool" where
  "call_in_phase ir inl k c \<longleftrightarrow>
     k < length (ir_phases ir) \<and>
     (\<exists>i\<in>set (range_indices (ir_phases ir ! k)). i < length (ir_steps ir) \<and>
        (case ir_steps ir ! i of
           IrStepCall d \<Rightarrow> \<not> inl \<and> d = c
         | IrStepLoop l \<Rightarrow> inl \<and> IrStepCall c \<in> set (irl_body l @ irl_verify l)))"

lemma step_valid_in_phase:
  assumes "k < length (ir_phases ir)" "i \<in> set (range_indices (ir_phases ir ! k))" "i < length (ir_steps ir)"
  shows "step_valid (call_in_phase ir) k (ir_steps ir ! i)"
  using assms by (cases "ir_steps ir ! i") (auto simp: call_in_phase_def intro!: bexI [of _ i])

text \<open>The counts and the outcome of a report, from the ledger of a run that did not panic.\<close>

definition ledger_of :: "mission_ir \<Rightarrow> execution_trace \<Rightarrow> entry list \<Rightarrow> bool" where
  "ledger_of ir trace es \<longleftrightarrow>
     list_all (entry_of (call_in_phase ir)) es \<and>
     et_step_traces trace = retained (map entry_trace es) \<and>
     et_traces_truncated trace = length es - 1000 \<and>
     et_steps_completed trace = count_entries StepCompleted es \<and>
     et_steps_skipped trace = count_skips es \<and>
     et_steps_failed trace = count_entries StepFailed es +
       (if et_outcome trace = MissionAborted \<and> \<not> (\<exists>e\<in>set es. aborting e) then 1 else 0) \<and>
     ((\<exists>e\<in>set es. aborting e) \<longrightarrow> et_outcome trace = MissionAborted) \<and>
     (et_outcome trace = MissionCompleted \<longleftrightarrow> et_steps_failed trace = 0)"

end
