(* ===== verification/EalExecution.thy ===== *)
theory EalExecution
  imports EalLedger
begin

text \<open>
  Mission runs end to end: batches of calls, whole runs of compiled missions and the report they
  produce (\<open>src/eal/interpreter/mod.rs\<close>, \<open>phases.rs\<close>, \<open>trace.rs\<close>).
\<close>

section \<open>Runs and reports\<close>

lemma run_mission_phases:
  obtains run w0 w1 where "execute_phases rt run (ir_steps ir) 0 (ir_phases ir) initial_state w0 =
    (mr_state (fst (run_mission rt tn ir mission_id timeout w)), w1)"
proof -
  obtain deadline v where d: "(case timeout of
      None \<Rightarrow> (None, w)
    | Some d \<Rightarrow> (let (now, w) = rt_instant rt w in (instant_checked_add now d, w))) = (deadline, v)"
    by fastforce
  obtain t0 v1 where v1: "rt_instant rt v = (t0, v1)" by fastforce
  obtain started v2 where v2: "rt_unix_ms rt v1 = (started, v2)" by fastforce
  let ?run = "\<lparr>rc_tenant = tn, rc_trace_id = mission_id, rc_deadline = deadline\<rparr>"
  obtain st v3 where v3: "execute_phases rt ?run (ir_steps ir) 0 (ir_phases ir) initial_state v2 = (st, v3)"
    by fastforce
  from d v1 v2 v3 have "mr_state (fst (run_mission rt tn ir mission_id timeout w)) = st"
    by (simp add: run_mission_def split: prod.splits)
  with v3 that show thesis by simp
qed

lemma execute_mission_report:
  "fst (execute_mission rt tn ir mission_id timeout w) =
     build_report rt ir mission_id (fst (run_mission rt tn ir mission_id timeout w))"
  by (simp add: execute_mission_def split: prod.splits)

lemma build_report_trace:
  "cb_into_parts (ps_traces (mr_state r)) = (traces, truncated) \<Longrightarrow>
   er_trace (build_report rt ir mission_id r) =
     \<lparr>et_schema_version = EXECUTION_TRACE_SCHEMA_VERSION, et_mission_id = mission_id,
      et_mission_name = ir_name ir, et_started_at = mr_started r, et_completed_at = mr_completed_at r,
      et_total_elapsed_ms = mr_total_elapsed r, et_phase_count = length (ir_phases ir),
      et_steps_completed = ps_completed (mr_state r), et_steps_failed = ps_failed (mr_state r),
      et_steps_skipped = ps_skipped (mr_state r), et_outcome = mission_outcome_of (mr_state r),
      et_step_traces = traces, et_ability_graph = List.map_filter ability_graph_entry traces,
      et_emissions = resolve_emissions rt (ir_emits ir) (ps_captured (mr_state r)),
      et_traces_truncated = truncated\<rparr>"
  by (simp add: build_report_def Let_def)

lemma compiled_quiet:
  assumes "compile p = Inr ir"
  shows "\<not> ps_panicked (mr_state (fst (run_mission rt tn ir mission_id timeout w)))"
proof -
  obtain run w0 w1 where "execute_phases rt run (ir_steps ir) 0 (ir_phases ir) initial_state w0 =
      (mr_state (fst (run_mission rt tn ir mission_id timeout w)), w1)"
    by (rule run_mission_phases)
  from qt.execute_phases_executable_R [OF this compiled_executable [OF assms] compiled_ranges [OF assms]]
  show ?thesis by (simp add: quiet_def initial_state_def)
qed

lemma run_tallied:
  "tallied (call_in_phase ir) initial_state (mr_state (fst (run_mission rt tn ir mission_id timeout w)))"
proof -
  obtain run w0 w1 where e: "execute_phases rt run (ir_steps ir) 0 (ir_phases ir) initial_state w0 =
      (mr_state (fst (run_mission rt tn ir mission_id timeout w)), w1)"
    by (rule run_mission_phases)
  have "\<forall>j<length (ir_phases ir). range_in (length (ir_steps ir)) (ir_phases ir ! j) \<longrightarrow>
      (\<forall>i\<in>set (range_indices (ir_phases ir ! j)). step_valid (call_in_phase ir) (0 + j) (ir_steps ir ! i))"
    by (auto simp: range_in_def range_indices_def intro!: step_valid_in_phase)
  from execute_phases_tallied [OF e this] show ?thesis .
qed

lemma tallies_initial:
  assumes "tallies valid es g p initial_state st"
  shows "cb_into_parts (ps_traces st) = (retained (map entry_trace es), length es - 1000)"
proof -
  from assms buffer_log_new have "buffer_log (ps_traces st) ([] @ map entry_trace es)"
    unfolding tallies_def initial_state_def phase_state.simps by blast
  from buffer_log_parts [OF this] show ?thesis by (simp add: TRACE_CAP_HEAD_def TRACE_CAP_TAIL_def)
qed

lemma build_report_ledger:
  assumes "tallies (call_in_phase ir) es g p initial_state (mr_state r)" "\<not> ps_panicked (mr_state r)"
  shows "ledger_of ir (er_trace (build_report rt ir mission_id r)) es"
proof -
  have "\<not> p" using assms unfolding tallies_def by blast
  then have ab: "ps_aborted (mr_state r) \<longleftrightarrow> g \<or> (\<exists>e\<in>set es. aborting e)"
    and g: "g \<longrightarrow> \<not> (\<exists>e\<in>set es. aborting e)"
    and failed: "ps_failed (mr_state r) = count_entries StepFailed es + of_bool g"
    and counts: "ps_completed (mr_state r) = count_entries StepCompleted es" "ps_skipped (mr_state r) = count_skips es"
    and list: "list_all (entry_of (call_in_phase ir)) es"
    using assms(1) unfolding tallies_def by (simp_all add: initial_state_def)
  have pos: "(\<exists>e\<in>set es. aborting e) \<Longrightarrow> 0 < count_entries StepFailed es"
    by (fastforce simp: count_entries_def filter_empty_conv)
  have "ps_failed (mr_state r) = count_entries StepFailed es +
      (if ps_aborted (mr_state r) \<and> \<not> (\<exists>e\<in>set es. aborting e) then 1 else 0)"
    using ab g failed by auto
  moreover have "ps_aborted (mr_state r) \<longrightarrow> 0 < ps_failed (mr_state r)" using ab failed pos by auto
  then have "mission_outcome_of (mr_state r) = MissionAborted \<longleftrightarrow> ps_aborted (mr_state r)"
    "mission_outcome_of (mr_state r) = MissionCompleted \<longleftrightarrow> ps_failed (mr_state r) = 0"
    by (auto simp: mission_outcome_of_def)
  moreover note build_report_trace [OF tallies_initial [OF assms(1)], of rt ir mission_id]
  ultimately show ?thesis using list counts ab unfolding ledger_of_def by simp
qed

lemma mission_ledger:
  assumes "\<not> ps_panicked (mr_state (fst (run_mission rt tn ir mission_id timeout w)))"
  obtains es where "ledger_of ir (er_trace (fst (execute_mission rt tn ir mission_id timeout w))) es"
    "length es = ps_global_step (mr_state (fst (run_mission rt tn ir mission_id timeout w)))"
proof -
  from run_tallied [of ir rt tn mission_id timeout w] obtain es g p where t: "tallies (call_in_phase ir) es g p initial_state
      (mr_state (fst (run_mission rt tn ir mission_id timeout w)))"
    unfolding tallied_def by blast
  then have "length es = ps_global_step (mr_state (fst (run_mission rt tn ir mission_id timeout w)))"
    by (simp add: tallies_def initial_state_def)
  then show thesis
    using that [of es] build_report_ledger [OF t assms, of rt mission_id] unfolding execute_mission_report by blast
qed


definition demo_ir :: mission_ir where
  "demo_ir = projr (compile demo_program)"

lemma compile_demo_ir: "compile demo_program = Inr demo_ir"
  unfolding demo_ir_def by (rule demo_compiles)

definition demo_report :: "script \<Rightarrow> execution_trace" where
  "demo_report script = er_trace (fst (execute_mission (scripted_runtime script) ''default'' demo_ir ''m1'' None 0))"


section \<open>Compiled missions\<close>

text \<open>C27: A compiled mission runs without a panic, whatever the dispatcher answers: every phase range
  is a slice of the steps, a run of calls holds calls only, a loop has a final verify call and every
  completed step carries its invocation record.\<close>

theorem compiled_never_panics:
  assumes "compile p = Inr ir"
  shows "\<not> ps_panicked (mr_state (fst (run_mission rt tn ir mission_id timeout w)))"
  by (rule compiled_quiet [OF assms])

theorem compiled_never_panics_witness:
  "\<not> ps_panicked (mr_state (fst (run_mission (scripted_runtime (recovering 1)) ''default'' demo_ir ''m1'' None 0)))"
  by (rule compiled_never_panics [OF compile_demo_ir])

lemma compiled_count:
  assumes "compile p = Inr ir" "fair_schedule rt"
  shows "ps_global_step (mr_state (fst (run_mission rt tn ir mission_id timeout w))) \<le> 256"
proof -
  obtain run w0 w1 where "execute_phases rt run (ir_steps ir) 0 (ir_phases ir) initial_state w0 =
      (mr_state (fst (run_mission rt tn ir mission_id timeout w)), w1)"
    by (rule run_mission_phases)
  from execute_phases_count [OF this assms(2) compiled_ranges [OF assms(1)]] compiled_budget [OF assms(1)]
  show ?thesis by (simp add: initial_state_def)
qed



section \<open>Emissions\<close>

definition emits_defined :: "analysis \<Rightarrow> bool" where
  "emits_defined a \<longleftrightarrow>
     (\<forall>e\<in>set (a_emits a). \<forall>b. ire_value e = EmitBinding b \<longrightarrow> b \<in> dom (a_symbols a))"

lemma analyze_emit_binding:
  "analyze_emit e syms = Inr ire \<Longrightarrow> ire_value ire = EmitBinding b \<Longrightarrow> b \<in> dom syms"
  by (cases "emit_value e") (auto simp: analyze_emit_def emit_value_to_ir_def result_simps)

lemma emits_defined_mono: "emits_defined a \<Longrightarrow> dom (a_symbols a) \<subseteq> dom syms \<Longrightarrow>
    emits_defined (a\<lparr>a_symbols := syms, a_anon := anon, a_items := its\<rparr>)"
  unfolding emits_defined_def by (simp add: subset_iff)

lemma analyze_statements_emits:
  assumes "analyze_statements allow_emit ss a = Inr a'" "emits_defined a"
  shows "emits_defined a'"
  using assms
proof (rule analyze_statements_invariant [where P = emits_defined])
  fix b c a st syms anon
  assume "emits_defined a" "analyze_call b c (a_symbols a) (a_anon a) (length (a_items a)) = Inr (st, syms, anon)"
  then show "emits_defined (a\<lparr>a_symbols := syms, a_anon := anon, a_items := a_items a @ [AnCall st]\<rparr>)"
    by (intro emits_defined_mono) (auto dest!: analyze_call_Inr split: option.splits if_splits)
next
  fix l a syms anon and lp :: analyzed_loop
  assume "emits_defined a" "case al_result_binding lp of None \<Rightarrow> syms = a_symbols a
    | Some b \<Rightarrow> a_symbols a b = None \<and> syms = (a_symbols a)(b \<mapsto> length (a_items a))"
  then show "emits_defined (a\<lparr>a_symbols := syms, a_anon := anon, a_items := a_items a @ [AnLoop lp]\<rparr>)"
    by (intro emits_defined_mono) (auto split: option.splits if_splits)
next
  fix e a ire
  assume "emits_defined a" "analyze_emit e (a_symbols a) = Inr ire"
  then show "emits_defined (a\<lparr>a_emits := a_emits a @ [ire]\<rparr>)"
    using analyze_emit_binding [of e "a_symbols a" ire] by (auto simp: emits_defined_def)
qed

lemma analyze_mission_emits:
  assumes "analyze_mission p = Inr am" "e \<in> set (am_emits am)" "ire_value e = EmitBinding b"
  shows "b \<in> set (item_bindings (am_items am))"
proof -
  let ?init = "\<lparr>a_symbols = seed_symbols 0 [] Map.empty, a_anon = 0, a_items = [], a_emits = []\<rparr>"
  from assms(1) obtain a where a: "analyze_statements True (statements (mission p)) ?init = Inr a"
    "am_items am = a_items a" "am_emits am = a_emits a"
    by (auto simp: analyze_mission_def result_simps)
  have "emits_defined a" by (rule analyze_statements_emits [OF a(1)]) (simp add: emits_defined_def)
  moreover have "analysis_ok [] a" by (rule analyze_statements_ok [OF a(1)]) (simp add: analysis_ok_def)
  ultimately show ?thesis using a assms(2,3) by (auto simp: emits_defined_def analysis_ok_def)
qed

lemma compiled_emit_bindings:
  assumes "compile p = Inr ir" "e \<in> set (ir_emits ir)" "ire_value e = EmitBinding b"
  shows "\<exists>r\<in>set (ir_phases ir). \<exists>j\<in>set (range_indices r). step_binding (ir_steps ir ! j) = Some b"
proof -
  from compile_compiled [OF assms(1)] obtain am ordered phase_of where am: "analyze_mission p = Inr am"
    and c: "compiled_from (am_items am) ordered phase_of ir" and em: "ir_emits ir = am_emits am" by blast
  from analyze_mission_emits [OF am, of e b] assms(2,3) em obtain i where
    i: "i < length (am_items am)" "item_binding (am_items am ! i) = Some b"
    by (auto simp: set_item_bindings)
  from c have sched: "schedule_ok (am_items am) ordered phase_of (length (ir_phases ir))"
    and low: "list_all2 (\<lambda>i st. lower_item (am_items am ! i) = Inr st) ordered (ir_steps ir)"
    and cat: "concat (map range_indices (ir_phases ir)) = [0..<length (ir_steps ir)]"
    by (simp_all add: compiled_from_def)
  from i(1) schedule_ok_ordered(2) [OF sched] obtain j where j: "j < length ordered" "ordered ! j = i"
    by (metis in_set_conv_nth lessThan_iff)
  then have "step_binding (ir_steps ir ! j) = Some b" "j < length (ir_steps ir)"
    using list_all2_nthD [OF low, of j] list_all2_lengthD [OF low] i(2) lower_item_binding by auto
  with concat_ranges [OF cat] show ?thesis by (metis nth_mem)
qed

lemma resolve_emission_fields:
  "em_name (resolve_emission rt captured i e) = ire_name e" "em_seq (resolve_emission rt captured i e) = Suc i"
  by (simp_all add: resolve_emission_def split: ir_emit_value.split option.split)

lemma resolve_emissions_maps:
  "map em_name (resolve_emissions rt emits captured) = map ire_name emits"
  "map em_seq (resolve_emissions rt emits captured) = [1..<length emits + 1]"
proof -
  have "map em_name (resolve_emissions rt emits captured) = map (ire_name \<circ> snd) (enumerate 0 emits)"
    "map em_seq (resolve_emissions rt emits captured) = map (Suc \<circ> fst) (enumerate 0 emits)"
    by (auto simp: resolve_emissions_def resolve_emission_fields)
  then show "map em_name (resolve_emissions rt emits captured) = map ire_name emits"
    "map em_seq (resolve_emissions rt emits captured) = [1..<length emits + 1]"
    by (simp_all add: map_Suc_upt flip: map_map)
qed

lemma resolve_emission_error:
  assumes "em \<in> set (resolve_emissions rt emits captured)" "em_error em \<noteq> None"
  shows "\<exists>e\<in>set emits. \<exists>b. ire_value e = EmitBinding b \<and> em_source_binding em = Some b \<and> captured b = None"
proof -
  from assms(1) obtain i where "i < length emits" "em = resolve_emission rt captured i (emits ! i)"
    by (auto simp: resolve_emissions_def in_set_enumerate_eq)
  then have "emits ! i \<in> set emits" "em = resolve_emission rt captured i (emits ! i)" by simp_all
  with assms(2) show ?thesis
    by (auto simp: resolve_emission_def split: ir_emit_value.splits option.splits)
qed

text \<open>Every emit statement of a compiled mission gives one emission, in source order and numbered
  from one; after a run without failures an emission lacks its value only when the step that produces
  the binding it names was skipped.\<close>

theorem emissions_resolved:
  assumes "compile p = Inr ir" and "fair_schedule rt"
    and "r = fst (run_mission rt tn ir mission_id timeout w)"
    and "ps_failed (mr_state r) = 0" and "\<not> ps_aborted (mr_state r)"
    and "emissions = et_emissions (er_trace (build_report rt ir mission_id r))"
  shows "map em_name emissions = map ire_name (ir_emits ir) \<and> map em_seq emissions = [1..<length (ir_emits ir) + 1] \<and>
    (\<forall>em\<in>set emissions. em_error em = None \<or>
       (\<exists>b\<in>ps_skipped_bindings (mr_state r). em_source_binding em = Some b))"
proof -
  have em: "emissions = resolve_emissions rt (ir_emits ir) (ps_captured (mr_state r))"
    by (simp add: assms(6) build_report_def Let_def split: prod.splits)
  obtain run w0 w1 where run:
    "execute_phases rt run (ir_steps ir) 0 (ir_phases ir) initial_state w0 = (mr_state r, w1)"
    unfolding assms(3) by (rule run_mission_phases)
  have "\<exists>b\<in>ps_skipped_bindings (mr_state r). em_source_binding x = Some b"
    if x: "x \<in> set emissions" "em_error x \<noteq> None" for x
  proof -
    from resolve_emission_error [OF x(1) [unfolded em] x(2)] obtain e b where
      e: "e \<in> set (ir_emits ir)" "ire_value e = EmitBinding b" "em_source_binding x = Some b"
      "ps_captured (mr_state r) b = None" by blast
    from compiled_emit_bindings [OF assms(1) e(1,2)] obtain q j where
      "q \<in> set (ir_phases ir)" "j \<in> set (range_indices q)" "step_binding (ir_steps ir ! j) = Some b" by blast
    from execute_phases_covers [OF run assms(2,5) compiled_ranges [OF assms(1)] this] e assms(4)
    show ?thesis by (auto simp: covered_def)
  qed
  then have "\<forall>x\<in>set emissions. em_error x = None \<or> (\<exists>b\<in>ps_skipped_bindings (mr_state r). em_source_binding x = Some b)"
    by blast
  then show ?thesis by (simp add: em resolve_emissions_maps)
qed

text \<open>One call and one emit.\<close>

definition tiny_program :: eal_program where
  "tiny_program =
     \<lparr>mission = \<lparr>mission_name = ''tiny'', statements =
        [LetCall ''b'' (device_call ''fetch'' []),
         EmitStmt \<lparr>emit_name = ''out'', emit_kind = ''text'', emit_value = VarRef ''b''\<rparr>]\<rparr>\<rparr>"

definition tiny_finished :: mission_run where
  "tiny_finished =
     fst (run_mission (scripted_runtime (recovering 0)) ''default'' (projr (compile tiny_program)) ''m1'' None 0)"

definition tiny_state :: phase_state where
  "tiny_state =
     fst (execute_phases (scripted_runtime (recovering 0))
       \<lparr>rc_tenant = ''default'', rc_trace_id = ''m1'', rc_deadline = None\<rparr> (ir_steps (projr (compile tiny_program))) 0
       (ir_phases (projr (compile tiny_program))) initial_state 0)"

theorem emissions_resolved_witness:
  "map em_name (et_emissions (er_trace
     (build_report (scripted_runtime (recovering 0)) (projr (compile tiny_program)) ''m1'' tiny_finished))) =
     [''out'']"
proof -
  have ir: "compile tiny_program = Inr (projr (compile tiny_program))"
  proof -
    have "\<not> isl (compile tiny_program)" by code_simp
    then show ?thesis by simp
  qed
  have "map ire_name (ir_emits (projr (compile tiny_program))) = [''out'']" by code_simp
  moreover have "mr_state tiny_finished = tiny_state"
    by (simp add: tiny_finished_def tiny_state_def run_mission_def scripted_runtime_def split: prod.splits)
  moreover have "ps_failed tiny_state = 0 \<and> \<not> ps_aborted tiny_state" by code_simp
  ultimately show ?thesis
    using emissions_resolved [OF ir fair_scripted tiny_finished_def _ _ HOL.refl] by simp
qed

text \<open>The trace buffer is a bounded view of a log: after any sequence of pushes it returns the first
  500 and the last 500 entries in order, everything when there are at most 1000, and the number of
  entries it dropped.\<close>

theorem trace_buffer_refines:
  "cb_into_parts (fold cb_push xs cb_new) = (retained xs, length xs - 1000) \<and>
   length (retained xs) = min (length xs) 1000"
proof -
  have "buffer_log b ys \<Longrightarrow> buffer_log (fold cb_push xs b) (ys @ xs)" for b ys
  proof (induction xs arbitrary: b ys)
    case (Cons x xs)
    from Cons.IH [OF buffer_log_push [OF Cons.prems, of x]] show ?case by simp
  qed simp
  from buffer_log_parts [OF this [OF buffer_log_new]] length_retained [of xs] show ?thesis
    by (simp add: TRACE_CAP_HEAD_def TRACE_CAP_TAIL_def)
qed

section \<open>Failure policies\<close>

text \<open>C37: The policy of a failing step decides what its failure means: an optional or skip step is
  skipped and its binding marked, so that its consumers are skipped too; a continue or retry step
  counts as failed and the mission goes on; an abort step counts as failed and aborts the mission. No
  failure captures anything.\<close>

theorem failure_policy:
  assumes "step = steps ! i"
    and "process_result rt steps phase_idx (i, ExecError msg el started n hist) st w = (st', w')"
  shows "ps_captured st' = ps_captured st \<and>
    (if ir_optional step \<or> ir_on_failure step = IrSkip
     then ps_skipped st' = ps_skipped st + 1 \<and> ps_failed st' = ps_failed st \<and> ps_aborted st' = ps_aborted st \<and>
       ps_skipped_bindings st' = set_option (output_binding step) \<union> ps_skipped_bindings st
     else ps_skipped st' = ps_skipped st \<and> ps_failed st' = ps_failed st + 1 \<and>
       ps_skipped_bindings st' = ps_skipped_bindings st \<and>
       ps_aborted st' = (ps_aborted st \<or> ir_on_failure step = IrAbort))"
proof -
  obtain t w1 where "process_result rt steps phase_idx (i, ExecError msg el started n hist) st w =
      (record_result step (ExecError msg el started n hist) t st, w1)"
    using process_result_record [of rt steps phase_idx i "ExecError msg el started n hist" st w] assms(1) by blast
  with assms(2) show ?thesis by (auto simp: record_result_def res_outcome_def Let_def)
qed

theorem failure_policy_witness:
  "ps_skipped_bindings (fst (process_result (scripted_runtime (recovering 0))
     [demo_call ''a'' [] (Some ''x'') IrSkip] 0 (0, ExecError ''e'' 0 0 0 []) initial_state 0)) = {''x''}"
  using failure_policy [where steps = "[demo_call ''a'' [] (Some ''x'') IrSkip]" and i = 0 and
      rt = "scripted_runtime (recovering 0)" and phase_idx = 0 and msg = "''e''" and el = 0 and started = 0 and
      n = 0 and hist = "[]" and st = initial_state and w = 0, OF HOL.refl prod.collapse [symmetric]]
  by (simp add: demo_call_def initial_state_def)

end
