(* ===== verification/EalParallel.thy ===== *)
theory EalParallel
  imports EalBatch
begin

text \<open>
  Parallel phases (\<open>src/eal/interpreter/phases.rs\<close>): a batch answers its steps once each and in step
  order, and with a deterministic environment running the calls of a phase on the thread pool gives the
  report of running them one after the other.
\<close>

named_theorems concurrency_free

section \<open>What does not look at the concurrency of the dispatcher\<close>

lemma runtime_concurrency_free [concurrency_free]:
  "rt_dispatch (rt\<lparr>rt_concurrency := c\<rparr>) = rt_dispatch rt" "rt_clone (rt\<lparr>rt_concurrency := c\<rparr>) = rt_clone rt"
  "rt_schedule (rt\<lparr>rt_concurrency := c\<rparr>) = rt_schedule rt" "rt_instant (rt\<lparr>rt_concurrency := c\<rparr>) = rt_instant rt"
  "rt_unix_ms (rt\<lparr>rt_concurrency := c\<rparr>) = rt_unix_ms rt" "rt_sleep (rt\<lparr>rt_concurrency := c\<rparr>) = rt_sleep rt"
  "rt_sha256 (rt\<lparr>rt_concurrency := c\<rparr>) = rt_sha256 rt" "rt_from_slice (rt\<lparr>rt_concurrency := c\<rparr>) = rt_from_slice rt"
  "rt_to_vec (rt\<lparr>rt_concurrency := c\<rparr>) = rt_to_vec rt" "rt_display_json (rt\<lparr>rt_concurrency := c\<rparr>) = rt_display_json rt"
  "rt_utf8_lossy (rt\<lparr>rt_concurrency := c\<rparr>) = rt_utf8_lossy rt"
  by simp_all

lemma step_concurrency_free [concurrency_free]:
  "elapsed_ms (rt\<lparr>rt_concurrency := c\<rparr>) = elapsed_ms rt"
  "compute_backoff (rt\<lparr>rt_concurrency := c\<rparr>) = compute_backoff rt"
  "backoff_sleep (rt\<lparr>rt_concurrency := c\<rparr>) = backoff_sleep rt"
  "effective_dispatch_timeout_ms (rt\<lparr>rt_concurrency := c\<rparr>) = effective_dispatch_timeout_ms rt"
  "unresolved_result (rt\<lparr>rt_concurrency := c\<rparr>) = unresolved_result rt"
  "verify_output_done (rt\<lparr>rt_concurrency := c\<rparr>) = verify_output_done rt"
  "decode_emitted_value (rt\<lparr>rt_concurrency := c\<rparr>) = decode_emitted_value rt"
  "fair_schedule (rt\<lparr>rt_concurrency := c\<rparr>) = fair_schedule rt"
  unfolding fun_eq_iff elapsed_ms_def compute_backoff_def backoff_jitter_def backoff_sleep_def
    effective_dispatch_timeout_ms_def unresolved_result_def verify_output_done_def
    peel_shell_envelope_def decode_emitted_value_def fair_schedule_def concurrency_free
  by simp_all

lemma attempt_loop_concurrency_free [concurrency_free]:
  "attempt_loop (rt\<lparr>rt_concurrency := c\<rparr>) run step args deps t0 started n k hist w =
     attempt_loop rt run step args deps t0 started n k hist w"
proof (induction n arbitrary: k hist w)
  case (Suc n)
  show ?case unfolding attempt_loop.simps concurrency_free Suc by (rule refl)
qed (simp add: concurrency_free)

lemma execute_step_concurrency_free [concurrency_free]:
  "execute_step_with_retry (rt\<lparr>rt_concurrency := c\<rparr>) = execute_step_with_retry rt"
  unfolding fun_eq_iff execute_step_with_retry_def concurrency_free by simp

lemma resolve_refs_concurrency_free [concurrency_free]:
  "resolve_refs (rt\<lparr>rt_concurrency := c\<rparr>) results skipped refs m = resolve_refs rt results skipped refs m"
  by (induction refs arbitrary: m) (auto split: sum.splits option.splits)

lemma resolve_arguments_concurrency_free [concurrency_free]:
  "resolve_arguments (rt\<lparr>rt_concurrency := c\<rparr>) = resolve_arguments rt"
  unfolding fun_eq_iff resolve_arguments_def concurrency_free concurrency_free by simp

lemma process_result_concurrency_free [concurrency_free]:
  "process_result (rt\<lparr>rt_concurrency := c\<rparr>) = process_result rt"
  unfolding fun_eq_iff process_result_def process_step_result_def concurrency_free by simp

lemma process_batch_concurrency_free [concurrency_free]:
  "process_batch (rt\<lparr>rt_concurrency := c\<rparr>) steps phase_idx rs st w = process_batch rt steps phase_idx rs st w"
proof (induction rs arbitrary: st w)
  case (Cons r rs)
  show ?case unfolding process_batch.simps concurrency_free Cons by (rule refl)
qed simp

lemma process_in_scope_concurrency_free [concurrency_free]:
  "process_in_scope (rt\<lparr>rt_concurrency := c\<rparr>) = process_in_scope rt"
  unfolding fun_eq_iff process_in_scope_def concurrency_free by simp

lemma run_loop_block_concurrency_free [concurrency_free]:
  "run_loop_block (rt\<lparr>rt_concurrency := c\<rparr>) run steps phase_idx i st sc w =
     run_loop_block rt run steps phase_idx i st sc w"
proof (induction "length steps - i" arbitrary: i st sc w)
  case 0
  then show ?case unfolding run_loop_block.simps [of _ run steps phase_idx i] by simp
next
  case (Suc n)
  have rec: "run_loop_block (rt\<lparr>rt_concurrency := c\<rparr>) run steps phase_idx (Suc i) st sc w =
      run_loop_block rt run steps phase_idx (Suc i) st sc w" for st sc w
    using Suc.hyps(2) by (intro Suc.hyps(1)) simp
  show ?case
    unfolding run_loop_block.simps [of _ run steps phase_idx i] concurrency_free rec by (rule refl)
qed

lemma loop_iterations_concurrency_free [concurrency_free]:
  "loop_iterations (rt\<lparr>rt_concurrency := c\<rparr>) run rb body verify phase_idx n st w =
     loop_iterations rt run rb body verify phase_idx n st w"
proof (induction n arbitrary: st w)
  case (Suc n)
  show ?case unfolding loop_iterations.simps concurrency_free Suc by (rule refl)
qed simp

lemma execute_loop_concurrency_free [concurrency_free]:
  "execute_loop (rt\<lparr>rt_concurrency := c\<rparr>) = execute_loop rt"
  unfolding fun_eq_iff execute_loop_def concurrency_free concurrency_free by simp

lemma step_result_concurrency_free [concurrency_free]:
  "step_result (rt\<lparr>rt_concurrency := c\<rparr>) = step_result rt"
  unfolding fun_eq_iff step_result_def concurrency_free concurrency_free by simp

section \<open>The whole run\<close>

lemma dispatch_batch_any:
  assumes "fair_schedule rt" "rt_clone rt () = (Inr (), ())" "sorted is" "distinct is"
  shows "dispatch_batch (rt\<lparr>rt_concurrency := c\<rparr>) rq is par () = dispatch_batch rt rq is par' ()"
proof -
  have "dispatch_batch (rt\<lparr>rt_concurrency := c\<rparr>) rq is par () =
      (map (\<lambda>i. (i, step_result (rt\<lparr>rt_concurrency := c\<rparr>) rq i)) is, ())"
    by (rule dispatch_batch_unit) (use assms in \<open>simp_all add: concurrency_free\<close>)
  then show ?thesis using dispatch_batch_unit [OF assms, of rq par'] by (simp add: concurrency_free)
qed

lemma execute_calls_any:
  assumes "fair_schedule rt" "rt_clone rt () = (Inr (), ())"
  shows "execute_calls_phase_partition (rt\<lparr>rt_concurrency := c\<rparr>) run steps phase_idx st () =
    execute_calls_phase_partition rt run steps phase_idx st ()"
proof -
  let ?req = "filter (\<lambda>i. \<not> ir_optional (steps ! i)) [0..<length steps]"
  let ?opt = "filter (\<lambda>i. ir_optional (steps ! i)) [0..<length steps]"
  have "sorted ?req" "sorted ?opt" "distinct ?req" "distinct ?opt"
    by (simp_all add: sorted_filter [of id, simplified])
  note any = dispatch_batch_any [OF assms this(1,3)] dispatch_batch_any [OF assms this(2,4)]
  have "dispatch_batch (rt\<lparr>rt_concurrency := c\<rparr>) rq ?req par w = dispatch_batch rt rq ?req par' w"
    "dispatch_batch (rt\<lparr>rt_concurrency := c\<rparr>) rq ?opt par w = dispatch_batch rt rq ?opt par' w" for rq par par' w
    using any by (cases w; simp)+
  note eq = this [where par' = "length steps > 1 \<and> rt_concurrency rt = Parallel"]
  show ?thesis unfolding execute_calls_phase_partition_def Let_def eq concurrency_free by (rule refl)
qed

lemma execute_partitions_any:
  assumes "fair_schedule rt" "rt_clone rt () = (Inr (), ())"
  shows "execute_partitions (rt\<lparr>rt_concurrency := c\<rparr>) run phase_idx ps st w = execute_partitions rt run phase_idx ps st w"
proof (induction ps arbitrary: st w)
  case (Cons p ps)
  have calls: "execute_calls_phase_partition (rt\<lparr>rt_concurrency := c\<rparr>) run steps phase_idx st w =
      execute_calls_phase_partition rt run steps phase_idx st w" for steps st w
    using execute_calls_any [OF assms] by (cases w) simp
  show ?case unfolding execute_partitions.simps execute_partition_def concurrency_free calls Cons by (rule refl)
qed simp

lemma execute_phases_any:
  assumes "fair_schedule rt" "rt_clone rt () = (Inr (), ())"
  shows "execute_phases (rt\<lparr>rt_concurrency := c\<rparr>) run steps k rs st w = execute_phases rt run steps k rs st w"
proof (induction rs arbitrary: k st w)
  case (Cons r rs)
  show ?case unfolding execute_phases.simps execute_partitions_any [OF assms] Cons by (rule refl)
qed simp

section \<open>Properties\<close>

text \<open>C31: A batch answers every step it was given exactly once and in step order, in whatever order the
  workers of the pool finish and whichever of them fail.\<close>

theorem batch_answers_in_order:
  assumes "fair_schedule rt" and "sorted is"
  shows "map fst (fst (dispatch_batch rt rq is par w)) = is"
  using dispatch_batch_indices [OF prod.collapse [symmetric] assms] .

theorem batch_answers_in_order_witness:
  "map fst (fst (dispatch_batch (scripted_runtime (recovering 1))
     (batch_of (demo_run None) [demo_call ''a'' [] None IrRetry, demo_call ''b'' [] None IrSkip] initial_state)
     [0, 1] True 0)) = [0, 1]"
  using batch_answers_in_order [OF fair_scripted, of "[0, 1]"] by simp


definition constant_runtime :: "unit runtime" where
  "constant_runtime =
     \<lparr>rt_dispatch = (\<lambda>run target abil args timeout deps w.
        (Inr \<lparr>do_value = done_object True, do_invocation = demo_record ''i'' deps\<rparr>, w)),
      rt_concurrency = Parallel, rt_clone = (\<lambda>w. (Inr (), w)), rt_schedule = (\<lambda>xs w. rev xs),
      rt_instant = (\<lambda>w. (0, w)), rt_unix_ms = (\<lambda>w. (0, w)), rt_sleep = (\<lambda>ms w. w),
      rt_sha256 = (\<lambda>s. s), rt_from_slice = demo_decode, rt_to_vec = demo_encode,
      rt_display_json = (\<lambda>v. ''value''), rt_utf8_lossy = (\<lambda>s. s)\<rparr>"


end
