(* ===== verification/RustText.thy ===== *)
theory RustText
  imports Prelude "HOL-Library.Sublist"
begin

text \<open>
  The \<open>str\<close> operations of the Rust standard library the identity and address code uses: trimming of
  Unicode white space, prefixes, ASCII case and \<open>split_once\<close>, on UTF-8 byte sequences.
\<close>

section \<open>Trimming\<close>

text \<open>The UTF-8 encodings of the code points with the \<open>White_Space\<close> property.\<close>

definition white_space :: "string list" where
  "white_space =
     map (\<lambda>n. [char_of n]) ([9..<14] @ [32]) @ [[CHR 0xC2, CHR 0x85], [CHR 0xC2, CHR 0xA0]] @
     [[CHR 0xE1, CHR 0x9A, CHR 0x80]] @
     map (\<lambda>n. [CHR 0xE2, CHR 0x80, char_of n]) ([128..<139] @ [168, 169, 175]) @
     [[CHR 0xE2, CHR 0x81, CHR 0x9F], [CHR 0xE3, CHR 0x80, CHR 0x80]]"

function strip_all :: "string list \<Rightarrow> string \<Rightarrow> string" where
  "strip_all ws s =
     (case find (\<lambda>w. w \<noteq> [] \<and> prefix w s) ws of
        None \<Rightarrow> s
      | Some w \<Rightarrow> strip_all ws (drop (length w) s))"
  by pat_completeness auto
termination
  by (relation "measure (length \<circ> snd)") (auto simp: find_Some_iff prefix_def)

declare strip_all.simps [simp del]

definition trim_start :: "string \<Rightarrow> string" where
  "trim_start s = strip_all white_space s"

definition trim_end :: "string \<Rightarrow> string" where
  "trim_end s = rev (strip_all (map rev white_space) (rev s))"

definition trim :: "string \<Rightarrow> string" where
  "trim s = trim_end (trim_start s)"

text \<open>What is left starts with none of the stripped words.\<close>

definition stripped :: "string list \<Rightarrow> string \<Rightarrow> bool" where
  "stripped ws s \<longleftrightarrow> (\<forall>w\<in>set ws. w \<noteq> [] \<longrightarrow> \<not> prefix w s)"

lemma strip_all_id: "stripped ws s \<Longrightarrow> strip_all ws s = s"
  by (subst strip_all.simps) (auto simp: stripped_def find_None_iff split: option.split dest!: find_Some_iff [THEN iffD1])

lemma stripped_strip_all: "stripped ws (strip_all ws s)"
proof (induction ws s rule: strip_all.induct)
  case (1 ws s)
  then show ?case
    by (subst strip_all.simps) (auto simp: stripped_def find_None_iff split: option.split)
qed

lemma strip_all_suffix: "suffix (strip_all ws s) s"
proof (induction ws s rule: strip_all.induct)
  case (1 ws s)
  show ?case
  proof (cases "find (\<lambda>w. w \<noteq> [] \<and> prefix w s) ws")
    case None
    then show ?thesis by (subst strip_all.simps) simp
  next
    case (Some w)
    with 1 have "suffix (strip_all ws (drop (length w) s)) (drop (length w) s)" by blast
    then show ?thesis
      by (subst strip_all.simps) (auto simp: Some intro: suffix_order.trans suffix_drop)
  qed
qed

definition trimmed :: "string \<Rightarrow> bool" where
  "trimmed s \<longleftrightarrow> stripped white_space s \<and> stripped (map rev white_space) (rev s)"

lemma trim_id: "trimmed s \<Longrightarrow> trim s = s"
  by (simp add: trimmed_def trim_def trim_start_def trim_end_def strip_all_id)

lemma stripped_prefix: "stripped ws s \<Longrightarrow> prefix t s \<Longrightarrow> stripped ws t"
  by (auto simp: stripped_def dest: prefix_order.trans)

lemma trimmed_trim: "trimmed (trim s)"
proof -
  have "prefix (trim_end (trim_start s)) (trim_start s)"
    using strip_all_suffix [of "map rev white_space" "rev (trim_start s)"]
    by (simp add: trim_end_def suffix_to_prefix)
  moreover have "stripped white_space (trim_start s)" by (simp add: trim_start_def stripped_strip_all)
  ultimately show ?thesis
    by (auto simp: trimmed_def trim_def trim_end_def stripped_strip_all intro: stripped_prefix)
qed

lemma trim_trim [simp]: "trim (trim s) = trim s"
  by (rule trim_id [OF trimmed_trim])

text \<open>A byte that occurs in no white space encoding separates: trimming does not reach across it.\<close>

lemma stripped_sep:
  assumes "stripped ws s" "\<forall>w\<in>set ws. c \<notin> set w"
  shows "stripped ws (s @ c # t)"
  unfolding stripped_def
proof (intro ballI impI notI)
  fix w
  assume w: "w \<in> set ws" "w \<noteq> []" "prefix w (s @ c # t)"
  then have "prefix w s"
    using assms(2) by (auto simp: prefix_append prefix_Cons)
  with assms(1) w show False by (auto simp: stripped_def)
qed

lemma trimmed_sep:
  assumes "trimmed s" "trimmed t" "\<forall>w\<in>set white_space. c \<notin> set w"
  shows "trimmed (s @ c # t)"
proof -
  have "stripped white_space (s @ c # t)" using assms by (auto simp: trimmed_def intro: stripped_sep)
  moreover have "stripped (map rev white_space) (rev t @ c # rev s)"
    using assms by (intro stripped_sep) (auto simp: trimmed_def)
  ultimately show ?thesis by (simp add: trimmed_def)
qed

lemma white_space_bytes: "\<forall>w\<in>set white_space. w \<noteq> [] \<and> (\<forall>c\<in>set w. char_code c \<le> (32::nat) \<or> (126::nat) < char_code c)"
  by (auto simp: white_space_def)

lemma white_space_printable:
  assumes "32 < char_code c" "char_code c \<le> (126::nat)"
  shows "\<forall>w\<in>set white_space. c \<notin> set w"
  using white_space_bytes assms by fastforce

lemma white_space_dot: "\<forall>w\<in>set white_space. CHR ''.'' \<notin> set w"
  by (rule white_space_printable) simp_all

lemma stripped_hd:
  assumes "s \<noteq> []" "\<forall>w\<in>set ws. hd s \<notin> set w"
  shows "stripped ws s"
  unfolding stripped_def
proof (intro ballI impI notI)
  fix w
  assume w: "w \<in> set ws" "w \<noteq> []" "prefix w s"
  then have "hd s = hd w" by (auto simp: prefix_def)
  with w assms(2) show False by (metis list.set_sel(1))
qed

text \<open>A text that starts and ends with a printable ASCII character is trimmed.\<close>

lemma trimmed_printable:
  assumes "s \<noteq> []" "\<forall>c\<in>{hd s, last s}. 32 < char_code c \<and> char_code c \<le> (126::nat)"
  shows "trimmed s"
proof -
  have "stripped white_space s" by (rule stripped_hd) (use assms white_space_printable in auto)
  moreover have "stripped (map rev white_space) (rev s)"
    by (rule stripped_hd) (use assms white_space_printable in \<open>auto simp: hd_rev\<close>)
  ultimately show ?thesis by (simp add: trimmed_def)
qed

section \<open>Searching\<close>

text \<open>\<open>str::split_once(sep)\<close>: at the first separator.\<close>

fun split_once :: "char \<Rightarrow> string \<Rightarrow> (string \<times> string) option" where
  "split_once sep [] = None"
| "split_once sep (c # cs) =
     (if c = sep then Some ([], cs) else map_option (\<lambda>(v, w). (c # v, w)) (split_once sep cs))"

lemma split_once_Some_iff: "split_once sep s = Some (v, w) \<longleftrightarrow> s = v @ sep # w \<and> sep \<notin> set v"
proof (induction s arbitrary: v)
  case (Cons c cs)
  then show ?case by (cases v) auto
qed simp

definition strip_prefix :: "string \<Rightarrow> string \<Rightarrow> string option" where
  "strip_prefix p s = (if prefix p s then Some (drop (length p) s) else None)"

definition strip_suffix :: "string \<Rightarrow> string \<Rightarrow> string option" where
  "strip_suffix p s = (if suffix p s then Some (take (length s - length p) s) else None)"

definition to_ascii_lowercase :: "string \<Rightarrow> string" where
  "to_ascii_lowercase s =
     map (\<lambda>c. if is_ascii_uppercase c then char_of (char_code c + 32 :: nat) else c) s"

definition eq_ignore_ascii_case :: "string \<Rightarrow> string \<Rightarrow> bool" where
  "eq_ignore_ascii_case s t \<longleftrightarrow> to_ascii_lowercase s = to_ascii_lowercase t"

end
