(* ===== verification/Ura.thy ===== *)
theory Ura
  imports RustText
begin

text \<open>
  The CLI facade over Axon's universal resource addresses (\<open>src/core/ura/mod.rs\<close>). The grammar itself
  belongs to \<open>axon_sdk::ura\<close>: its parser and builders are the fields of an \<open>ura_api\<close>, the argument of
  every operation here. What the facade adds are the ability selectors, the owner-local names and the
  scope labels.
\<close>

section \<open>The Axon address API\<close>

datatype ura_kind =
    KAuthority | KDevice | KUser | KService | KAgent | KAbility | KResource | KUnknown

datatype ability_owner =
    OwnerAgent string string
  | OwnerService string string
  | OwnerSystemAgent string string
  | OwnerDevice string
  | OwnerAuthority

text \<open>\<open>URAParts\<close> with its accessors.\<close>

record ura_parts =
  up_realm :: string
  up_kind :: ura_kind
  up_user_id :: "string option"
  up_device_id :: "string option"
  up_agent_ids :: "(string \<times> string) option"
  up_device_agent_ids :: "(string \<times> string) option"
  up_ability :: "ability_owner option"
  up_ability_name :: "string option"
  up_resource_owner_id :: "string option"
  up_resource_path :: "string option"

record ura_api =
  parse_ura :: "string \<Rightarrow> string + ura_parts"
  authority_ura :: "string \<Rightarrow> string"
  authority_ability_ura :: "string \<Rightarrow> string \<Rightarrow> string"
  agent_ura :: "string \<Rightarrow> string \<Rightarrow> string \<Rightarrow> string"
  service_ura :: "string \<Rightarrow> string \<Rightarrow> string \<Rightarrow> string"
  device_agent_ura :: "string \<Rightarrow> string \<Rightarrow> string \<Rightarrow> string"
  device_ura :: "string \<Rightarrow> string \<Rightarrow> string"
  resource_dot_ura :: "string \<Rightarrow> string \<Rightarrow> string \<Rightarrow> string"
  ability_owner_identity_ura :: "string \<Rightarrow> string option"

definition parsed :: "ura_api \<Rightarrow> string \<Rightarrow> ura_parts option" where
  "parsed api u = (case parse_ura api u of Inl _ \<Rightarrow> None | Inr p \<Rightarrow> Some p)"

section \<open>Projections\<close>

definition realm_from_ura :: "ura_api \<Rightarrow> string \<Rightarrow> string option" where
  "realm_from_ura api u = map_option up_realm (parsed api u)"

definition user_realm_from_ura :: "ura_api \<Rightarrow> string \<Rightarrow> string option" where
  "user_realm_from_ura api u =
     (case parsed api u of
        None \<Rightarrow> None
      | Some p \<Rightarrow> if up_kind p = KUser then Some (up_realm p) else None)"

definition device_ephemeral_resource_ura :: "ura_api \<Rightarrow> string \<Rightarrow> string \<Rightarrow> string \<Rightarrow> string option" where
  "device_ephemeral_resource_ura api dev category resource_id =
     (case parsed api dev of
        None \<Rightarrow> None
      | Some device \<Rightarrow>
          (if up_kind device \<noteq> KDevice \<or> trim category = [] \<or> trim resource_id = [] then None
           else
             (case up_device_id device of
                None \<Rightarrow> None
              | Some i \<Rightarrow>
                  Some (resource_dot_ura api (up_realm device) (''device.'' @ i)
                    (category @ ''/'' @ resource_id)))))"

definition URA_KIND_SCOPE_LABELS :: "string list" where
  "URA_KIND_SCOPE_LABELS =
     [''authority'', ''device'', ''user'', ''service'', ''agent'', ''ability'', ''resource'']"

definition ura_kind_scope_label :: "ura_kind \<Rightarrow> string" where
  "ura_kind_scope_label k =
     (case k of
        KAuthority \<Rightarrow> ''authority'' | KDevice \<Rightarrow> ''device'' | KUser \<Rightarrow> ''user''
      | KService \<Rightarrow> ''service'' | KAgent \<Rightarrow> ''agent'' | KAbility \<Rightarrow> ''ability''
      | KResource \<Rightarrow> ''resource'' | KUnknown \<Rightarrow> ''unknown'')"

definition is_ura_kind_scope_label :: "string \<Rightarrow> bool" where
  "is_ura_kind_scope_label v \<longleftrightarrow> v \<in> set URA_KIND_SCOPE_LABELS"

definition canonical_ura_kind_scope_labels :: "string list \<Rightarrow> string list option" where
  "canonical_ura_kind_scope_labels vs =
     (if \<exists>v\<in>set vs. trim v = [] \<or> trim v \<noteq> v \<or> \<not> is_ura_kind_scope_label (trim v) then None
      else
        (let normalized = remdups_adj (sort (map trim vs)) in
         if normalized = [] \<or> length normalized \<noteq> length vs \<or> normalized \<noteq> vs then None
         else Some normalized))"

definition hub_ura :: "ura_api \<Rightarrow> string \<Rightarrow> string" where
  "hub_ura api realm = authority_ura api realm"

definition hub_ability_ura :: "ura_api \<Rightarrow> string \<Rightarrow> string \<Rightarrow> string" where
  "hub_ability_ura api realm name = authority_ability_ura api realm name"

text \<open>The error carries the address of unexpected shape.\<close>

definition realm_prefix_ura :: "ura_api \<Rightarrow> string \<Rightarrow> string + string" where
  "realm_prefix_ura api realm =
     (case strip_suffix ''/authority'' (hub_ura api realm) of
        None \<Rightarrow> Inl (hub_ura api realm)
      | Some p \<Rightarrow> Inr (p @ ''/''))"

section \<open>Owner-local ability names\<close>

record owner_local_name =
  oln_registry_name :: string
  oln_owner :: string
  oln_public_name :: string

datatype owner_local_error = NoOwnerSegment string | EmptySegment | DottedOwner

definition owner_local_parse :: "string \<Rightarrow> owner_local_error + owner_local_name" where
  "owner_local_parse raw =
     (let raw = trim raw in
      case split_once CHR ''.'' raw of
        None \<Rightarrow> Inl (NoOwnerSegment raw)
      | Some (owner, name) \<Rightarrow>
          (let owner = trim owner; name = trim name in
           if owner = [] \<or> name = [] then Inl EmptySegment
           else if CHR ''.'' \<in> set owner then Inl DottedOwner
           else Inr \<lparr>oln_registry_name = owner @ ''.'' @ name, oln_owner = owner, oln_public_name = name\<rparr>))"

definition owner_local_ability_name :: "ura_api \<Rightarrow> string \<Rightarrow> string \<Rightarrow> string" where
  "owner_local_ability_name api owner_ura ability_name =
     (let name = trim ability_name in
      if name = [] then []
      else
        (case parsed api owner_ura of
           None \<Rightarrow> name
         | Some owner \<Rightarrow>
             (case up_kind owner of
                KAgent \<Rightarrow>
                  (case (map_option snd (up_agent_ids owner), map_option snd (up_device_agent_ids owner)) of
                     (Some a, _) \<Rightarrow> (case strip_prefix (a @ ''.'') name of Some n \<Rightarrow> n | None \<Rightarrow> name)
                   | (None, Some a) \<Rightarrow> (case strip_prefix (a @ ''.'') name of Some n \<Rightarrow> n | None \<Rightarrow> name)
                   | (None, None) \<Rightarrow> name)
              | KDevice \<Rightarrow> (case strip_prefix ''device.'' name of Some n \<Rightarrow> n | None \<Rightarrow> name)
              | _ \<Rightarrow> name)))"

definition descriptor_public_ability_name :: "ura_api \<Rightarrow> string \<Rightarrow> string \<Rightarrow> string" where
  "descriptor_public_ability_name api owner_ura ability_name =
     (let local = owner_local_ability_name api owner_ura ability_name in
      case parsed api owner_ura of
        None \<Rightarrow> local
      | Some owner \<Rightarrow>
          (case up_device_agent_ids owner of
             None \<Rightarrow> local
           | Some (_, agent_id) \<Rightarrow>
               (if CHR ''.'' \<in> set local \<or> prefix (agent_id @ ''.'') local then local
                else agent_id @ ''.'' @ local)))"

definition is_callable_ability_owner_ura :: "ura_api \<Rightarrow> string \<Rightarrow> bool" where
  "is_callable_ability_owner_ura api owner_ura =
     (case parsed api owner_ura of
        None \<Rightarrow> False
      | Some owner \<Rightarrow> up_kind owner \<in> {KAgent, KService, KAuthority})"

definition ability_ura_matches_owner_ura :: "ura_api \<Rightarrow> string \<Rightarrow> string \<Rightarrow> bool" where
  "ability_ura_matches_owner_ura api owner_ura ability_ura =
     (case parsed api ability_ura of
        None \<Rightarrow> False
      | Some ability \<Rightarrow>
          up_kind ability = KAbility \<and> is_callable_ability_owner_ura api owner_ura \<and>
          ability_owner_identity_ura api ability_ura = Some owner_ura)"

definition local_dispatch_ability_key :: "ura_api \<Rightarrow> string \<Rightarrow> string \<Rightarrow> string" where
  "local_dispatch_ability_key api target_ura ability =
     (let name = trim ability in
      if name = [] then []
      else
        (case parsed api target_ura of
           None \<Rightarrow> name
         | Some target \<Rightarrow>
             (case up_kind target of
                KAgent \<Rightarrow>
                  (case (up_device_agent_ids target, up_agent_ids target) of
                     (Some (_, agent_id), _) \<Rightarrow>
                       (let public = owner_local_ability_name api target_ura name in
                        if CHR ''.'' \<in> set public then public else agent_id @ ''.'' @ public)
                   | (None, None) \<Rightarrow> name
                   | (None, Some (_, agent_id)) \<Rightarrow>
                       (let public = owner_local_ability_name api target_ura name in
                        if prefix (agent_id @ ''.'') public then public else agent_id @ ''.'' @ public))
              | KDevice \<Rightarrow> owner_local_ability_name api target_ura name
              | KService \<Rightarrow> owner_local_ability_name api target_ura name
              | KAuthority \<Rightarrow> owner_local_ability_name api target_ura name
              | _ \<Rightarrow> name)))"

section \<open>Ability selectors\<close>

record ability_selector =
  as_ability_ura :: string
  as_owner_ura :: string
  as_owner_kind :: string
  as_dispatch_target :: string
  as_public_name :: string
  as_local_registry_ability :: string

datatype selector_error =
    SelEmpty
  | SelInvalid string string
  | SelNotAbility string
  | SelNoOwner string
  | SelDeviceOwner string
  | SelNoName string

definition selector_owner :: "ura_api \<Rightarrow> string \<Rightarrow> string \<Rightarrow> ability_owner \<Rightarrow> selector_error + string \<times> string \<times> string" where
  "selector_owner api u realm owner =
     (case owner of
        OwnerAgent user_id agent_id \<Rightarrow> Inr (agent_ura api realm user_id agent_id, ''agent'', agent_id)
      | OwnerService principal_id service_id \<Rightarrow>
          Inr (service_ura api realm principal_id service_id, ''service'', service_id)
      | OwnerSystemAgent device_id agent_id \<Rightarrow>
          Inr (device_agent_ura api realm device_id agent_id, ''system-agent'', agent_id)
      | OwnerDevice _ \<Rightarrow> Inl (SelDeviceOwner u)
      | OwnerAuthority \<Rightarrow> Inr (authority_ura api realm, ''authority'', authority_ura api realm))"

definition ability_selector_parse :: "ura_api \<Rightarrow> string \<Rightarrow> selector_error + ability_selector" where
  "ability_selector_parse api raw =
     (let u = trim raw in
      and_then (ensure (u \<noteq> []) SelEmpty) (\<lambda>_.
      and_then (case parse_ura api u of Inl e \<Rightarrow> Inl (SelInvalid u e) | Inr p \<Rightarrow> Inr p) (\<lambda>p.
      and_then (ensure (up_kind p = KAbility) (SelNotAbility u)) (\<lambda>_.
      and_then (case up_ability p of None \<Rightarrow> Inl (SelNoOwner u) | Some owner \<Rightarrow> Inr owner) (\<lambda>owner.
      and_then (selector_owner api u (up_realm p) owner) (\<lambda>(owner_ura, owner_kind, target).
      and_then (case up_ability_name p of None \<Rightarrow> Inl (SelNoName u) | Some n \<Rightarrow> Inr n) (\<lambda>public.
      Inr \<lparr>as_ability_ura = u, as_owner_ura = owner_ura, as_owner_kind = owner_kind,
           as_dispatch_target = target, as_public_name = public,
           as_local_registry_ability = local_dispatch_ability_key api owner_ura public\<rparr>)))))))"

section \<open>Scope labels\<close>

lemma scope_labels_trimmed: "v \<in> set URA_KIND_SCOPE_LABELS \<Longrightarrow> trim v = v \<and> v \<noteq> []"
  by (auto simp: URA_KIND_SCOPE_LABELS_def intro!: trim_id trimmed_printable)

lemma remdups_adj_sort_fixed:
  "remdups_adj (sort xs) = xs \<longleftrightarrow> sorted_wrt (<) xs" for xs :: "'a::linorder list"
proof
  assume eq: "remdups_adj (sort xs) = xs"
  have "sorted ys \<Longrightarrow> sorted_wrt (<) (remdups_adj ys)" for ys :: "'a list"
    by (induction ys rule: remdups_adj.induct) auto
  from this [of "sort xs"] show "sorted_wrt (<) xs" by (simp add: eq)
next
  assume "sorted_wrt (<) xs"
  then have "sorted xs" "distinct xs" by (simp_all add: strict_sorted_iff)
  then show "remdups_adj (sort xs) = xs" by (simp add: sorted_sort_id remdups_adj_distinct)
qed

text \<open>A list of scope labels is accepted exactly when it is non-empty, strictly increasing and made of
  the seven known labels, and then it is returned unchanged.\<close>

theorem scope_labels_exact:
  "canonical_ura_kind_scope_labels vs =
     (if vs \<noteq> [] \<and> sorted_wrt (<) vs \<and> set vs \<subseteq> set URA_KIND_SCOPE_LABELS then Some vs else None)"
proof (cases "set vs \<subseteq> set URA_KIND_SCOPE_LABELS")
  case True
  then have ok: "\<forall>v\<in>set vs. trim v = v \<and> v \<noteq> [] \<and> is_ura_kind_scope_label v"
    using scope_labels_trimmed by (auto simp: is_ura_kind_scope_label_def)
  then have "map trim vs = vs" by (simp add: map_idI)
  with ok True show ?thesis
    using remdups_adj_sort_fixed [of vs]
    by (auto simp: canonical_ura_kind_scope_labels_def Let_def)
next
  case False
  then have "\<exists>v\<in>set vs. trim v \<noteq> v \<or> \<not> is_ura_kind_scope_label (trim v)"
    by (auto simp: is_ura_kind_scope_label_def)
  with False show ?thesis by (auto simp: canonical_ura_kind_scope_labels_def)
qed

section \<open>Registry names\<close>

definition owner_local_valid :: "owner_local_name \<Rightarrow> bool" where
  "owner_local_valid x \<longleftrightarrow>
     trimmed (oln_owner x) \<and> trimmed (oln_public_name x) \<and> oln_owner x \<noteq> [] \<and> oln_public_name x \<noteq> [] \<and>
     CHR ''.'' \<notin> set (oln_owner x) \<and> oln_registry_name x = oln_owner x @ ''.'' @ oln_public_name x"

interpretation oln: canonical_form owner_local_parse oln_registry_name owner_local_valid
proof
  show "owner_local_parse (oln_registry_name x) = Inr x" if "owner_local_valid x" for x
  proof -
    from that have t: "trim (oln_owner x) = oln_owner x" "trim (oln_public_name x) = oln_public_name x"
      by (simp_all add: owner_local_valid_def trim_id)
    moreover have "trim (oln_registry_name x) = oln_registry_name x"
      using that trimmed_sep [OF _ _ white_space_dot, of "oln_owner x" "oln_public_name x"]
      by (simp add: owner_local_valid_def trim_id)
    moreover have "split_once CHR ''.'' (oln_registry_name x) = Some (oln_owner x, oln_public_name x)"
      using that by (simp add: owner_local_valid_def split_once_Some_iff)
    ultimately show ?thesis using that by (cases x) (simp add: owner_local_parse_def owner_local_valid_def)
  qed
  show "owner_local_valid x" if "owner_local_parse s = Inr x" for s x
    using that trimmed_trim
    by (auto simp: owner_local_parse_def owner_local_valid_def Let_def split: option.splits if_splits)
qed

text \<open>A registry name \<open><agent>.<ability>\<close> is read at its first dot: the parsed owner has no dot, both
  parts are trimmed and not empty, the ability keeps its own dots, and the printed registry name parses
  back to the same value.\<close>

theorem owner_local_roundtrip:
  assumes "owner_local_parse s = Inr x"
  shows "owner_local_valid x \<and> owner_local_parse (oln_registry_name x) = Inr x"
  using oln.parse_valid [OF assms] oln.reparse [OF assms] ..

theorem owner_local_roundtrip_witness:
  "owner_local_valid \<lparr>oln_registry_name = ''claude.fs.read'', oln_owner = ''claude'', oln_public_name = ''fs.read''\<rparr>"
proof -
  have "owner_local_parse ''claude.fs.read'' =
      Inr \<lparr>oln_registry_name = ''claude.fs.read'', oln_owner = ''claude'', oln_public_name = ''fs.read''\<rparr>"
    by (simp add: owner_local_parse_def trim_id trimmed_printable Let_def)
  from owner_local_roundtrip [OF this] show ?thesis ..
qed

section \<open>Dispatch keys\<close>

lemma strip_prefix_append [simp]: "strip_prefix p (p @ s) = Some s"
  by (simp add: strip_prefix_def)

lemma strip_prefix_None: "\<not> prefix p s \<Longrightarrow> strip_prefix p s = None"
  by (simp add: strip_prefix_def)

lemma owner_local_agent:
  assumes "parse_ura api owner = Inr q" "up_kind q = KAgent"
    and "up_agent_ids q = Some (u, a) \<or> up_agent_ids q = None \<and> up_device_agent_ids q = Some (u, a)"
    and "trimmed name" "name \<noteq> []"
  shows "owner_local_ability_name api owner name =
    (case strip_prefix (a @ ''.'') name of Some n \<Rightarrow> n | None \<Rightarrow> name)"
  using assms by (auto simp: owner_local_ability_name_def parsed_def trim_id)

text \<open>Registry keys and public names of an agent are inverse: for a hosted or device-sponsored agent
  and a public name that does not already carry the agent prefix, the dispatch key maps back to that
  name. A hosted agent's key is \<open><agent>.<name>\<close>; a device-sponsored agent keeps an already namespaced
  name as its key.\<close>

theorem dispatch_key_inverse:
  assumes "parse_ura api owner = Inr q" and "up_kind q = KAgent" and "trimmed a" and "trimmed name" and "name \<noteq> []"
    and "up_agent_ids q = Some (u, a) \<and> up_device_agent_ids q = None \<or>
      up_agent_ids q = None \<and> up_device_agent_ids q = Some (u, a)"
    and "\<not> prefix (a @ ''.'') name"
  shows "owner_local_ability_name api owner (local_dispatch_ability_key api owner name) = name \<and>
    local_dispatch_ability_key api owner name =
      (if up_device_agent_ids q \<noteq> None \<and> CHR ''.'' \<in> set name then name else a @ ''.'' @ name)"
proof -
  note local = owner_local_agent [OF assms(1,2), of u a]
  have n: "owner_local_ability_name api owner name = name"
    using local [of name] assms(4-7) by (auto simp: strip_prefix_None)
  have "trimmed (a @ ''.'' @ name)"
    using trimmed_sep [OF assms(3,4) white_space_dot] by simp
  then have k: "owner_local_ability_name api owner (a @ ''.'' @ name) = name"
    using local [of "a @ ''.'' @ name"] assms(6) strip_prefix_append [of "a @ ''.''" name] by auto
  have "local_dispatch_ability_key api owner name =
      (if up_device_agent_ids q \<noteq> None \<and> CHR ''.'' \<in> set name then name else a @ ''.'' @ name)"
    using assms n by (auto simp: local_dispatch_ability_key_def parsed_def trim_id Let_def)
  with n k show ?thesis by simp
qed

definition demo_api :: ura_api where
  "demo_api =
     \<lparr>parse_ura = (\<lambda>u. if u = ''agent:claude'' then
          Inr \<lparr>up_realm = ''r'', up_kind = KAgent, up_user_id = None, up_device_id = None, up_agent_ids = Some (''u'', ''claude''),
               up_device_agent_ids = None, up_ability = None, up_ability_name = None,
               up_resource_owner_id = None, up_resource_path = None\<rparr>
        else if u = ''device:d1'' then
          Inr \<lparr>up_realm = ''r'', up_kind = KDevice, up_user_id = None, up_device_id = Some ''d1'', up_agent_ids = None,
               up_device_agent_ids = None, up_ability = None, up_ability_name = None,
               up_resource_owner_id = None, up_resource_path = None\<rparr>
        else Inl ''not an address''),
      authority_ura = (\<lambda>r. ''authority:'' @ r), authority_ability_ura = (\<lambda>r n. ''ability:'' @ r @ n),
      agent_ura = (\<lambda>r u a. ''agent:'' @ a), service_ura = (\<lambda>r p s. ''service:'' @ s),
      device_agent_ura = (\<lambda>r d a. ''sysagent:'' @ a), device_ura = (\<lambda>r d. ''device:'' @ d),
      resource_dot_ura = (\<lambda>r ow p. ''resource:'' @ ow @ p), ability_owner_identity_ura = (\<lambda>u. None)\<rparr>"

theorem dispatch_key_inverse_witness:
  "local_dispatch_ability_key demo_api ''agent:claude'' ''chat'' = ''claude.chat''"
proof -
  obtain q where q: "parse_ura demo_api ''agent:claude'' = Inr q" "up_kind q = KAgent"
    "up_agent_ids q = Some (''u'', ''claude'')" "up_device_agent_ids q = None"
    by (simp add: demo_api_def)
  have "trimmed ''claude''" "trimmed ''chat''" by (simp_all add: trimmed_printable)
  with dispatch_key_inverse [OF q(1,2), of "''claude''" "''chat''" "''u''"] q show ?thesis by simp
qed

end
