(* ===== verification/CoreIdentity.thy ===== *)
theory CoreIdentity
  imports Ura
begin

text \<open>
  Runtime identities (\<open>src/core/identity/mod.rs\<close>): the all-zero placeholder, the normalized identity
  address, and the subjects admitted for runtime-state and governance reads. Addresses are parsed by
  the \<open>ura_api\<close> of theory Ura.
\<close>

section \<open>The placeholder principal\<close>

definition ALL_ZERO_PRINCIPAL_ID :: string where
  "ALL_ZERO_PRINCIPAL_ID = ''00000000-0000-0000-0000-000000000000''"

definition is_all_zero_principal_id :: "string \<Rightarrow> bool" where
  "is_all_zero_principal_id v \<longleftrightarrow> eq_ignore_ascii_case (trim v) ALL_ZERO_PRINCIPAL_ID"

definition contains_all_zero_principal_placeholder :: "string \<Rightarrow> bool" where
  "contains_all_zero_principal_placeholder v \<longleftrightarrow>
     str_contains ALL_ZERO_PRINCIPAL_ID (to_ascii_lowercase (trim v))"

section \<open>Runtime identity addresses\<close>

record runtime_identity =
  ri_ura :: string
  ri_kind :: ura_kind
  ri_realm :: string

datatype runtime_identity_error = RiEmpty | RiAllZero | RiInvalidSyntax string

definition runtime_identity_error_display :: "runtime_identity_error \<Rightarrow> string" where
  "runtime_identity_error_display e =
     (case e of
        RiEmpty \<Rightarrow> ''must not be empty''
      | RiAllZero \<Rightarrow> ''must not contain the all-zero principal placeholder''
      | RiInvalidSyntax m \<Rightarrow> ''is not a valid URA: '' @ m)"

definition runtime_identity_parse :: "ura_api \<Rightarrow> string \<Rightarrow> runtime_identity_error + runtime_identity" where
  "runtime_identity_parse api v =
     (let value = trim v in
      if value = [] then Inl RiEmpty
      else if contains_all_zero_principal_placeholder value then Inl RiAllZero
      else
        (case parse_ura api value of
           Inl e \<Rightarrow> Inl (RiInvalidSyntax e)
         | Inr p \<Rightarrow> Inr \<lparr>ri_ura = value, ri_kind = up_kind p, ri_realm = up_realm p\<rparr>))"

section \<open>Session identifiers\<close>

definition is_canonical_session_authority_id :: "string \<Rightarrow> bool" where
  "is_canonical_session_authority_id v \<longleftrightarrow>
     (let value = trim v in
      value \<noteq> [] \<and> list_all (\<lambda>c. is_ascii_alphanumeric c \<or> c = CHR ''-'' \<or> c = CHR ''.'') value)"

definition session_resource_subject_has_noncanonical_session_id :: "ura_api \<Rightarrow> string \<Rightarrow> bool" where
  "session_resource_subject_has_noncanonical_session_id api v =
     (case parsed api (trim v) of
        None \<Rightarrow> False
      | Some p \<Rightarrow>
          up_kind p = KResource \<and>
          (case up_resource_path p of
             None \<Rightarrow> False
           | Some path \<Rightarrow>
               (case strip_prefix ''session/'' (trim path) of
                  None \<Rightarrow> False
                | Some sid \<Rightarrow> \<not> is_canonical_session_authority_id sid)))"

section \<open>Read subjects\<close>

record state_read_subject =
  srs_subject_ura :: string
  srs_realm :: string
  srs_user_id :: string

datatype state_read_error =
    SrEmpty | SrEmptyRealm | SrEmptyUserId | SrAllZero | SrInvalidSyntax string | SrNotResource
  | SrNotUserOwned

definition state_read_error_display :: "state_read_error \<Rightarrow> string" where
  "state_read_error_display e =
     (case e of
        SrEmpty \<Rightarrow> ''must not be empty''
      | SrEmptyRealm \<Rightarrow> ''realm must not be empty''
      | SrEmptyUserId \<Rightarrow> ''user_id must not be empty''
      | SrAllZero \<Rightarrow> ''must not contain the all-zero principal placeholder''
      | SrInvalidSyntax m \<Rightarrow> ''is not a valid URA: '' @ m
      | SrNotResource \<Rightarrow> ''must be a Resource URA''
      | SrNotUserOwned \<Rightarrow> ''must be a user-owned runtime-state read subject'')"

definition RESOURCE_PATH :: string where
  "RESOURCE_PATH = ''runtime-state/read''"

definition state_read_parse :: "ura_api \<Rightarrow> string \<Rightarrow> state_read_error + state_read_subject" where
  "state_read_parse api v =
     (let subject_ura = trim v in
      if subject_ura = [] then Inl SrEmpty
      else if contains_all_zero_principal_placeholder subject_ura then Inl SrAllZero
      else
        (case parse_ura api subject_ura of
           Inl e \<Rightarrow> Inl (SrInvalidSyntax e)
         | Inr p \<Rightarrow>
             (if up_kind p \<noteq> KResource then Inl SrNotResource
              else
                (case Option.bind (up_resource_owner_id p) (strip_prefix ''user.'') of
                   None \<Rightarrow> Inl SrNotUserOwned
                 | Some user_id \<Rightarrow>
                     (if trim user_id = [] \<or> CHR ''.'' \<in> set user_id
                         \<or> contains_all_zero_principal_placeholder user_id
                      then Inl SrNotUserOwned
                      else if up_resource_path p \<noteq> Some RESOURCE_PATH then Inl SrNotUserOwned
                      else Inr \<lparr>srs_subject_ura = subject_ura, srs_realm = up_realm p, srs_user_id = user_id\<rparr>)))))"

definition state_read_new :: "ura_api \<Rightarrow> string \<Rightarrow> string \<Rightarrow> state_read_error + state_read_subject" where
  "state_read_new api realm user_id =
     (let realm = trim realm; user_id = trim user_id in
      if realm = [] then Inl SrEmptyRealm
      else if user_id = [] then Inl SrEmptyUserId
      else if contains_all_zero_principal_placeholder user_id then Inl SrAllZero
      else state_read_parse api (resource_dot_ura api realm (''user.'' @ user_id) RESOURCE_PATH))"

datatype governance_read_subject =
    UserRuntimeState state_read_subject
  | RuntimeOwner string string

datatype governance_read_error =
    GrEmpty | GrAllZero | GrInvalidSyntax string | GrInvalidCallee string | GrNotGovernanceRead

definition governance_read_error_display :: "governance_read_error \<Rightarrow> string" where
  "governance_read_error_display e =
     (case e of
        GrEmpty \<Rightarrow> ''must not be empty''
      | GrAllZero \<Rightarrow> ''must not contain the all-zero principal placeholder''
      | GrInvalidSyntax m \<Rightarrow> ''is not a valid URA: '' @ m
      | GrInvalidCallee m \<Rightarrow> ''callee is not a valid URA: '' @ m
      | GrNotGovernanceRead \<Rightarrow>
          ''must be a user-owned runtime-state read subject or the callee runtime-owner subject'')"

definition governance_subject_ura :: "governance_read_subject \<Rightarrow> string" where
  "governance_subject_ura g =
     (case g of UserRuntimeState s \<Rightarrow> srs_subject_ura s | RuntimeOwner u _ \<Rightarrow> u)"

definition governance_parse_for_callee ::
  "ura_api \<Rightarrow> string \<Rightarrow> string \<Rightarrow> governance_read_error + governance_read_subject" where
  "governance_parse_for_callee api subject callee =
     (let subject_ura = trim subject in
      if subject_ura = [] then Inl GrEmpty
      else if contains_all_zero_principal_placeholder subject_ura then Inl GrAllZero
      else
        (case state_read_parse api subject_ura of
           Inr s \<Rightarrow> Inr (UserRuntimeState s)
         | Inl _ \<Rightarrow>
             (case parse_ura api subject_ura of
                Inl e \<Rightarrow> Inl (GrInvalidSyntax e)
              | Inr s \<Rightarrow>
                  (let callee_ura = trim callee in
                   case parse_ura api callee_ura of
                     Inl e \<Rightarrow> Inl (GrInvalidCallee e)
                   | Inr c \<Rightarrow>
                       (if up_kind s \<in> {KAuthority, KDevice} \<and> up_kind s = up_kind c
                           \<and> up_realm s = up_realm c \<and> subject_ura = callee_ura
                        then Inr (RuntimeOwner subject_ura (up_realm s))
                        else if up_kind s = KDevice \<and> up_kind c = KAgent \<and> up_realm s = up_realm c
                           \<and> (case up_device_agent_ids c of
                                None \<Rightarrow> False
                              | Some (device_id, _) \<Rightarrow> up_device_id s = Some device_id)
                        then Inr (RuntimeOwner subject_ura (up_realm s))
                        else Inl GrNotGovernanceRead)))))"

section \<open>Canonical forms\<close>

definition runtime_identity_valid :: "ura_api \<Rightarrow> runtime_identity \<Rightarrow> bool" where
  "runtime_identity_valid api x \<longleftrightarrow>
     trimmed (ri_ura x) \<and> ri_ura x \<noteq> [] \<and> \<not> contains_all_zero_principal_placeholder (ri_ura x) \<and>
     (\<exists>p. parse_ura api (ri_ura x) = Inr p \<and> up_kind p = ri_kind x \<and> up_realm p = ri_realm x)"

interpretation rid: canonical_form "runtime_identity_parse api" ri_ura "runtime_identity_valid api" for api
  by unfold_locales
    (auto simp: runtime_identity_parse_def runtime_identity_valid_def Let_def trim_id trimmed_trim
      split: if_splits sum.splits)

text \<open>The user of a read subject is one address segment and not the placeholder.\<close>

definition state_read_valid :: "ura_api \<Rightarrow> state_read_subject \<Rightarrow> bool" where
  "state_read_valid api x \<longleftrightarrow>
     trimmed (srs_subject_ura x) \<and> srs_subject_ura x \<noteq> [] \<and>
     \<not> contains_all_zero_principal_placeholder (srs_subject_ura x) \<and>
     trim (srs_user_id x) \<noteq> [] \<and> CHR ''.'' \<notin> set (srs_user_id x) \<and>
     \<not> contains_all_zero_principal_placeholder (srs_user_id x) \<and>
     (\<exists>p. parse_ura api (srs_subject_ura x) = Inr p \<and> up_kind p = KResource \<and> up_realm p = srs_realm x \<and>
        up_resource_owner_id p = Some (''user.'' @ srs_user_id x) \<and> up_resource_path p = Some RESOURCE_PATH)"

lemma strip_prefix_Some_iff: "strip_prefix p s = Some t \<longleftrightarrow> s = p @ t"
  by (auto simp: strip_prefix_def prefix_def)

interpretation srs: canonical_form "state_read_parse api" srs_subject_ura "state_read_valid api" for api
proof
  show "state_read_parse api (srs_subject_ura x) = Inr x" if "state_read_valid api x" for x
    using that by (cases x) (auto simp: state_read_parse_def state_read_valid_def trim_id strip_prefix_def)
  show "state_read_valid api x" if "state_read_parse api s = Inr x" for s x
    using that
    by (auto simp: state_read_parse_def state_read_valid_def Let_def trimmed_trim strip_prefix_Some_iff
        split: if_splits sum.splits option.splits bind_splits)
qed

section \<open>Properties\<close>


text \<open>The device \<open>d1\<close> and a system agent it sponsors: the device is admitted for a call of the agent.\<close>

definition sponsor_api :: ura_api where
  "sponsor_api = demo_api\<lparr>parse_ura := (\<lambda>u. if u = ''sysagent:s'' then
     Inr \<lparr>up_realm = ''r'', up_kind = KAgent, up_user_id = None, up_device_id = None, up_agent_ids = None,
          up_device_agent_ids = Some (''d1'', ''s''), up_ability = None, up_ability_name = None,
          up_resource_owner_id = None, up_resource_path = None\<rparr>
     else parse_ura demo_api u)\<rparr>"


text \<open>A runtime identity is canonical: parsing succeeds only on addresses free of the placeholder
  principal, the stored text is trimmed and parses to the same identity again, and two parsed
  identities with the same text are equal.\<close>

theorem runtime_identity_canonical:
  assumes "runtime_identity_parse api s = Inr x" and "runtime_identity_parse api t = Inr y"
  shows "runtime_identity_valid api x \<and> runtime_identity_parse api (ri_ura x) = Inr x \<and>
    (ri_ura x = ri_ura y \<longleftrightarrow> x = y)"
  using rid.parse_valid [OF assms(1)] rid.reparse [OF assms(1)] rid.parsed_display_inject [OF assms] by blast

theorem runtime_identity_canonical_witness:
  "runtime_identity_valid demo_api \<lparr>ri_ura = ''device:d1'', ri_kind = KDevice, ri_realm = ''r''\<rparr>"
proof -
  have t: "trim ''device:d1'' = ''device:d1''" by (simp add: trim_id trimmed_printable)
  have "\<not> contains_all_zero_principal_placeholder ''device:d1''"
    unfolding contains_all_zero_principal_placeholder_def t by code_simp
  then have "runtime_identity_parse demo_api ''device:d1'' =
      Inr \<lparr>ri_ura = ''device:d1'', ri_kind = KDevice, ri_realm = ''r''\<rparr>"
    by (simp add: runtime_identity_parse_def t demo_api_def)
  from runtime_identity_canonical [OF this this] show ?thesis by blast
qed

end
