(* ===== verification/EalWorld.thy ===== *)
theory EalWorld
  imports EalRun
begin

text \<open>
  What a mission run does to the world outside the interpreter: an invariant of the world that every
  effect of the runtime keeps is kept by the whole run, and the dispatcher is only ever called for the
  mission's own call steps, under the run's context and within the step's timeout.
\<close>

section \<open>The calls of a mission\<close>

fun own_call :: "ir_step \<Rightarrow> ir_call option" where
  "own_call (IrStepCall c) = Some c"
| "own_call (IrStepLoop l) = None"

definition mission_calls :: "mission_ir \<Rightarrow> ir_call list" where
  "mission_calls ir = concat (map walk_calls (ir_steps ir))"

fun partition_calls :: "phase_partition \<Rightarrow> ir_call list" where
  "partition_calls (PCalls steps) = List.map_filter own_call steps"
| "partition_calls (PLoop l) = List.map_filter own_call (irl_body l @ irl_verify l)"

lemma map_filter_set: "set (List.map_filter f xs) = {y. \<exists>x \<in> set xs. f x = Some y}"
  by (force simp: List.map_filter_def image_iff)

lemma own_call_walk: "own_call s = Some c \<Longrightarrow> c \<in> set (walk_calls s)"
  by (cases s) simp_all

lemma loop_calls_walk: "c \<in> set (List.map_filter own_call (irl_body l @ irl_verify l)) \<Longrightarrow> c \<in> set (walk_calls (IrStepLoop l))"
  by (cases l) (auto simp: map_filter_set dest: own_call_walk)

lemma calls_from_partition_own: "calls_from_partition steps = Some cs \<Longrightarrow> cs = List.map_filter own_call steps"
  by (induction steps arbitrary: cs rule: calls_from_partition.induct)
    (auto simp: List.map_filter_simps)

lemma split_phase_from_calls:
  "p \<in> set (split_phase_from run steps) \<Longrightarrow> c \<in> set (partition_calls p) \<Longrightarrow>
     (\<exists>s \<in> set run. own_call s = Some c) \<or> (\<exists>s \<in> set steps. c \<in> set (walk_calls s))"
proof (induction run steps rule: split_phase_from.induct)
  case (3 run l steps)
  then show ?case using loop_calls_walk [of c l] by (auto simp: map_filter_set split: if_splits)
qed (auto simp: map_filter_set split: if_splits)

lemma split_phase_steps_calls:
  "p \<in> set (split_phase_steps steps) \<Longrightarrow> c \<in> set (partition_calls p) \<Longrightarrow>
     \<exists>s \<in> set steps. c \<in> set (walk_calls s)"
  using split_phase_from_calls [of p "[]" steps c] by (simp add: split_phase_steps_def)

lemma slice_subset: "slice i j xs = Some ys \<Longrightarrow> set ys \<subseteq> set xs"
  by (auto simp: slice_def split: if_splits dest: in_set_takeD in_set_dropD)

text \<open>The budget of an attempt: the step's own timeout, cut down to the time between some reading of the clock and the
  deadline of the run, in whole milliseconds and at least one.\<close>

definition budgeted :: "nat option \<Rightarrow> nat option \<Rightarrow> nat option \<Rightarrow> bool" where
  "budgeted deadline limit budget =
     (case deadline of
        None \<Rightarrow> budget = limit
      | Some d \<Rightarrow> \<exists>now < d. \<exists>left. left = max (min u64_max ((d - now) div 1000000)) 1 \<and>
          budget = Some (case limit of None \<Rightarrow> left | Some t \<Rightarrow> min t left))"

lemma effective_timeout_budgeted:
  "effective_dispatch_timeout_ms rt limit deadline w = (Inr budget, w') \<Longrightarrow> budgeted deadline limit budget"
  by (auto simp: effective_dispatch_timeout_ms_def budgeted_def millis_u64_def Let_def not_le
      split: option.splits prod.splits if_splits)

text \<open>The deadline of a run.\<close>

definition run_deadline :: "('w, 'z) runtime_scheme \<Rightarrow> nat option \<Rightarrow> 'w \<Rightarrow> nat option" where
  "run_deadline rt run_timeout w =
     (case run_timeout of None \<Rightarrow> None | Some d \<Rightarrow> instant_checked_add (fst (rt_instant rt w)) d)"

section \<open>World invariants\<close>

locale world_invariant =
  fixes rt :: "('w, 'z) runtime_scheme" and I :: "'w \<Rightarrow> bool" and allowed :: "run_context \<Rightarrow> ir_call \<Rightarrow> bool"
  assumes dispatch_I: "allowed run step \<Longrightarrow> budgeted (rc_deadline run) (step_timeout_ms step) budget \<Longrightarrow> I w \<Longrightarrow>
      I (snd (rt_dispatch rt run (ir_target step) (ability step) args budget deps w))"
    and clone_I: "I w \<Longrightarrow> I (snd (rt_clone rt w))"
    and instant_I: "I w \<Longrightarrow> I (snd (rt_instant rt w))"
    and unix_ms_I: "I w \<Longrightarrow> I (snd (rt_unix_ms rt w))"
    and sleep_I: "I w \<Longrightarrow> I (rt_sleep rt ms w)"
begin

lemma instant_D: "rt_instant rt w = (t, w') \<Longrightarrow> I w \<Longrightarrow> I w'"
  using instant_I [of w] by simp

lemma unix_ms_D: "rt_unix_ms rt w = (t, w') \<Longrightarrow> I w \<Longrightarrow> I w'"
  using unix_ms_I [of w] by simp

lemma clone_D: "rt_clone rt w = (r, w') \<Longrightarrow> I w \<Longrightarrow> I w'"
  using clone_I [of w] by simp

lemma dispatch_D:
  "rt_dispatch rt run (ir_target step) (ability step) args budget deps w = (r, w') \<Longrightarrow> allowed run step \<Longrightarrow>
     budgeted (rc_deadline run) (step_timeout_ms step) budget \<Longrightarrow> I w \<Longrightarrow> I w'"
  using dispatch_I [of run step budget w args deps] by simp

lemma elapsed_D: "elapsed_ms rt t0 w = (t, w') \<Longrightarrow> I w \<Longrightarrow> I w'"
  by (auto simp: elapsed_ms_def split: prod.splits dest: instant_D)

lemma backoff_I: "I w \<Longrightarrow> I (backoff_sleep rt ms w)"
proof -
  have "I w \<Longrightarrow> I (fold (rt_sleep rt) xs w)" for xs w
    by (induction xs arbitrary: w) (auto intro: sleep_I)
  then show "I w \<Longrightarrow> I (backoff_sleep rt ms w)" by (simp add: backoff_sleep_def sleep_I)
qed

lemma effective_D: "effective_dispatch_timeout_ms rt limit deadline w = (b, w') \<Longrightarrow> I w \<Longrightarrow> I w'"
  by (auto simp: effective_dispatch_timeout_ms_def Let_def split: option.splits prod.splits if_splits
      dest: instant_D)

lemma attempt_loop_D:
  "attempt_loop rt run step args deps t0 started n attempt hist w = (r, w') \<Longrightarrow> allowed run step \<Longrightarrow> I w \<Longrightarrow> I w'"
proof (induction n arbitrary: attempt hist w)
  case 0
  then show ?case by (auto simp: Let_def split: prod.splits dest: elapsed_D)
next
  case (Suc n)
  define w0 where "w0 = (if attempt > 0 then backoff_sleep rt (compute_backoff rt attempt (step_id step)) w else w)"
  obtain ts w1 where w1: "rt_instant rt w0 = (ts, w1)" by fastforce
  obtain budget w2 where w2: "effective_dispatch_timeout_ms rt (step_timeout_ms step) (rc_deadline run) w1 = (budget, w2)"
    by fastforce
  have "I w0" using Suc.prems(3) by (simp add: w0_def backoff_I)
  then have I2: "I w2" using w1 w2 by (blast dest: instant_D effective_D)
  show ?case
  proof (cases budget)
    case (Inl e)
    with Suc.prems w1 w2 I2 show ?thesis
      by (auto simp: Let_def w0_def [symmetric] split: prod.splits dest: elapsed_D)
  next
    case (Inr tmo)
    obtain res w3 where w3: "rt_dispatch rt run (ir_target step) (ability step) args tmo deps w2 = (res, w3)"
      by fastforce
    have I3: "I w3"
      using dispatch_D [OF w3 Suc.prems(2) effective_timeout_budgeted [OF w2 [unfolded Inr]] I2] .
    note run = Suc.prems(1) [simplified attempt_loop.simps w0_def [symmetric] Let_def w1 w2 w3 Inr
        prod.case sum.case]
    show ?thesis
    proof (cases res)
      case (Inr outcome)
      with run I3 show ?thesis
        by (auto split: prod.splits sum.splits dest: elapsed_D unix_ms_D)
    next
      case (Inl e)
      with run I3 Suc.IH Suc.prems(2) show ?thesis
        by (auto split: prod.splits if_splits dest: elapsed_D)
    qed
  qed
qed

lemma execute_step_D:
  "execute_step_with_retry rt run step args deps w = (r, w') \<Longrightarrow> allowed run step \<Longrightarrow> I w \<Longrightarrow> I w'"
  by (auto simp: execute_step_with_retry_def Let_def split: prod.splits
      dest: unix_ms_D instant_D attempt_loop_D)

lemma unresolved_D: "unresolved_result rt e w = (r, w') \<Longrightarrow> I w \<Longrightarrow> I w'"
  by (auto simp: unresolved_result_def Let_def split: prod.splits resolve_error.splits dest: unix_ms_D)

section \<open>Batches\<close>

lemma prepare_tasks_D:
  "prepare_tasks rt rq is collector tasks w = (c', ts', w') \<Longrightarrow> I w \<Longrightarrow>
     I w' \<and> fst ` set ts' \<subseteq> fst ` set tasks \<union> set is"
proof (induction "is" arbitrary: collector tasks w)
  case Nil
  then show ?case by simp
next
  case (Cons i "is")
  consider e r w1 where "resolve_arguments rt (br_steps rq ! i) (br_captured rq) (br_skipped_bindings rq) = Inl e"
      "unresolved_result rt e w = (r, w1)"
    | args e w1 now w2 where
        "resolve_arguments rt (br_steps rq ! i) (br_captured rq) (br_skipped_bindings rq) = Inr args"
        "rt_clone rt w = (Inl e, w1)" "rt_unix_ms rt w1 = (now, w2)"
    | args u w1 where
        "resolve_arguments rt (br_steps rq ! i) (br_captured rq) (br_skipped_bindings rq) = Inr args"
        "rt_clone rt w = (Inr u, w1)"
    by (metis sum.exhaust surj_pair)
  then show ?case
  proof cases
    case 1
    with Cons.prems have w: "I w1" by (blast dest: unresolved_D)
    have "prepare_tasks rt rq is (collector @ [(i, r)]) tasks w1 = (c', ts', w')"
      using Cons.prems(1) 1 by simp
    from Cons.IH [OF this w] show ?thesis by auto
  next
    case 2
    with Cons.prems have w: "I w2" by (blast dest: clone_D unix_ms_D)
    have "prepare_tasks rt rq is (collector @ [(i, ExecError (eal_error_display e) 0 now 0 [])]) tasks w2
        = (c', ts', w')"
      using Cons.prems(1) 2 by simp
    from Cons.IH [OF this w] show ?thesis by auto
  next
    case 3
    with Cons.prems have w: "I w1" by (blast dest: clone_D)
    obtain t where "prepare_tasks rt rq is collector (tasks @ [(i, t)]) w1 = (c', ts', w')"
      using Cons.prems(1) 3 by simp
    from Cons.IH [OF this w] show ?thesis by auto
  qed
qed

lemma run_tasks_D:
  "run_tasks rt rq tasks order collector w = (c', w') \<Longrightarrow>
     (\<And>i. i \<in> fst ` set tasks \<Longrightarrow> allowed (br_run rq) (br_steps rq ! i)) \<Longrightarrow> I w \<Longrightarrow> I w'"
proof (induction order arbitrary: collector w)
  case Nil
  then show ?case by simp
next
  case (Cons i order)
  show ?case
  proof (cases "map_of tasks i")
    case None
    with Cons show ?thesis by simp
  next
    case (Some t)
    obtain args deps where t: "t = (args, deps)" by fastforce
    obtain r w1 where e: "execute_step_with_retry rt (br_run rq) (br_steps rq ! i) args deps w = (r, w1)"
      by fastforce
    have "i \<in> fst ` set tasks" using Some by (metis map_of_eq_None_iff option.distinct(1))
    then have "I w1" using execute_step_D [OF e] Cons.prems by blast
    with Cons Some t e show ?thesis by simp
  qed
qed

lemma run_sequential_D:
  "run_sequential rt rq is w = (rs, w') \<Longrightarrow> (\<And>i. i \<in> set is \<Longrightarrow> allowed (br_run rq) (br_steps rq ! i)) \<Longrightarrow>
     I w \<Longrightarrow> I w'"
proof (induction "is" arbitrary: rs w)
  case Nil
  then show ?case by simp
next
  case (Cons i "is")
  obtain r w1 where s: "(case resolve_arguments rt (br_steps rq ! i) (br_captured rq) (br_skipped_bindings rq) of
               Inl e \<Rightarrow> unresolved_result rt e w
             | Inr args \<Rightarrow>
                 execute_step_with_retry rt (br_run rq) (br_steps rq ! i)
                   (substitute_receipt_graph args (br_receipt_graph rq))
                   (dependency_receipts_from_captured (br_steps rq ! i) (br_captured rq)) w) = (r, w1)"
    by fastforce
  have "I w1" using s Cons.prems by (auto split: sum.splits dest: unresolved_D execute_step_D)
  moreover obtain rs' where "run_sequential rt rq is w1 = (rs', w')"
    using Cons.prems(1) s by (auto simp: Let_def split: prod.splits)
  ultimately show ?case using Cons.IH Cons.prems(2) by simp
qed

lemma dispatch_batch_D:
  assumes run: "dispatch_batch rt rq is par w = (rs, w')"
    and ok: "\<And>i. i \<in> set is \<Longrightarrow> allowed (br_run rq) (br_steps rq ! i)" and w: "I w"
  shows "I w'"
proof (cases "is \<noteq> [] \<and> par \<and> length is > 1")
  case True
  obtain c ts w1 where p: "prepare_tasks rt rq is [] [] w = (c, ts, w1)" by (metis prod_cases3)
  have I1: "I w1" and ts: "fst ` set ts \<subseteq> set is" using prepare_tasks_D [OF p w] by simp_all
  obtain rs' where "run_tasks rt rq ts (rt_schedule rt (map fst ts) w1) c w1 = (rs', w')"
    using run True p by (auto simp: dispatch_batch_def Let_def split: prod.splits)
  then show ?thesis using run_tasks_D ok ts I1 by blast
next
  case False
  then have "rs = [] \<and> w' = w \<or> run_sequential rt rq is w = (rs, w')"
    using run by (auto simp: dispatch_batch_def split: if_splits)
  then show ?thesis using run_sequential_D ok w by blast
qed

lemma process_step_result_D: "process_step_result rt step res phase_idx w = (x, w') \<Longrightarrow> I w \<Longrightarrow> I w'"
  by (cases res) (auto simp: process_step_result_def Let_def split: prod.splits dest: unix_ms_D)

lemma process_result_D: "process_result rt steps phase_idx r st w = (st', w') \<Longrightarrow> I w \<Longrightarrow> I w'"
  by (cases r) (auto simp: process_result_def Let_def split: prod.splits dest: process_step_result_D)

lemma process_batch_D: "process_batch rt steps phase_idx rs st w = (st', w') \<Longrightarrow> I w \<Longrightarrow> I w'"
proof (induction rs arbitrary: st w)
  case (Cons r rs)
  obtain st1 w1 where "process_result rt steps phase_idx r st w = (st1, w1)" by fastforce
  with Cons show ?case by (auto dest: process_result_D)
qed simp

section \<open>Phases, loops and the mission\<close>

lemma execute_calls_D:
  assumes run: "execute_calls_phase_partition rt run steps phase_idx st w = (st', w')"
    and ok: "\<And>c. c \<in> set steps \<Longrightarrow> allowed run c" and w: "I w"
  shows "I w'"
proof (cases "steps = []")
  case True
  with run w show ?thesis by (simp add: execute_calls_phase_partition_def)
next
  case False
  define par where "par = (length steps > 1 \<and> rt_concurrency rt = Parallel)"
  define req where "req = filter (\<lambda>i. \<not> ir_optional (steps ! i)) [0..<length steps]"
  define opt where "opt = filter (\<lambda>i. ir_optional (steps ! i)) [0..<length steps]"
  have batch: "I v \<Longrightarrow> dispatch_batch rt (batch_of run steps s) is par v = (rs, v') \<Longrightarrow>
      (\<And>i. i \<in> set is \<Longrightarrow> i < length steps) \<Longrightarrow> I v'" for s "is" v rs v'
    by (erule dispatch_batch_D) (auto simp: batch_of_def intro!: ok)
  obtain rs w1 where d: "dispatch_batch rt (batch_of run steps st) req par w = (rs, w1)" by fastforce
  obtain st2 w2 where p: "process_batch rt steps phase_idx rs st w1 = (st2, w2)" by fastforce
  have "I w1" using batch [OF w d] by (auto simp: req_def)
  then have I2: "I w2" using process_batch_D [OF p] by simp
  obtain rs' w3 where d': "dispatch_batch rt (batch_of run steps st2) opt par w2 = (rs', w3)" by fastforce
  have I3: "I w3" using batch [OF I2 d'] by (auto simp: opt_def)
  have "(st', w') = (st2, w2) \<or> process_batch rt steps phase_idx rs' st2 w3 = (st', w')"
    using run [unfolded execute_calls_phase_partition_def Let_def par_def [symmetric] req_def [symmetric]
        opt_def [symmetric]] False d p d'
    by (simp split: if_splits)
  then show ?thesis using I2 process_batch_D [OF _ I3] by blast
qed

lemma loop_step_D:
  "loop_step rt run steps i st sc w = (r, sc', w') \<Longrightarrow> allowed run (steps ! i) \<Longrightarrow> I w \<Longrightarrow> I w'"
  by (auto simp: loop_step_def Let_def split: sum.splits prod.splits dest: unresolved_D execute_step_D)

lemma process_in_scope_D: "process_in_scope rt steps phase_idx r st sc w = (st', sc', w') \<Longrightarrow> I w \<Longrightarrow> I w'"
  by (auto simp: process_in_scope_def simp del: process_batch.simps split: prod.splits dest: process_batch_D)

lemma run_loop_block_D:
  "run_loop_block rt run steps phase_idx i st sc w = (ok, st', sc', w') \<Longrightarrow>
     (\<And>c. c \<in> set steps \<Longrightarrow> allowed run c) \<Longrightarrow> I w \<Longrightarrow> I w'"
proof (induction "length steps - i" arbitrary: i st sc w)
  case 0
  from 0(2) show ?case by (rule run_loop_block_cases) (use 0 in auto)
next
  case (Suc n)
  from Suc.prems(1) show ?case
  proof (cases rule: run_loop_block_cases)
    case stop
    with Suc.prems show ?thesis by simp
  next
    case (unresolved e r w1)
    then have "I w1" using loop_step_D Suc.prems by (metis nth_mem)
    with unresolved show ?thesis by (blast dest: process_in_scope_D)
  next
    case (step r sc1 w1 st2 sc2 w2)
    then have "I w1" using loop_step_D Suc.prems by (metis nth_mem)
    with step have "I w2" by (blast dest: process_in_scope_D)
    moreover have "n = length steps - Suc i" using Suc.hyps(2) by simp
    ultimately show ?thesis using Suc.hyps(1) step(5) Suc.prems(2) by blast
  qed
qed

lemma loop_iterations_D:
  "loop_iterations rt run rb body verify phase_idx n st w = (st', w') \<Longrightarrow>
     (\<And>c. c \<in> set body \<union> set verify \<Longrightarrow> allowed run c) \<Longrightarrow> I w \<Longrightarrow> I w'"
proof (induction n arbitrary: st w)
  case 0
  then show ?case by simp
next
  case (Suc n)
  obtain ok st1 sc1 w1 where b: "run_loop_block rt run body phase_idx 0 st (Map.empty, {}) w = (ok, st1, sc1, w1)"
    by (metis prod_cases4)
  obtain ok' st2 sc2 w2 where v: "run_loop_block rt run verify phase_idx 0 st1 sc1 w1 = (ok', st2, sc2, w2)"
    by (metis prod_cases4)
  have I1: "I w1" using run_loop_block_D [OF b] Suc.prems by blast
  have I2: "I w2" using run_loop_block_D [OF v] Suc.prems I1 by blast
  have "w' = w \<or> w' = w1 \<or> w' = w2 \<or> loop_iterations rt run rb body verify phase_idx n st2 w2 = (st', w')"
    using Suc.prems(1) b v
    by (auto simp: Let_def split: if_splits option.splits verify_done.splits)
  then show ?case using Suc.IH Suc.prems I1 I2 by blast
qed

lemma execute_partition_D:
  assumes run: "execute_partition rt run phase_idx p st w = (st', w')"
    and ok: "\<And>c. c \<in> set (partition_calls p) \<Longrightarrow> allowed run c" and w: "I w"
  shows "I w'"
proof (cases p)
  case (PCalls steps)
  show ?thesis
  proof (cases "calls_from_partition steps")
    case None
    with run w PCalls show ?thesis by (simp add: execute_partition_def)
  next
    case (Some calls)
    have "execute_calls_phase_partition rt run calls phase_idx st w = (st', w')"
      using run PCalls Some by (simp add: execute_partition_def)
    then show ?thesis
      using execute_calls_D ok w calls_from_partition_own [OF Some] PCalls by simp
  qed
next
  case (PLoop l)
  have "w' = w \<or> (\<exists>body verify. calls_from_partition (irl_body l) = Some body \<and>
      calls_from_partition (irl_verify l) = Some verify \<and>
      loop_iterations rt run (irl_result_binding l) body verify phase_idx (irl_max_iters l) st w = (st', w'))"
    using run PLoop
    by (auto simp: execute_partition_def execute_loop_def split: option.splits if_splits)
  then consider "w' = w" | body verify where "calls_from_partition (irl_body l) = Some body"
      "calls_from_partition (irl_verify l) = Some verify"
      "loop_iterations rt run (irl_result_binding l) body verify phase_idx (irl_max_iters l) st w = (st', w')"
    by blast
  then show ?thesis
  proof cases
    case 1
    with w show ?thesis by simp
  next
    case 2
    have "c \<in> set body \<union> set verify \<Longrightarrow> allowed run c" for c
      using ok PLoop calls_from_partition_own [OF 2(1)] calls_from_partition_own [OF 2(2)]
      by (auto simp: map_filter_set)
    with 2(3) w show ?thesis by (blast intro: loop_iterations_D)
  qed
qed

lemma execute_partitions_D:
  "execute_partitions rt run phase_idx ps st w = (st', w') \<Longrightarrow>
     (\<And>p c. p \<in> set ps \<Longrightarrow> c \<in> set (partition_calls p) \<Longrightarrow> allowed run c) \<Longrightarrow> I w \<Longrightarrow> I w'"
proof (induction ps arbitrary: st w)
  case (Cons p ps)
  obtain st1 w1 where p: "execute_partition rt run phase_idx p st w = (st1, w1)" by fastforce
  have "I w1" by (rule execute_partition_D [OF p]) (use Cons.prems in auto)
  moreover have "(st', w') = (st, w) \<or> execute_partitions rt run phase_idx ps st1 w1 = (st', w')"
    using Cons.prems(1) p by (auto split: if_splits)
  ultimately show ?case using Cons.IH Cons.prems(2,3) by (metis list.set_intros(2) prod.inject)
qed simp

lemma execute_phases_D:
  "execute_phases rt run steps phase_idx ranges st w = (st', w') \<Longrightarrow>
     (\<And>s c. s \<in> set steps \<Longrightarrow> c \<in> set (walk_calls s) \<Longrightarrow> allowed run c) \<Longrightarrow> I w \<Longrightarrow> I w'"
proof (induction ranges arbitrary: phase_idx st w)
  case (Cons r ranges)
  show ?case
  proof (cases "slice (range_start r) (range_end r) steps")
    case None
    with Cons.prems show ?thesis by (auto split: if_splits)
  next
    case (Some ss)
    obtain st1 w1 where p: "execute_partitions rt run phase_idx (split_phase_steps ss) st w = (st1, w1)"
      by fastforce
    have "allowed run c" if "p \<in> set (split_phase_steps ss)" "c \<in> set (partition_calls p)" for p c
      using split_phase_steps_calls [OF that] slice_subset [OF Some] Cons.prems(2) by blast
    then have "I w1" using execute_partitions_D [OF p] Cons.prems(3) by blast
    moreover have "(st', w') = (st, w) \<or> execute_phases rt run steps (Suc phase_idx) ranges st1 w1 = (st', w')"
      using Cons.prems(1) Some p by (auto split: if_splits)
    ultimately show ?thesis using Cons.IH Cons.prems(2,3) by (metis prod.inject)
  qed
qed simp

lemma execute_mission_I:
  assumes ok: "\<And>c. c \<in> set (mission_calls ir) \<Longrightarrow>
      allowed \<lparr>rc_tenant = tn, rc_trace_id = mission_id, rc_deadline = run_deadline rt run_timeout w\<rparr> c" and w: "I w"
  shows "I (snd (execute_mission rt tn ir mission_id run_timeout w))"
proof -
  obtain dl w0 where w0: "(case run_timeout of None \<Rightarrow> (None, w)
      | Some d \<Rightarrow> (let (now, w) = rt_instant rt w in (instant_checked_add now d, w))) = (dl, w0)"
    by fastforce
  define run where "run = \<lparr>rc_tenant = tn, rc_trace_id = mission_id, rc_deadline = dl\<rparr>"
  obtain t1 w1 where w1: "rt_instant rt w0 = (t1, w1)" by fastforce
  obtain t2 w2 where w2: "rt_unix_ms rt w1 = (t2, w2)" by fastforce
  obtain st w3 where w3: "execute_phases rt run (ir_steps ir) 0 (ir_phases ir) initial_state w2 = (st, w3)"
    by fastforce
  obtain t4 w4 where w4: "elapsed_ms rt t1 w3 = (t4, w4)" by fastforce
  obtain t5 w5 where w5: "rt_unix_ms rt w4 = (t5, w5)" by fastforce
  have dl: "dl = run_deadline rt run_timeout w"
    using w0 by (auto simp: run_deadline_def split: option.splits prod.splits)
  have "I w0" using w0 w by (auto split: option.splits prod.splits dest: instant_D)
  then have "I w2" using w1 w2 by (blast dest: instant_D unix_ms_D)
  moreover have "allowed run c" if "s \<in> set (ir_steps ir)" "c \<in> set (walk_calls s)" for s c
    using that ok by (auto simp: mission_calls_def run_def dl)
  ultimately have "I w3" using execute_phases_D [OF w3] by blast
  then have "I w5" using w4 w5 by (blast dest: elapsed_D unix_ms_D)
  moreover have "snd (execute_mission rt tn ir mission_id run_timeout w) = w5"
    unfolding execute_mission_def run_mission_def Let_def w0 [unfolded Let_def] prod.case run_def [symmetric]
      w1 w2 w3 w4 w5 snd_conv ..
  ultimately show ?thesis by simp
qed

end

end
