(* ===== verification/EalDispatch.thy ===== *)
theory EalDispatch
  imports EalWorld EalDemo Ura
begin

text \<open>
  The production dispatcher (\<open>src/eal/interpreter/dispatch.rs\<close>) and the child invocation requests it
  builds (\<open>src/daemon/execution/mission/invocation_gateway.rs\<close>). The daemon gateway is a trait object:
  its \<open>invoke\<close>, the stored credentials, the ability manifests of an agent and the address parser are
  fields of the dispatcher's environment.
\<close>

section \<open>Child invocation requests\<close>

datatype invocation_target =
    LocalDeviceHost
  | HostedAgent string
  | RemoteDeviceHost string
  | RemoteCallee string

text \<open>\<open>std::time::Duration\<close>: whole seconds and nanoseconds.\<close>

datatype duration = Duration (dur_secs: nat) (dur_nanos: nat)

definition as_nanos :: "duration \<Rightarrow> nat" where
  "as_nanos d = dur_secs d * 1000000000 + dur_nanos d"

definition from_secs :: "nat \<Rightarrow> duration" where
  "from_secs s = Duration s 0"

definition from_millis :: "nat \<Rightarrow> duration" where
  "from_millis ms = Duration (ms div 1000) (ms mod 1000 * 1000000)"

lemma as_nanos_millis: "as_nanos (from_millis ms) = ms * 1000000"
  using div_mult_mod_eq [of ms 1000] unfolding as_nanos_def from_millis_def duration.sel by linarith

record invocation_request =
  iq_ability :: string
  iq_args :: json
  iq_target :: invocation_target
  iq_timeout :: duration
  iq_dependency_receipts :: "receipt_anchor list"
  iq_trace_id :: "string option"

definition default_child_timeout :: duration where
  "default_child_timeout = from_secs 3600"

definition request_for :: "string \<Rightarrow> json \<Rightarrow> invocation_target \<Rightarrow> invocation_request" where
  "request_for ab args target =
     \<lparr>iq_ability = ab, iq_args = args, iq_target = target, iq_timeout = default_child_timeout,
      iq_dependency_receipts = [], iq_trace_id = None\<rparr>"

definition request_system :: "string \<Rightarrow> json \<Rightarrow> invocation_request" where
  "request_system ab args = request_for ab args LocalDeviceHost"

definition request_hosted_agent :: "string \<Rightarrow> string \<Rightarrow> json \<Rightarrow> invocation_request" where
  "request_hosted_agent agent ab args = request_for ab args (HostedAgent agent)"

datatype remote_target_error = RemoteInvalid string | RemoteKind ura_kind

definition remote_target_error_display :: "(ura_kind \<Rightarrow> string) \<Rightarrow> remote_target_error \<Rightarrow> string" where
  "remote_target_error_display kind e =
     (case e of
        RemoteInvalid e \<Rightarrow> ''invalid remote Mission target URA: '' @ e
      | RemoteKind k \<Rightarrow> ''remote Mission target must be a Device, Agent, or Authority URA, got '' @ kind k)"

definition request_remote_target ::
  "ura_api \<Rightarrow> string \<Rightarrow> string \<Rightarrow> json \<Rightarrow> remote_target_error + invocation_request" where
  "request_remote_target api target ab args =
     (let target_ura = trim target in
      case parse_ura api target_ura of
        Inl e \<Rightarrow> Inl (RemoteInvalid e)
      | Inr p \<Rightarrow>
          (case up_kind p of
             KDevice \<Rightarrow> Inr (request_for ab args (RemoteDeviceHost target_ura))
           | KAgent \<Rightarrow> Inr (request_for ab args (RemoteCallee target_ura))
           | KAuthority \<Rightarrow> Inr (request_for ab args (RemoteCallee target_ura))
           | k \<Rightarrow> Inl (RemoteKind k)))"

definition with_dispatch_timeout :: "duration \<Rightarrow> invocation_request \<Rightarrow> invocation_request" where
  "with_dispatch_timeout t r = r\<lparr>iq_timeout := t\<rparr>"

definition with_dependency_receipts :: "receipt_anchor list \<Rightarrow> invocation_request \<Rightarrow> invocation_request" where
  "with_dependency_receipts ds r = r\<lparr>iq_dependency_receipts := ds\<rparr>"

definition with_trace_id :: "string \<Rightarrow> invocation_request \<Rightarrow> invocation_request" where
  "with_trace_id t r = r\<lparr>iq_trace_id := Some t\<rparr>"

section \<open>The environment of the dispatcher\<close>

record ability_manifest =
  mf_name :: string
  mf_timeout_seconds :: "nat option"

text \<open>
  \<open>de_debug\<close> is \<open>core::fmt\<close>'s Debug rendering of a text, \<open>de_kind\<close> the Display
  of an address kind; \<open>de_credentials\<close> is \<open>load_credentials_optional\<close> with the node id of
  the stored credentials; a gateway error comes with its rendered chain.
\<close>

record ('w, 'e) dispatch_env =
  de_api :: ura_api
  de_agents :: "string \<rightharpoonup> 'e"
  de_manifests_for :: "string \<Rightarrow> 'e \<Rightarrow> ability_manifest list"
  de_credentials :: "'w \<Rightarrow> string + string option"
  de_invoke :: "invocation_request \<Rightarrow> 'w \<Rightarrow> (string + dispatch_outcome) \<times> 'w"
  de_debug :: "string \<Rightarrow> string"
  de_kind :: "ura_kind \<Rightarrow> string"

datatype local_node_identity = KnownNode string | UnpairedNode | NodeUnavailable string

definition load_local_identity :: "('w, 'e, 'z) dispatch_env_scheme \<Rightarrow> 'w \<Rightarrow> local_node_identity" where
  "load_local_identity env w =
     (case de_credentials env w of
        Inr (Some node_id) \<Rightarrow>
          (if trim node_id = [] then
             NodeUnavailable ''EAL device target resolution requires non-empty local node identity''
           else KnownNode (trim node_id))
      | Inr None \<Rightarrow> UnpairedNode
      | Inl e \<Rightarrow> NodeUnavailable (''load local credentials for EAL device target resolution: '' @ e))"

definition matches_node :: "local_node_identity \<Rightarrow> string \<Rightarrow> eal_error + bool" where
  "matches_node ident node_id =
     (case ident of
        KnownNode own \<Rightarrow> Inr (own = node_id)
      | UnpairedNode \<Rightarrow>
          Inl (Unavailable
            (''EAL device target resolution requires paired local credentials before '' @
             ''remote device dispatch''))
      | NodeUnavailable reason \<Rightarrow> Inl (Unavailable reason))"

definition device_request ::
  "('w, 'e, 'z) dispatch_env_scheme \<Rightarrow> string \<Rightarrow> string \<Rightarrow> string \<Rightarrow> json \<Rightarrow> 'w \<Rightarrow> eal_error + invocation_request"
where
  "device_request env tn node ab args w =
     (let node_id = trim node in
      if node_id = [] \<or> eq_ignore_ascii_case node_id ''local'' then Inr (request_system ab args)
      else
        and_then (matches_node (load_local_identity env w) node_id) (\<lambda>own.
        if own then Inr (request_system ab args)
        else
          and_then
            (if parsed (de_api env) node_id \<noteq> None then Inr node_id
             else if trim tn \<noteq> [] then Inr (device_ura (de_api env) (trim tn) node_id)
             else
               Inl (Validation (''cannot resolve EAL device target '' @ de_debug env node_id @
                 '': no tenant in scope''))) (\<lambda>target.
          case request_remote_target (de_api env) target ab args of
            Inl e \<Rightarrow> Inl (Validation (''parse device target: '' @ remote_target_error_display (de_kind env) e))
          | Inr r \<Rightarrow> Inr r)))"

definition validate_agent_target ::
  "('w, 'e, 'z) dispatch_env_scheme \<Rightarrow> agent_id \<Rightarrow> string \<Rightarrow> eal_error + ability_manifest" where
  "validate_agent_target env agent ab =
     (let key = agent_id_display agent in
      case de_agents env key of
        None \<Rightarrow> Inl (NotFound (''agent '' @ [CHR 0x27] @ key @ [CHR 0x27] @ '' not found in registry''))
      | Some entry \<Rightarrow>
          (case find (\<lambda>m. mf_name m = ab) (de_manifests_for env (name agent) entry) of
             None \<Rightarrow> Inl (NotFound (''unknown ability: '' @ name agent @ ''.'' @ ab))
           | Some m \<Rightarrow> Inr m))"

definition dispatch_request ::
  "('w, 'e, 'z) dispatch_env_scheme \<Rightarrow> run_context \<Rightarrow> ir_target \<Rightarrow> ability_name \<Rightarrow> json \<Rightarrow> nat option
    \<Rightarrow> receipt_anchor list \<Rightarrow> 'w \<Rightarrow> eal_error + invocation_request" where
  "dispatch_request env run target ab args timeout_ms deps w =
     and_then
       (case target of
          IrAgent agent \<Rightarrow>
            and_then (validate_agent_target env agent (ability_str ab)) (\<lambda>m.
            Inr (request_hosted_agent (name agent) (ability_str ab) args,
                 map_option from_secs (mf_timeout_seconds m)))
        | IrDevice node_id \<Rightarrow>
            and_then (device_request env (rc_tenant run) node_id (ability_str ab) args w) (\<lambda>r.
            Inr (r, None))) (\<lambda>(request, target_timeout).
     Inr (with_trace_id (rc_trace_id run)
           (with_dependency_receipts deps
             (with_dispatch_timeout
               (case timeout_ms of
                  Some ms \<Rightarrow> from_millis ms
                | None \<Rightarrow> (case target_timeout of Some t \<Rightarrow> t | None \<Rightarrow> from_secs 30))
               request))))"

definition agent_aware_dispatch ::
  "('w, 'e, 'z) dispatch_env_scheme \<Rightarrow> run_context \<Rightarrow> ir_target \<Rightarrow> ability_name \<Rightarrow> json \<Rightarrow> nat option
    \<Rightarrow> receipt_anchor list \<Rightarrow> 'w \<Rightarrow> (eal_error + dispatch_outcome) \<times> 'w" where
  "agent_aware_dispatch env run target ab args timeout_ms deps w =
     (case dispatch_request env run target ab args timeout_ms deps w of
        Inl e \<Rightarrow> (Inl e, w)
      | Inr request \<Rightarrow>
          (case de_invoke env request w of
             (Inl e, w) \<Rightarrow> (Inl (Unavailable (''Mission child dispatch: '' @ e)), w)
           | (Inr outcome, w) \<Rightarrow> (Inr outcome, w)))"

text \<open>The runtime of a mission run by the production dispatcher.\<close>

definition agent_aware_runtime ::
  "('w, 'e, 'z) dispatch_env_scheme \<Rightarrow> ('w, 'y) runtime_scheme \<Rightarrow> ('w, 'y) runtime_scheme" where
  "agent_aware_runtime env rt =
     rt\<lparr>rt_dispatch := agent_aware_dispatch env, rt_concurrency := Parallel,
        rt_clone := (\<lambda>w. (Inr (), w))\<rparr>"

text \<open>
  \<open>execute_with_gateway_for_trace_with_timeout\<close>: the dispatcher is built on the registry projection
  \<open>load\<close> reads; when it cannot be read, nothing is dispatched.
\<close>

definition execute_with_gateway ::
  "('w \<Rightarrow> string + (string \<rightharpoonup> 'e)) \<Rightarrow> ('w, 'e, 'z) dispatch_env_scheme \<Rightarrow> ('w, 'y) runtime_scheme \<Rightarrow> string
    \<Rightarrow> mission_ir \<Rightarrow> string \<Rightarrow> nat option \<Rightarrow> 'w \<Rightarrow> (string + execution_report) \<times> 'w" where
  "execute_with_gateway load env rt tn ir trace_id run_timeout w =
     (case load w of
        Inl e \<Rightarrow> (Inl (''load Agent registry projection for EAL dispatch: '' @ e), w)
      | Inr agents \<Rightarrow>
          (case execute_mission (agent_aware_runtime (env\<lparr>de_agents := agents\<rparr>) rt) tn ir trace_id run_timeout w of
             (report, w) \<Rightarrow> (Inr report, w)))"

section \<open>What a request carries\<close>

lemma eq_ignore_ascii_case_refl: "eq_ignore_ascii_case s s"
  by (simp add: eq_ignore_ascii_case_def)

lemma request_remote_target_iff:
  "request_remote_target api target ab args = Inr rq \<longleftrightarrow>
     (\<exists>p. parse_ura api (trim target) = Inr p \<and>
        (up_kind p = KDevice \<and> rq = request_for ab args (RemoteDeviceHost (trim target)) \<or>
         (up_kind p = KAgent \<or> up_kind p = KAuthority) \<and> rq = request_for ab args (RemoteCallee (trim target))))"
  by (auto simp: request_remote_target_def Let_def split: sum.splits ura_kind.splits)

text \<open>Whether a device target names this device, and the address of one that does not.\<close>

definition names_this_device :: "('w, 'e, 'z) dispatch_env_scheme \<Rightarrow> string \<Rightarrow> 'w \<Rightarrow> bool" where
  "names_this_device env node w \<longleftrightarrow>
     trim node = [] \<or> eq_ignore_ascii_case (trim node) ''local'' \<or>
     load_local_identity env w = KnownNode (trim node)"

definition device_address :: "ura_api \<Rightarrow> string \<Rightarrow> string \<Rightarrow> string" where
  "device_address api tn node =
     (if parsed api (trim node) \<noteq> None then trim node else trim (device_ura api (trim tn) (trim node)))"

lemma device_request_local:
  "names_this_device env node w \<Longrightarrow> device_request env tn node ab args w = Inr (request_system ab args)"
  by (auto simp: names_this_device_def device_request_def matches_node_def Let_def)

lemma device_request_remote:
  assumes "\<not> names_this_device env node w" and "device_request env tn node ab args w = Inr rq"
  shows "\<exists>own p. load_local_identity env w = KnownNode own \<and> own \<noteq> trim node \<and>
     parse_ura (de_api env) (device_address (de_api env) tn node) = Inr p \<and>
     (up_kind p = KDevice \<and> rq = request_for ab args (RemoteDeviceHost (device_address (de_api env) tn node)) \<or>
      (up_kind p = KAgent \<or> up_kind p = KAuthority) \<and>
      rq = request_for ab args (RemoteCallee (device_address (de_api env) tn node)))"
  using assms
  by (auto simp: names_this_device_def device_request_def matches_node_def device_address_def Let_def
      request_remote_target_iff and_then_def trim_trim
      split: local_node_identity.splits sum.splits if_splits)

lemma dispatch_request_cases:
  assumes "dispatch_request env run target ab args timeout_ms deps w = Inr rq"
  obtains (agent) a m where "target = IrAgent a" "validate_agent_target env a (ability_str ab) = Inr m"
      "rq = with_trace_id (rc_trace_id run) (with_dependency_receipts deps (with_dispatch_timeout
         (case timeout_ms of Some ms \<Rightarrow> from_millis ms
          | None \<Rightarrow> (case mf_timeout_seconds m of Some t \<Rightarrow> from_secs t | None \<Rightarrow> from_secs 30))
         (request_hosted_agent (name a) (ability_str ab) args)))"
    | (device) node rq0 where "target = IrDevice node"
      "device_request env (rc_tenant run) node (ability_str ab) args w = Inr rq0"
      "rq = with_trace_id (rc_trace_id run) (with_dependency_receipts deps (with_dispatch_timeout
         (case timeout_ms of Some ms \<Rightarrow> from_millis ms | None \<Rightarrow> from_secs 30) rq0))"
proof (cases target)
  case (IrAgent a)
  with assms show thesis
    by (cases "validate_agent_target env a (ability_str ab)")
      (auto simp: dispatch_request_def intro!: agent split: option.splits)
next
  case (IrDevice node)
  with assms show thesis
    by (cases "device_request env (rc_tenant run) node (ability_str ab) args w")
      (auto simp: dispatch_request_def intro!: device split: option.splits)
qed

lemmas request_simps = with_trace_id_def with_dependency_receipts_def with_dispatch_timeout_def
  request_hosted_agent_def request_system_def request_for_def

lemma device_request_cases:
  assumes "device_request env tn node ab args w = Inr rq"
  obtains (local) "names_this_device env node w" "rq = request_for ab args LocalDeviceHost"
    | (device) "\<not> names_this_device env node w"
      "rq = request_for ab args (RemoteDeviceHost (device_address (de_api env) tn node))"
    | (callee) "\<not> names_this_device env node w"
      "rq = request_for ab args (RemoteCallee (device_address (de_api env) tn node))"
  using device_request_local [of env node w tn ab args] device_request_remote [OF _ assms] assms
  by (cases "names_this_device env node w") (auto simp: request_system_def)

lemma validate_agent_target_iff:
  "validate_agent_target env a ab = Inr m \<longleftrightarrow>
     (\<exists>entry. de_agents env (agent_id_display a) = Some entry \<and>
        find (\<lambda>m. mf_name m = ab) (de_manifests_for env (name a) entry) = Some m)"
  by (auto simp: validate_agent_target_def Let_def split: option.splits)

text \<open>C38: A child request carries exactly the step's ability, its resolved arguments, the receipts of the
  calls it depends on and the id of the run. Its timeout is the budget left to the step; without one it is
  the timeout the ability's manifest declares for an agent target, and thirty seconds otherwise.\<close>

theorem child_request_contract:
  assumes "dispatch_request env run target ab args timeout_ms deps w = Inr rq"
  shows "iq_ability rq = ability_str ab \<and> iq_args rq = args \<and> iq_dependency_receipts rq = deps \<and>
     iq_trace_id rq = Some (rc_trace_id run) \<and>
     (case timeout_ms of
        Some ms \<Rightarrow> iq_timeout rq = from_millis ms
      | None \<Rightarrow>
          (case target of
             IrDevice node \<Rightarrow> iq_timeout rq = from_secs 30
           | IrAgent a \<Rightarrow>
               (case validate_agent_target env a (ability_str ab) of
                  Inl e \<Rightarrow> False
                | Inr m \<Rightarrow> iq_timeout rq = from_secs (case mf_timeout_seconds m of Some t \<Rightarrow> t | None \<Rightarrow> 30))))"
  using assms
proof (cases rule: dispatch_request_cases)
  case (agent a m)
  then show ?thesis by (auto simp: request_simps split: option.splits)
next
  case (device node rq0)
  from device(2) show ?thesis
    by (rule device_request_cases) (auto simp: device request_simps split: option.splits)
qed

text \<open>A device \<open>n0\<close> with one agent, and the same device before it is paired; the gateway answers every
  request.\<close>

definition demo_env :: "string option \<Rightarrow> (nat, unit) dispatch_env" where
  "demo_env node =
     \<lparr>de_api = demo_api, de_agents = [''default/claude'' \<mapsto> ()],
      de_manifests_for = (\<lambda>n e. [\<lparr>mf_name = ''chat'', mf_timeout_seconds = Some 90\<rparr>]),
      de_credentials = (\<lambda>w. Inr node),
      de_invoke = (\<lambda>rq n. (Inr \<lparr>do_value = done_object True,
        do_invocation = demo_record (iq_ability rq) (iq_dependency_receipts rq)\<rparr>, n + 1)),
      de_debug = (\<lambda>s. s), de_kind = (\<lambda>k. ''kind'')\<rparr>"

definition claude :: agent_id where "claude = \<lparr>tenant = ''default'', name = ''claude''\<rparr>"

lemma demo_validate:
  "validate_agent_target (demo_env node) claude ''chat'' = Inr \<lparr>mf_name = ''chat'', mf_timeout_seconds = Some 90\<rparr>"
  by (simp add: validate_agent_target_def agent_id_display_def claude_def demo_env_def)

lemma demo_agent_request:
  "dispatch_request (demo_env (Some ''n0'')) (demo_run None) (IrAgent claude) (AbilityName ''chat'') JNull None [] 0 =
     Inr \<lparr>iq_ability = ''chat'', iq_args = JNull, iq_target = HostedAgent ''claude'', iq_timeout = from_secs 90,
          iq_dependency_receipts = [], iq_trace_id = Some ''t1''\<rparr>"
  by (simp add: dispatch_request_def demo_validate demo_run_def request_simps) (simp add: claude_def)

theorem child_request_contract_witness:
  "iq_timeout (projr (dispatch_request (demo_env (Some ''n0'')) (demo_run None) (IrAgent claude)
     (AbilityName ''chat'') JNull None [] 0)) = from_secs 90"
  using child_request_contract [OF demo_agent_request]
  by (simp add: demo_agent_request demo_validate)

section \<open>Where a call may go\<close>

text \<open>The registry has the agent under its full key, and its manifests offer the ability.\<close>

definition ability_offered :: "('w, 'e, 'z) dispatch_env_scheme \<Rightarrow> agent_id \<Rightarrow> string \<Rightarrow> bool" where
  "ability_offered env a ab \<longleftrightarrow>
     (case de_agents env (tenant a @ ''/'' @ name a) of
        None \<Rightarrow> False
      | Some entry \<Rightarrow> ab \<in> mf_name ` set (de_manifests_for env (name a) entry))"

lemma validate_agent_target_offered:
  "if ability_offered env a ab then \<exists>m. validate_agent_target env a ab = Inr m
   else \<exists>reason. validate_agent_target env a ab = Inl (NotFound reason)"
  by (auto simp: ability_offered_def validate_agent_target_def agent_id_display_def Let_def find_None_iff
      find_Some_iff split: option.splits)

text \<open>C33: A device target stays on this device exactly when it is empty, says \<open>local\<close> in any case or is this
  node's own id. Any other request leaves only from a paired device, and goes to the address that the target
  is or that the tenant makes of it, provided that address parses as a device, an agent or an authority.\<close>

theorem device_target_exact:
  assumes "device_request env tn node ab args w = Inr rq"
  shows "(iq_target rq = LocalDeviceHost \<longleftrightarrow> names_this_device env node w) \<and>
     (names_this_device env node w \<or>
      (\<exists>own p. load_local_identity env w = KnownNode own \<and>
         parse_ura (de_api env) (device_address (de_api env) tn node) = Inr p \<and>
         (up_kind p = KDevice \<and> iq_target rq = RemoteDeviceHost (device_address (de_api env) tn node) \<or>
          up_kind p \<in> {KAgent, KAuthority} \<and>
          iq_target rq = RemoteCallee (device_address (de_api env) tn node))))"
proof (cases "names_this_device env node w")
  case True
  with device_request_local [OF True, of tn ab args] assms show ?thesis
    by (auto simp: request_simps)
next
  case False
  from device_request_remote [OF False assms] show ?thesis using False by (auto simp: request_simps)
qed

lemma demo_trims:
  "trim ''n0'' = ''n0''" "trim ''d1'' = ''d1''" "trim ''r'' = ''r''" "trim ''device:d1'' = ''device:d1''"
  by (simp_all add: trim_id trimmed_printable)

lemma demo_identity:
  "load_local_identity (demo_env (Some ''n0'')) w = KnownNode ''n0''"
  "load_local_identity (demo_env None) w = UnpairedNode"
  by (simp_all add: load_local_identity_def demo_env_def demo_trims)

lemma demo_not_this_device:
  "\<not> names_this_device (demo_env (Some ''n0'')) ''d1'' w" "\<not> names_this_device (demo_env None) ''d1'' w"
  by (simp_all add: names_this_device_def demo_identity demo_trims eq_ignore_ascii_case_def to_ascii_lowercase_def)

lemma demo_remote_request:
  "device_request (demo_env (Some ''n0'')) ''r'' ''d1'' ''chat'' JNull 0 =
     Inr (request_for ''chat'' JNull (RemoteDeviceHost ''device:d1''))"
  using demo_not_this_device(1) [of 0, unfolded names_this_device_def demo_identity demo_trims]
  by (simp add: device_request_def demo_identity demo_trims matches_node_def parsed_def request_remote_target_def)
    (simp add: demo_env_def demo_api_def demo_trims)

theorem device_target_exact_witness:
  "\<exists>own p. load_local_identity (demo_env (Some ''n0'')) 0 = KnownNode own \<and>
     parse_ura demo_api ''device:d1'' = Inr p \<and> up_kind p = KDevice"
  using device_target_exact [OF demo_remote_request] demo_not_this_device(1) [of 0]
  by (auto simp: request_for_def demo_env_def)

text \<open>An unpaired device, and one whose stored credentials cannot be read or name no node, refuses
  every device target other than itself before the gateway is reached.\<close>

theorem unpaired_device_refused:
  assumes "\<forall>own. load_local_identity env w \<noteq> KnownNode own" and "\<not> names_this_device env node w"
  shows "\<exists>reason. agent_aware_dispatch env run (IrDevice node) ab args timeout_ms deps w =
     (Inl (Unavailable reason), w)"
  using assms
  by (auto simp: agent_aware_dispatch_def dispatch_request_def device_request_def names_this_device_def
      matches_node_def Let_def split: local_node_identity.splits)

theorem unpaired_device_refused_witness:
  "\<exists>reason. agent_aware_dispatch (demo_env None) (demo_run None) (IrDevice ''d1'') (AbilityName ''chat'') JNull
     None [] 0 = (Inl (Unavailable reason), 0)"
  by (rule unpaired_device_refused) (simp_all add: demo_identity demo_not_this_device)

text \<open>C34: A call to an agent reaches the gateway exactly when the registry has the agent under its full
  \<open>tenant/name\<close> key and the agent's manifests offer the ability; any other call is \<open>not_found\<close> and leaves
  the world alone.\<close>

theorem agent_target_exact:
  "if ability_offered env a (ability_str ab)
   then \<exists>rq. dispatch_request env run (IrAgent a) ab args timeout_ms deps w = Inr rq \<and>
     iq_target rq = HostedAgent (name a)
   else \<exists>reason. agent_aware_dispatch env run (IrAgent a) ab args timeout_ms deps w = (Inl (NotFound reason), w)"
  using validate_agent_target_offered [of env a "ability_str ab"]
  by (auto simp: dispatch_request_def agent_aware_dispatch_def request_simps)

section \<open>The requests of a mission\<close>

text \<open>The world with the list of requests the gateway has been given, each with the world it was made in, and the
  environment and the runtime over it.\<close>

type_synonym 'w recorded = "'w \<times> ('w \<times> invocation_request) list"

definition recording :: "('w, 'e, 'z) dispatch_env_scheme \<Rightarrow> ('w recorded, 'e) dispatch_env" where
  "recording env =
     \<lparr>de_api = de_api env, de_agents = de_agents env, de_manifests_for = de_manifests_for env,
      de_credentials = (\<lambda>(w, log). de_credentials env w),
      de_invoke = (\<lambda>rq (w, log). case de_invoke env rq w of (r, w') \<Rightarrow> (r, w', log @ [(w, rq)])),
      de_debug = de_debug env, de_kind = de_kind env\<rparr>"

definition recorded_runtime :: "('w, 'z) runtime_scheme \<Rightarrow> 'w recorded runtime" where
  "recorded_runtime rt =
     \<lparr>rt_dispatch = (\<lambda>run target ab args t deps (w, log).
        case rt_dispatch rt run target ab args t deps w of (r, w') \<Rightarrow> (r, w', log)),
      rt_concurrency = rt_concurrency rt,
      rt_clone = (\<lambda>(w, log). case rt_clone rt w of (r, w') \<Rightarrow> (r, w', log)),
      rt_schedule = (\<lambda>is (w, log). rt_schedule rt is w),
      rt_instant = (\<lambda>(w, log). case rt_instant rt w of (t, w') \<Rightarrow> (t, w', log)),
      rt_unix_ms = (\<lambda>(w, log). case rt_unix_ms rt w of (t, w') \<Rightarrow> (t, w', log)),
      rt_sleep = (\<lambda>ms (w, log). (rt_sleep rt ms w, log)),
      rt_sha256 = rt_sha256 rt, rt_from_slice = rt_from_slice rt, rt_to_vec = rt_to_vec rt,
      rt_display_json = rt_display_json rt, rt_utf8_lossy = rt_utf8_lossy rt\<rparr>"

text \<open>The timeout of a request for a call with this limit, under a deadline of the run: the limit, cut down to the
  time left; without limit and deadline the default.\<close>

definition timed :: "nat option \<Rightarrow> nat option \<Rightarrow> duration \<Rightarrow> duration \<Rightarrow> bool" where
  "timed deadline limit otherwise t \<longleftrightarrow>
     (if deadline = None \<and> limit = None then t = otherwise
      else \<exists>ms. budgeted deadline limit (Some ms) \<and> t = from_millis ms)"

text \<open>Where a request of the world \<open>v\<close> goes for a device target: here if the target names this device, and otherwise,
  from a paired device, to the address it stands for.\<close>

definition device_target :: "('w, 'e, 'z) dispatch_env_scheme \<Rightarrow> string \<Rightarrow> string \<Rightarrow> 'w \<Rightarrow> invocation_target \<Rightarrow> bool" where
  "device_target env tn node v target \<longleftrightarrow>
     (if names_this_device env node v then target = LocalDeviceHost
      else \<exists>own p. load_local_identity env v = KnownNode own \<and>
        parse_ura (de_api env) (device_address (de_api env) tn node) = Inr p \<and>
        (up_kind p = KDevice \<and> target = RemoteDeviceHost (device_address (de_api env) tn node) \<or>
         up_kind p \<in> {KAgent, KAuthority} \<and> target = RemoteCallee (device_address (de_api env) tn node)))"

text \<open>A request that serves the call \<open>c\<close> in the run \<open>trace_id\<close> of a tenant.\<close>

definition serves ::
  "('w, 'e, 'z) dispatch_env_scheme \<Rightarrow> string \<Rightarrow> string \<Rightarrow> nat option \<Rightarrow> 'w \<times> invocation_request \<Rightarrow> ir_call \<Rightarrow> bool" where
  "serves env tn trace_id deadline logged_request c \<longleftrightarrow>
     (case logged_request of (v, rq) \<Rightarrow>
        iq_ability rq = ability_str (ability c) \<and> iq_trace_id rq = Some trace_id \<and>
        (case ir_target c of
           IrAgent a \<Rightarrow> iq_target rq = HostedAgent (name a) \<and>
             (\<exists>entry m. de_agents env (tenant a @ ''/'' @ name a) = Some entry \<and>
                m \<in> set (de_manifests_for env (name a) entry) \<and> mf_name m = ability_str (ability c) \<and>
                timed deadline (step_timeout_ms c) (from_secs (case mf_timeout_seconds m of Some t \<Rightarrow> t | None \<Rightarrow> 30))
                  (iq_timeout rq))
         | IrDevice node \<Rightarrow> device_target env tn node v (iq_target rq) \<and>
             timed deadline (step_timeout_ms c) (from_secs 30) (iq_timeout rq)))"

definition all_served ::
  "('w, 'e, 'z) dispatch_env_scheme \<Rightarrow> string \<Rightarrow> string \<Rightarrow> nat option \<Rightarrow> ir_call list \<Rightarrow> 'w recorded \<Rightarrow> bool" where
  "all_served env tn trace_id deadline calls w \<longleftrightarrow>
     list_all (\<lambda>rq. list_ex (serves env tn trace_id deadline rq) calls) (snd w)"

lemma budgeted_timed:
  "budgeted deadline limit budget \<Longrightarrow>
     timed deadline limit otherwise (case budget of Some ms \<Rightarrow> from_millis ms | None \<Rightarrow> otherwise)"
  by (cases budget) (auto simp: timed_def budgeted_def split: option.splits)

lemma device_request_target:
  assumes "device_request env tn node ab args w = Inr rq"
  shows "device_target env tn node w (iq_target rq) \<and> iq_ability rq = ab"
proof (cases "names_this_device env node w")
  case True
  with device_request_local [OF True, of tn ab args] assms show ?thesis by (auto simp: device_target_def request_simps)
next
  case False
  from device_request_remote [OF False assms] False show ?thesis by (auto simp: device_target_def request_simps)
qed

lemma dispatch_request_serves:
  assumes "dispatch_request env run (ir_target c) (ability c) args budget deps w = Inr rq"
    and "budgeted (rc_deadline run) (step_timeout_ms c) budget"
  shows "serves env (rc_tenant run) (rc_trace_id run) (rc_deadline run) (w, rq) c"
  using assms(1)
proof (cases rule: dispatch_request_cases)
  case (agent a m)
  let ?default = "from_secs (case mf_timeout_seconds m of Some t \<Rightarrow> t | None \<Rightarrow> 30)"
  have "iq_timeout rq = (case budget of Some ms \<Rightarrow> from_millis ms | None \<Rightarrow> ?default)"
    by (simp add: agent request_simps split: option.split)
  with budgeted_timed [OF assms(2), of ?default]
  have t: "timed (rc_deadline run) (step_timeout_ms c) ?default (iq_timeout rq)" by simp
  from agent(2) obtain entry where "de_agents env (tenant a @ ''/'' @ name a) = Some entry"
    "m \<in> set (de_manifests_for env (name a) entry)" "mf_name m = ability_str (ability c)"
    by (auto simp: validate_agent_target_iff agent_id_display_def find_Some_iff)
  with t show ?thesis unfolding serves_def by (auto simp: agent request_simps)
next
  case (device node rq0)
  from device_request_target [OF device(2)] budgeted_timed [OF assms(2), of "from_secs 30"]
  show ?thesis by (simp add: serves_def device request_simps)
qed

lemma recording_fields:
  "de_api (recording env) = de_api env" "de_agents (recording env) = de_agents env"
  "de_manifests_for (recording env) = de_manifests_for env" "de_debug (recording env) = de_debug env"
  "de_kind (recording env) = de_kind env"
  "load_local_identity (recording env) (w, log) = load_local_identity env w"
  by (simp_all add: recording_def load_local_identity_def)

lemma recording_request:
  "dispatch_request (recording env) run target ab args budget deps (w, log) =
     dispatch_request env run target ab args budget deps w"
  unfolding dispatch_request_def validate_agent_target_def device_request_def recording_fields ..

interpretation confined:
  world_invariant "agent_aware_runtime (recording env) (recorded_runtime rt)"
    "all_served env tn trace_id deadline calls"
    "\<lambda>run c. run = \<lparr>rc_tenant = tn, rc_trace_id = trace_id, rc_deadline = deadline\<rparr> \<and> c \<in> set calls"
  for env :: "('w, 'e, 'z) dispatch_env_scheme" and rt :: "('w, 'y) runtime_scheme" and tn trace_id deadline calls
proof
  fix run :: run_context and c :: ir_call and budget w args deps
  assume c: "run = \<lparr>rc_tenant = tn, rc_trace_id = trace_id, rc_deadline = deadline\<rparr> \<and> c \<in> set calls"
    "budgeted (rc_deadline run) (step_timeout_ms c) budget" "all_served env tn trace_id deadline calls w"
  obtain v log where w: "w = (v, log)" by fastforce
  show "all_served env tn trace_id deadline calls (snd (rt_dispatch (agent_aware_runtime (recording env) (recorded_runtime rt))
      run (ir_target c) (ability c) args budget deps w))"
  proof (cases "dispatch_request env run (ir_target c) (ability c) args budget deps v")
    case (Inl e)
    with c(3) show ?thesis
      by (simp add: agent_aware_runtime_def agent_aware_dispatch_def w recording_request)
  next
    case (Inr rq)
    from dispatch_request_serves [OF this c(2)] c(1) have "list_ex (serves env tn trace_id deadline (v, rq)) calls"
      by (auto simp: list_ex_iff)
    moreover have "snd (snd (de_invoke (recording env) rq (v, log))) = log @ [(v, rq)]"
      by (simp add: recording_def split: prod.splits)
    ultimately show ?thesis using c(3) Inr
      by (auto simp: agent_aware_runtime_def agent_aware_dispatch_def w recording_request
          all_served_def split: prod.splits sum.splits)
  qed
qed (auto simp: agent_aware_runtime_def recorded_runtime_def all_served_def split: prod.splits)

lemma recording_agents: "(recording env)\<lparr>de_agents := agents\<rparr> = recording (env\<lparr>de_agents := agents\<rparr>)"
  by (simp add: recording_def)

lemma recorded_deadline:
  "run_deadline (agent_aware_runtime env (recorded_runtime rt)) run_timeout (w, log) = run_deadline rt run_timeout w"
  by (auto simp: run_deadline_def agent_aware_runtime_def recorded_runtime_def split: option.split prod.split)


definition agent_mission :: mission_ir where
  "agent_mission =
     \<lparr>ir_name = ''m'', ir_steps = [IrStepCall (demo_call ''s1'' [] None IrAbort\<lparr>ir_target := IrAgent claude\<rparr>)],
      ir_phases = [\<lparr>range_start = 0, range_end = 1\<rparr>], ir_emits = [], ir_constraints = default_constraints\<rparr>"

definition demo_log :: "(nat \<times> invocation_request) list" where
  "demo_log = snd (snd (execute_with_gateway ((\<lambda>w. Inr [''default/claude'' \<mapsto> ()]) \<circ> fst)
     (recording (demo_env (Some ''n0''))) (recorded_runtime (scripted_runtime (recovering 0)))
     ''default'' agent_mission ''m1'' None (0, [])))"

lemma demo_log_length: "length demo_log = 1"
  by code_simp

lemma demo_env_agents: "demo_env node\<lparr>de_agents := [''default/claude'' \<mapsto> ()]\<rparr> = demo_env node"
  by (simp add: demo_env_def)


end
