(* ===== verification/AccessTypes.thy ===== *)
theory AccessTypes
  imports CoreIdentity EalIr
begin

text \<open>
  The data of access control: principals, actions, owners and decisions
  (\<open>src/daemon/invocation/admission/decision.rs\<close>), permission grants
  (\<open>grant_matcher.rs\<close>) and the vocabulary of device callers (\<open>device_caller_types.rs\<close>).

  An instant (\<open>chrono::DateTime<Utc>\<close>) is a number of nanoseconds. Timestamps are kept as text; how
  \<open>DateTime::parse_from_rfc3339\<close> reads one is the parameter \<open>rfc\<close> of the definitions that use it.
  The years RFC 3339 can write are far from the ends of chrono's range, so adding days does not overflow.
\<close>

type_synonym instant = int
type_synonym rfc3339 = "string \<Rightarrow> instant option"

datatype principal_kind = PkUser | PkAgent | PkToken | PkHub | PkDeviceCustody | PkService | PkAutomation

datatype token_class = TcHubLink | TcBrowserSession | TcDevicePairing | TcAutomation | TcThirdParty | TcService

datatype access_action = ARead | AInvoke | AStream | AManage | AGrant

datatype owner_source = OsSubject | OsCallee | OsDevice | OsSession | OsUnresolved

definition owner_source_str :: "owner_source \<Rightarrow> string" where
  "owner_source_str s =
     (case s of
        OsSubject \<Rightarrow> ''subject'' | OsCallee \<Rightarrow> ''callee'' | OsDevice \<Rightarrow> ''device''
      | OsSession \<Rightarrow> ''session'' | OsUnresolved \<Rightarrow> ''unresolved'')"

record owner_resolution =
  or_owner_user_ura :: "string option"
  or_owner_ura :: "string option"
  or_owner_source :: owner_source
  or_audit_warnings :: "string list"

definition owner_unresolved :: "string \<Rightarrow> owner_resolution" where
  "owner_unresolved reason =
     \<lparr>or_owner_user_ura = None, or_owner_ura = None, or_owner_source = OsUnresolved,
      or_audit_warnings = [reason]\<rparr>"

section \<open>Decisions\<close>

datatype policy_outcome = OAllow | ODeny | OPrompt

datatype policy_reason =
    OwnerAllow | ExplicitGrantAllow | SystemRuleAllow | AuthorityProofAllow
  | InvocationLifecycleControlAllow | FederationForwardAllow | ExplicitDeny | HubTokenReadAllow
  | MissingGrant | GrantReconfirmationRequired | TokenScopeDenied | CallerNotOwner | OwnerUnresolved
  | InteractiveApprovalRequired | NonInteractiveDeny | AuthorityProofExpiredReason
  | AuthorityProofMismatchReason

record policy_decision =
  pd_decision :: policy_outcome
  pd_reason :: policy_reason
  pd_owner_user_ura :: "string option"
  pd_owner_source :: owner_source
  pd_caller_ura :: string
  pd_principal_kind :: principal_kind
  pd_principal_id :: string
  pd_token_id :: "string option"
  pd_token_class :: "token_class option"
  pd_callee_ura :: string
  pd_subject_ura :: string
  pd_ability_ura :: string
  pd_action :: access_action
  pd_rejector_ura :: "string option"
  pd_policy_rule_id :: "string option"
  pd_grant_id :: "string option"
  pd_prompt_request_id :: "string option"
  pd_canonical_hash :: "string option"
  pd_signature_key_id :: "string option"
  pd_authority_proof_id :: "string option"

section \<open>Permission requests\<close>

datatype request_status = RqPending | RqApproved | RqDenied | RqExpired | RqCancelled

fun status_is_terminal :: "request_status \<Rightarrow> bool" where
  "status_is_terminal RqPending = False"
| "status_is_terminal RqApproved = True"
| "status_is_terminal RqDenied = True"
| "status_is_terminal RqExpired = True"
| "status_is_terminal RqCancelled = True"

datatype permission_lifetime = LtOnce | LtSession | LtTtl | LtPermanent

record permission_request =
  pr_request_id :: string
  pr_owner_user_ura :: string
  pr_caller_ura :: string
  pr_principal_kind :: principal_kind
  pr_principal_id :: string
  pr_token_id :: "string option"
  pr_token_class :: "token_class option"
  pr_callee_ura :: string
  pr_subject_ura :: string
  pr_ability_ura :: string
  pr_action :: access_action
  pr_nonce :: "string option"
  pr_canonical_hash :: "string option"
  pr_requested_lifetimes :: "permission_lifetime list"
  pr_status :: request_status
  pr_created_at :: string
  pr_expires_at :: string
  pr_resolver_ura :: "string option"
  pr_resolved_lifetime :: "permission_lifetime option"
  pr_created_grant_id :: "string option"
  pr_authority_proof_id :: "string option"
  pr_resolved_at :: "string option"
  pr_decision_reason :: "string option"

section \<open>Grants\<close>

datatype network_scope = NetLocal | NetPaired | NetFederated

record permission_constraints =
  pc_args_schema_filter :: "json option"
  pc_resource_types :: "string list"
  pc_network_scope :: "network_scope option"
  pc_max_duration_ms :: "nat option"
  pc_max_invocations :: "nat option"
  pc_requires_user_present :: "bool option"

datatype permission_effect = EffAllow | EffDeny

datatype grant_lifetime = GlOnce | GlSession | GlTtl | GlPermanent

datatype grant_state = GsActive | GsExpired | GsRevoked

record permission_grant =
  pg_grant_id :: string
  pg_owner_user_ura :: string
  pg_principal_kind :: principal_kind
  pg_principal_id :: string
  pg_token_id :: "string option"
  pg_token_class :: "token_class option"
  pg_session_id :: "string option"
  pg_session_expires_at :: "string option"
  pg_callee_ura :: "string option"
  pg_subject_ura_pattern :: "string option"
  pg_ability_ura_pattern :: "string option"
  pg_actions :: "access_action list"
  pg_constraints :: "permission_constraints option"
  pg_effect :: permission_effect
  pg_lifetime :: grant_lifetime
  pg_state :: grant_state
  pg_expires_at :: "string option"
  pg_review_required_after :: "string option"
  pg_last_reviewed_at :: "string option"
  pg_last_used_at :: "string option"
  pg_created_by :: string
  pg_created_at :: string
  pg_updated_at :: "string option"
  pg_revoked_at :: "string option"
  pg_reason :: "string option"

section \<open>Device callers\<close>

datatype device_purpose =
    DpBootstrap | DpPairing | DpPublicationCustody | DpDeviceSelfSession | DpLifecycleSelfRevoke
  | DpHostedAgentRetraction | DpAbilityCatalogDiff

record verified_purpose =
  vp_purpose :: device_purpose
  vp_invocation_binding :: string

definition purpose_is :: "verified_purpose \<Rightarrow> device_purpose \<Rightarrow> bool" where
  "purpose_is p expected \<longleftrightarrow> vp_purpose p = expected"

definition carries_pairing_token_scope :: "verified_purpose \<Rightarrow> bool" where
  "carries_pairing_token_scope p \<longleftrightarrow> vp_purpose p = DpBootstrap \<or> vp_purpose p = DpPairing"

end
