(* ===== verification/GrantMatcher.thy ===== *)
theory GrantMatcher
  imports AccessTypes "HOL-Library.Product_Lexorder"
begin

text \<open>
  Permission grants (\<open>src/daemon/invocation/admission/grant_matcher.rs\<close>): when a grant is active,
  when it must be reconfirmed, and which grant decides an invocation.
\<close>

section \<open>Lifetimes\<close>

definition days :: "nat \<Rightarrow> instant" where
  "days n = int n * 86400000000000"

definition session_active_at :: "rfc3339 \<Rightarrow> permission_grant \<Rightarrow> instant \<Rightarrow> bool" where
  "session_active_at rfc g now =
     (case Option.bind (pg_session_expires_at g) rfc of None \<Rightarrow> False | Some expiry \<Rightarrow> expiry > now)"

definition active_at :: "rfc3339 \<Rightarrow> permission_grant \<Rightarrow> instant \<Rightarrow> bool" where
  "active_at rfc g now =
     (if pg_state g \<noteq> GsActive then False
      else if pg_lifetime g = GlOnce \<and> pg_last_used_at g \<noteq> None then False
      else if pg_lifetime g = GlSession \<and> \<not> session_active_at rfc g now then False
      else
        (case pg_expires_at g of
           Some raw \<Rightarrow> (case rfc raw of None \<Rightarrow> False | Some expiry \<Rightarrow> expiry > now)
         | None \<Rightarrow> True))"

definition session_matches :: "rfc3339 \<Rightarrow> permission_grant \<Rightarrow> string option \<Rightarrow> instant \<Rightarrow> bool" where
  "session_matches rfc g session_id now =
     (if pg_lifetime g \<noteq> GlSession then True else active_at rfc g now \<and> pg_session_id g = session_id)"

definition review_interval_for_actions :: "access_action list \<Rightarrow> instant option" where
  "review_interval_for_actions actions =
     (if list_ex (\<lambda>a. a = AManage \<or> a = AGrant) actions then Some (days 30)
      else if AStream \<in> set actions then Some (days 90) else None)"

definition default_reconfirmation_deadline :: "rfc3339 \<Rightarrow> permission_grant \<Rightarrow> instant option" where
  "default_reconfirmation_deadline rfc g =
     (if pg_effect g \<noteq> EffAllow \<or> pg_lifetime g \<noteq> GlPermanent then None
      else
        Option.bind (review_interval_for_actions (pg_actions g)) (\<lambda>interval.
        let anchor =
              (case pg_last_reviewed_at g of
                 Some raw \<Rightarrow> if trim raw \<noteq> [] then raw else pg_created_at g
               | None \<Rightarrow> pg_created_at g)
        in map_option (\<lambda>t. t + interval) (rfc anchor)))"

definition requires_periodic_reconfirmation_for :: "permission_grant \<Rightarrow> access_action \<Rightarrow> bool" where
  "requires_periodic_reconfirmation_for g action \<longleftrightarrow>
     pg_lifetime g = GlPermanent \<and> (action = AStream \<or> action = AManage \<or> action = AGrant)"

definition reconfirmation_deadline_for :: "rfc3339 \<Rightarrow> permission_grant \<Rightarrow> access_action \<Rightarrow> instant option" where
  "reconfirmation_deadline_for rfc g action =
     (if \<not> requires_periodic_reconfirmation_for g action then None
      else
        (case pg_review_required_after g of
           Some raw \<Rightarrow> if trim raw \<noteq> [] then rfc raw else default_reconfirmation_deadline rfc g
         | None \<Rightarrow> default_reconfirmation_deadline rfc g))"

definition reconfirmation_required_for :: "rfc3339 \<Rightarrow> permission_grant \<Rightarrow> access_action \<Rightarrow> instant \<Rightarrow> bool" where
  "reconfirmation_required_for rfc g action now =
     (if \<not> active_at rfc g now \<or> pg_effect g \<noteq> EffAllow \<or> action \<notin> set (pg_actions g) \<or>
         \<not> requires_periodic_reconfirmation_for g action
      then False
      else (case reconfirmation_deadline_for rfc g action of Some deadline \<Rightarrow> deadline \<le> now | None \<Rightarrow> True))"

definition admissible_for :: "rfc3339 \<Rightarrow> permission_grant \<Rightarrow> access_action \<Rightarrow> instant \<Rightarrow> bool" where
  "admissible_for rfc g action now \<longleftrightarrow> active_at rfc g now \<and> \<not> reconfirmation_required_for rfc g action now"

section \<open>Selectors\<close>

datatype grant_selector = SelExact string | SelSegmentPrefix string | SelClassScope

datatype selector_match = MExact | MSegmentPrefix | MClassScope

text \<open>\<open>s.get(i..)\<close>: the rest of the text, unless \<open>i\<close> is past its end or inside a character.\<close>

definition str_get_from :: "nat \<Rightarrow> string \<Rightarrow> string option" where
  "str_get_from i s =
     (if i < length s then (if is_utf8_continuation (s ! i) then None else Some (drop i s))
      else if i = length s then Some [] else None)"

definition selector_parse :: "string option \<Rightarrow> grant_selector option" where
  "selector_parse raw =
     (case raw of
        None \<Rightarrow> Some SelClassScope
      | Some raw \<Rightarrow>
          (if raw = [] then Some SelClassScope
           else if trim raw \<noteq> raw then None
           else
             (case strip_suffix ''/*'' raw of
                Some p \<Rightarrow> if p \<noteq> [] then Some (SelSegmentPrefix p) else None
              | None \<Rightarrow>
                  (case strip_suffix ''.*'' raw of
                     Some p \<Rightarrow> if p \<noteq> [] then Some (SelSegmentPrefix p) else None
                   | None \<Rightarrow> if suffix ''*'' raw then None else Some (SelExact raw)))))"

definition selector_matches :: "grant_selector \<Rightarrow> string \<Rightarrow> selector_match option" where
  "selector_matches sel v =
     (case sel of
        SelExact expected \<Rightarrow> if expected = v then Some MExact else None
      | SelSegmentPrefix p \<Rightarrow>
          (case Option.bind (str_get_from (length p) v) (\<lambda>rest.
                  case strip_prefix ''/'' rest of Some r \<Rightarrow> Some r | None \<Rightarrow> strip_prefix ''.'' rest) of
             None \<Rightarrow> None
           | Some rest \<Rightarrow> if rest \<noteq> [] then Some MSegmentPrefix else None)
      | SelClassScope \<Rightarrow> Some MClassScope)"

section \<open>Specificity\<close>

datatype grant_specificity =
    ClassLevel | SubjectPrefixAbilityPrefix | SubjectPrefixExactAbility | ExactSubjectAbilityPrefix
  | ExactSubjectExactAbility

fun specificity_rank :: "grant_specificity \<Rightarrow> nat" where
  "specificity_rank ClassLevel = 1"
| "specificity_rank SubjectPrefixAbilityPrefix = 2"
| "specificity_rank SubjectPrefixExactAbility = 3"
| "specificity_rank ExactSubjectAbilityPrefix = 4"
| "specificity_rank ExactSubjectExactAbility = 5"

lemma specificity_rank_inject: "specificity_rank s = specificity_rank t \<longleftrightarrow> s = t"
  by (cases s; cases t) simp_all

instantiation grant_specificity :: linorder
begin

definition less_eq_grant_specificity :: "grant_specificity \<Rightarrow> grant_specificity \<Rightarrow> bool" where
  "less_eq_grant_specificity s t \<longleftrightarrow> specificity_rank s \<le> specificity_rank t"

definition less_grant_specificity :: "grant_specificity \<Rightarrow> grant_specificity \<Rightarrow> bool" where
  "less_grant_specificity s t \<longleftrightarrow> specificity_rank s < specificity_rank t"

instance
  by standard (auto simp: less_eq_grant_specificity_def less_grant_specificity_def specificity_rank_inject)

end

record match_input =
  mi_owner_user_ura :: string
  mi_principal_kind :: principal_kind
  mi_principal_id :: string
  mi_token_id :: "string option"
  mi_token_class :: "token_class option"
  mi_session_id :: "string option"
  mi_callee_ura :: string
  mi_subject_ura :: string
  mi_ability_ura :: string
  mi_action :: access_action
  mi_now :: instant

definition token_matches :: "string option \<Rightarrow> string option \<Rightarrow> bool" where
  "token_matches grant_token input_token =
     (case grant_token of Some expected \<Rightarrow> input_token = Some expected | None \<Rightarrow> True)"

definition token_class_matches :: "token_class option \<Rightarrow> token_class option \<Rightarrow> bool" where
  "token_class_matches grant_class input_class =
     (case grant_class of Some expected \<Rightarrow> input_class = Some expected | None \<Rightarrow> True)"

fun pair_specificity :: "selector_match \<Rightarrow> selector_match \<Rightarrow> grant_specificity" where
  "pair_specificity MExact MExact = ExactSubjectExactAbility"
| "pair_specificity MExact MSegmentPrefix = ExactSubjectAbilityPrefix"
| "pair_specificity MSegmentPrefix MExact = SubjectPrefixExactAbility"
| "pair_specificity MSegmentPrefix MSegmentPrefix = SubjectPrefixAbilityPrefix"
| "pair_specificity MClassScope m = ClassLevel"
| "pair_specificity m MClassScope = ClassLevel"

definition specificity :: "permission_grant \<Rightarrow> match_input \<Rightarrow> grant_specificity option" where
  "specificity g i =
     Option.bind (selector_parse (pg_subject_ura_pattern g)) (\<lambda>ss.
     Option.bind (selector_matches ss (mi_subject_ura i)) (\<lambda>subject.
     Option.bind (selector_parse (pg_ability_ura_pattern g)) (\<lambda>sa.
     Option.bind (selector_matches sa (mi_ability_ura i)) (\<lambda>ability.
     Some (pair_specificity subject ability)))))"

section \<open>The matcher\<close>

text \<open>The filters of \<open>matching_grants\<close>, in order.\<close>

definition grant_applies :: "rfc3339 \<Rightarrow> match_input \<Rightarrow> permission_effect \<Rightarrow> permission_grant \<Rightarrow> bool" where
  "grant_applies rfc i effect g \<longleftrightarrow>
     pg_effect g = effect \<and> active_at rfc g (mi_now i) \<and> pg_owner_user_ura g = mi_owner_user_ura i \<and>
     pg_principal_kind g = mi_principal_kind i \<and> pg_principal_id g = mi_principal_id i \<and>
     token_matches (pg_token_id g) (mi_token_id i) \<and> token_class_matches (pg_token_class g) (mi_token_class i) \<and>
     session_matches rfc g (mi_session_id i) (mi_now i) \<and> mi_action i \<in> set (pg_actions g) \<and>
     (case pg_callee_ura g of Some callee \<Rightarrow> callee = mi_callee_ura i | None \<Rightarrow> True)"

text \<open>The comparator sorts by falling specificity, then by grant id.\<close>

definition match_key :: "grant_specificity \<times> permission_grant \<Rightarrow> nat \<times> string" where
  "match_key m = (case m of (s, g) \<Rightarrow> (5 - specificity_rank s, pg_grant_id g))"

definition matching_grants ::
  "rfc3339 \<Rightarrow> permission_grant list \<Rightarrow> match_input \<Rightarrow> permission_effect \<Rightarrow> permission_grant list" where
  "matching_grants rfc grants i effect =
     map snd (sort_key match_key
       (List.map_filter (\<lambda>g. map_option (\<lambda>s. (s, g)) (specificity g i))
         (filter (grant_applies rfc i effect) grants)))"

definition find_active ::
  "rfc3339 \<Rightarrow> permission_grant list \<Rightarrow> match_input \<Rightarrow> permission_effect \<Rightarrow> permission_grant option" where
  "find_active rfc grants i effect =
     List.find (\<lambda>g. admissible_for rfc g (mi_action i) (mi_now i)) (matching_grants rfc grants i effect)"

definition find_grant ::
  "rfc3339 \<Rightarrow> permission_grant list \<Rightarrow> match_input \<Rightarrow> permission_effect \<Rightarrow> permission_grant option" where
  "find_grant rfc grants i effect = find_active rfc grants i effect"

definition find_reconfirmation_required ::
  "rfc3339 \<Rightarrow> permission_grant list \<Rightarrow> match_input \<Rightarrow> permission_grant option" where
  "find_reconfirmation_required rfc grants i =
     List.find (\<lambda>g. reconfirmation_required_for rfc g (mi_action i) (mi_now i))
       (matching_grants rfc grants i EffAllow)"

section \<open>Which grant decides\<close>

lemma find_sort_key:
  fixes k :: "'a \<Rightarrow> 'k::linorder"
  assumes "List.find P (sort_key k xs) = Some x"
  shows "x \<in> set xs \<and> P x \<and> (\<forall>y \<in> set xs. P y \<longrightarrow> k x \<le> k y)"
proof -
  let ?ys = "sort_key k xs"
  obtain i where i: "i < length ?ys" "P (?ys ! i)" "x = ?ys ! i" "\<forall>j < i. \<not> P (?ys ! j)"
    using assms by (auto simp: find_Some_iff)
  have "k x \<le> k y" if y: "y \<in> set xs" "P y" for y
  proof -
    from y(1) obtain j where j: "j < length ?ys" "y = ?ys ! j" by (metis in_set_conv_nth set_sort)
    with i y(2) have "i \<le> j" by (meson not_less)
    then have "map k ?ys ! i \<le> map k ?ys ! j"
      using j by (intro sorted_nth_mono) (simp_all add: sorted_sort_key)
    with i j show ?thesis by simp
  qed
  moreover have "x \<in> set xs" using i by (metis nth_mem set_sort)
  ultimately show ?thesis using i by simp
qed

lemma find_map_snd: "List.find P (map snd xs) = map_option snd (List.find (P \<circ> snd) xs)"
  by (induction xs) auto

text \<open>The grants that may decide an invocation, with their specificity.\<close>

definition candidates ::
  "rfc3339 \<Rightarrow> permission_grant list \<Rightarrow> match_input \<Rightarrow> permission_effect \<Rightarrow> (grant_specificity \<times> permission_grant) set"
where
  "candidates rfc grants i effect =
     {(s, g). g \<in> set grants \<and> grant_applies rfc i effect g \<and> specificity g i = Some s \<and>
        admissible_for rfc g (mi_action i) (mi_now i)}"

definition beats :: "grant_specificity \<times> permission_grant \<Rightarrow> grant_specificity \<times> permission_grant \<Rightarrow> bool" where
  "beats m n \<longleftrightarrow> fst n < fst m \<or> fst n = fst m \<and> pg_grant_id (snd m) \<le> pg_grant_id (snd n)"

lemma match_key_beats: "match_key m \<le> match_key n \<longleftrightarrow> beats m n"
  by (cases m; cases n; cases "fst m"; cases "fst n")
    (auto simp: match_key_def beats_def less_grant_specificity_def)

lemma find_active_Some:
  assumes "find_active rfc grants i effect = Some g"
  shows "\<exists>s. (s, g) \<in> candidates rfc grants i effect \<and> (\<forall>n \<in> candidates rfc grants i effect. beats (s, g) n)"
proof -
  let ?xs = "List.map_filter (\<lambda>g. map_option (\<lambda>s. (s, g)) (specificity g i)) (filter (grant_applies rfc i effect) grants)"
  let ?P = "\<lambda>g. admissible_for rfc g (mi_action i) (mi_now i)"
  have xs: "set ?xs = {(s, g). g \<in> set grants \<and> grant_applies rfc i effect g \<and> specificity g i = Some s}"
    by (force simp: List.map_filter_def image_iff)
  obtain m where m: "List.find (?P \<circ> snd) (sort_key match_key ?xs) = Some m" "g = snd m"
    using assms by (auto simp: find_active_def matching_grants_def find_map_snd)
  from find_sort_key [OF m(1)] have "m \<in> set ?xs" "?P (snd m)" "\<forall>y \<in> set ?xs. ?P (snd y) \<longrightarrow> beats m y"
    by (simp_all add: match_key_beats)
  moreover have "candidates rfc grants i effect = {y \<in> set ?xs. ?P (snd y)}"
    unfolding candidates_def xs by auto
  moreover obtain s where "m = (s, g)" using m(2) by (cases m) simp
  ultimately show ?thesis by auto
qed

lemma find_active_None:
  "find_active rfc grants i effect = None \<longleftrightarrow> candidates rfc grants i effect = {}"
  by (auto simp: find_active_def matching_grants_def find_None_iff candidates_def List.map_filter_def)

lemma beats_antisym: "beats m n \<Longrightarrow> beats n m \<Longrightarrow> pg_grant_id (snd m) = pg_grant_id (snd n)"
  by (auto simp: beats_def)

text \<open>C12: The grant that decides is the most specific applicable one: the matcher returns a grant exactly
  when some stored grant applies and needs no reconfirmation, and it returns one of these that no other beats,
  by specificity first and by the smaller id among equals.\<close>

theorem matcher_most_specific:
  "case find_grant rfc grants i effect of
     None \<Rightarrow> candidates rfc grants i effect = {}
   | Some g \<Rightarrow> (\<exists>s. (s, g) \<in> candidates rfc grants i effect \<and>
       candidates rfc grants i effect \<subseteq> {n. beats (s, g) n})"
  using find_active_Some [of rfc grants i effect] find_active_None [of rfc grants i effect]
  unfolding find_grant_def subset_eq mem_Collect_eq by (auto split: option.splits)

text \<open>The decision does not depend on the order in which the grants are stored, as long as their ids
  are distinct.\<close>

theorem matcher_order_independent:
  assumes "set grants = set grants'" and "distinct (map pg_grant_id grants)"
  shows "find_grant rfc grants i effect = find_grant rfc grants' i effect"
proof -
  have c: "candidates rfc grants i effect = candidates rfc grants' i effect"
    using assms(1) by (simp add: candidates_def)
  show ?thesis
  proof (cases "find_active rfc grants i effect")
    case None
    moreover from this c have "find_active rfc grants' i effect = None" by (simp add: find_active_None)
    ultimately show ?thesis by (simp add: find_grant_def)
  next
    case (Some g)
    then obtain g' where g': "find_active rfc grants' i effect = Some g'"
      using c find_active_None by (metis not_None_eq)
    obtain s where s: "(s, g) \<in> candidates rfc grants i effect" "\<forall>n \<in> candidates rfc grants i effect. beats (s, g) n"
      using find_active_Some [OF Some] by blast
    obtain s' where s': "(s', g') \<in> candidates rfc grants i effect" "\<forall>n \<in> candidates rfc grants i effect. beats (s', g') n"
      using find_active_Some [OF g'] unfolding c by blast
    have "pg_grant_id g = pg_grant_id g'"
      using beats_antisym [of "(s, g)" "(s', g')"] s s' by simp
    moreover have "g \<in> set grants" "g' \<in> set grants" using s s' by (simp_all add: candidates_def)
    ultimately have "g = g'" using assms(2) by (auto simp: distinct_map dest: inj_onD)
    with Some g' show ?thesis by (simp add: find_grant_def)
  qed
qed

section \<open>Examples\<close>

definition demo_grant :: "string \<Rightarrow> permission_effect \<Rightarrow> string \<Rightarrow> permission_grant" where
  "demo_grant gid effect subject =
     \<lparr>pg_grant_id = gid, pg_owner_user_ura = ''alice'', pg_principal_kind = PkToken, pg_principal_id = ''p'',
      pg_token_id = None, pg_token_class = None, pg_session_id = None, pg_session_expires_at = None,
      pg_callee_ura = None, pg_subject_ura_pattern = Some subject, pg_ability_ura_pattern = None,
      pg_actions = [AInvoke], pg_constraints = None, pg_effect = effect, pg_lifetime = GlPermanent,
      pg_state = GsActive, pg_expires_at = None, pg_review_required_after = None, pg_last_reviewed_at = None,
      pg_last_used_at = None, pg_created_by = ''alice'', pg_created_at = ''t0'', pg_updated_at = None,
      pg_revoked_at = None, pg_reason = None\<rparr>"

definition demo_input :: "string \<Rightarrow> match_input" where
  "demo_input subject =
     \<lparr>mi_owner_user_ura = ''alice'', mi_principal_kind = PkToken, mi_principal_id = ''p'', mi_token_id = None,
      mi_token_class = None, mi_session_id = None, mi_callee_ura = ''callee'', mi_subject_ura = subject,
      mi_ability_ura = ''chat'', mi_action = AInvoke, mi_now = 0\<rparr>"

definition demo_rfc :: rfc3339 where
  "demo_rfc s = (if s = ''t0'' then Some 0 else None)"

theorem matcher_order_independent_witness:
  "find_grant demo_rfc [demo_grant ''b'' EffAllow ''r/*'', demo_grant ''a'' EffAllow ''r/x''] (demo_input ''r/x'') EffAllow =
     find_grant demo_rfc [demo_grant ''a'' EffAllow ''r/x'', demo_grant ''b'' EffAllow ''r/*''] (demo_input ''r/x'') EffAllow"
  by (rule matcher_order_independent) (auto simp: demo_grant_def)

section \<open>Prefix selectors do not compare their prefix\<close>

text \<open>A selector \<open>p/*\<close> accepts every value that has a separator and more text after as many bytes as \<open>p\<close>
  has, whatever these bytes are.\<close>

theorem segment_prefix_ignores_prefix:
  assumes "length u = length p" and "rest \<noteq> []"
  shows "selector_matches (SelSegmentPrefix p) (u @ CHR ''/'' # rest) = Some MSegmentPrefix"
  using assms
  by (simp add: selector_matches_def str_get_from_def nth_append is_utf8_continuation_def strip_prefix_def)

text \<open>So a grant on the resources of one user admits an invocation on the resources of another.\<close>

theorem prefix_grant_crosses_users:
  "find_grant demo_rfc [demo_grant ''g'' EffAllow ''resource/alice/*''] (demo_input ''resource/carol/diary'') EffAllow
     = Some (demo_grant ''g'' EffAllow ''resource/alice/*'')"
  by code_simp

end
