(* ===== verification/PolicyEngine.thy ===== *)
theory PolicyEngine
  imports GrantMatcher
begin

text \<open>
  Who owns an invocation and who may make it: owner resolution
  (\<open>src/daemon/invocation/admission/owner_resolution.rs\<close>) and the policy engine
  (\<open>src/daemon/invocation/admission/policy_engine.rs\<close>).
\<close>

section \<open>Owner resolution\<close>

record owner_fact =
  of_owner_user_ura :: "string option"
  of_owner_ura :: "string option"
  of_authoritative :: bool

record owner_input =
  oi_subject :: "owner_fact option"
  oi_callee :: "owner_fact option"
  oi_device :: "owner_fact option"
  oi_session :: "owner_fact option"

text \<open>\<open>dbg\<close> is the Debug rendering of an optional text.\<close>

fun conflict_warnings_with ::
  "(string option \<Rightarrow> string) \<Rightarrow> owner_source \<times> owner_fact \<Rightarrow> (owner_source \<times> owner_fact) list \<Rightarrow> string list"
where
  "conflict_warnings_with dbg (ls, l) [] = []"
| "conflict_warnings_with dbg (ls, l) ((rs, r) # facts) =
     (if of_owner_user_ura l \<noteq> None \<and> of_owner_user_ura r \<noteq> None \<and> of_owner_user_ura l \<noteq> of_owner_user_ura r
      then [''owner conflict before precedence: '' @ owner_source_str ls @ ''='' @ dbg (of_owner_user_ura l) @
            '' '' @ owner_source_str rs @ ''='' @ dbg (of_owner_user_ura r)]
      else []) @ conflict_warnings_with dbg (ls, l) facts"

fun conflict_warnings ::
  "(string option \<Rightarrow> string) \<Rightarrow> (owner_source \<times> owner_fact) list \<Rightarrow> string list" where
  "conflict_warnings dbg [] = []"
| "conflict_warnings dbg (f # facts) = conflict_warnings_with dbg f facts @ conflict_warnings dbg facts"

definition ordered_facts :: "owner_input \<Rightarrow> (owner_source \<times> owner_fact option) list" where
  "ordered_facts i =
     [(OsSubject, oi_subject i), (OsCallee, oi_callee i), (OsDevice, oi_device i), (OsSession, oi_session i)]"

fun authoritative_fact :: "owner_source \<times> owner_fact option \<Rightarrow> (owner_source \<times> owner_fact) option" where
  "authoritative_fact (s, None) = None"
| "authoritative_fact (s, Some f) = (if of_authoritative f then Some (s, f) else None)"

definition authoritative_facts :: "owner_input \<Rightarrow> (owner_source \<times> owner_fact) list" where
  "authoritative_facts i = List.map_filter authoritative_fact (ordered_facts i)"

text \<open>The loop over the ordered facts returns at the first authoritative one.\<close>

definition resolve_owner_from :: "string list \<Rightarrow> (owner_source \<times> owner_fact) list \<Rightarrow> owner_resolution" where
  "resolve_owner_from warnings facts =
     (case facts of
        [] \<Rightarrow> owner_unresolved ''no authoritative owner source was present''
      | (s, f) # _ \<Rightarrow>
          (case of_owner_user_ura f of
             Some owner \<Rightarrow>
               (if trim owner \<noteq> [] then
                  \<lparr>or_owner_user_ura = Some owner, or_owner_ura = of_owner_ura f, or_owner_source = s,
                   or_audit_warnings = warnings\<rparr>
                else
                  \<lparr>or_owner_user_ura = None, or_owner_ura = of_owner_ura f, or_owner_source = OsUnresolved,
                   or_audit_warnings = warnings @
                     [owner_source_str s @ '' owner fact did not project to an accountable user principal'']\<rparr>)
           | None \<Rightarrow>
               \<lparr>or_owner_user_ura = None, or_owner_ura = of_owner_ura f, or_owner_source = OsUnresolved,
                or_audit_warnings = warnings @
                  [owner_source_str s @ '' owner fact did not project to an accountable user principal'']\<rparr>))"

definition resolve_owner :: "(string option \<Rightarrow> string) \<Rightarrow> owner_input \<Rightarrow> owner_resolution" where
  "resolve_owner dbg i =
     resolve_owner_from (conflict_warnings dbg (authoritative_facts i)) (authoritative_facts i)"

text \<open>
  The paired device as an owner source. \<open>user_ura\<close> builds the address of a user; \<open>creds\<close> is what
  \<open>load_credentials_optional\<close> returned, with the outcome of \<open>Credentials::user_id\<close> in it.
\<close>

record stored_credentials =
  cr_realm :: string
  cr_node_id :: string
  cr_user_id :: "string + string"

definition owner_fact_user_ura :: "string \<Rightarrow> string \<Rightarrow> owner_fact" where
  "owner_fact_user_ura user owner =
     \<lparr>of_owner_user_ura = Some user, of_owner_ura = Some owner, of_authoritative = True\<rparr>"

definition local_device_owner_fact ::
  "ura_api \<Rightarrow> (string \<Rightarrow> string \<Rightarrow> string) \<Rightarrow> string + stored_credentials option \<Rightarrow> string
    \<Rightarrow> string + owner_fact option" where
  "local_device_owner_fact api user_ura creds ura =
     (case parse_ura api ura of
        Inl e \<Rightarrow> Inl (''local device owner URA invalid: '' @ ura @ '': '' @ e)
      | Inr p \<Rightarrow>
          (if up_kind p \<noteq> KDevice then Inr None
           else
             and_then creds (\<lambda>c.
             case c of
               None \<Rightarrow> Inr None
             | Some c \<Rightarrow>
                 (case up_device_id p of
                    None \<Rightarrow> Inr None
                  | Some device_id \<Rightarrow>
                      (if up_realm p \<noteq> cr_realm c \<or> device_id \<noteq> cr_node_id c then Inr None
                       else
                         and_then (cr_user_id c) (\<lambda>user_id.
                         let owner = user_ura (cr_realm c) user_id in
                         Inr (Some (owner_fact_user_ura owner owner))))))))"

section \<open>The policy engine\<close>

datatype system_rule =
    AuthoritySelfRead | AuthoritySelfManage | AuthoritySelfStream | AuthorityPeerDirectoryStream
  | RealmAuthorityPublicRead | DevicePublicationCustodyManage | DeviceSelfSessionStream
  | DeviceLifecycleSelfRevokeManage | DeviceHostedAgentRetractionManage | RemoteOwnerForward

definition policy_rule_id :: "system_rule \<Rightarrow> string" where
  "policy_rule_id r =
     (case r of
        AuthoritySelfRead \<Rightarrow> ''system.authority.self_read''
      | AuthoritySelfManage \<Rightarrow> ''system.authority.self_manage''
      | AuthoritySelfStream \<Rightarrow> ''system.authority.self_stream''
      | AuthorityPeerDirectoryStream \<Rightarrow> ''system.authority.peer_directory_stream''
      | RealmAuthorityPublicRead \<Rightarrow> ''system.realm_authority.public_read''
      | DevicePublicationCustodyManage \<Rightarrow> ''system.device.publication_custody_manage''
      | DeviceSelfSessionStream \<Rightarrow> ''system.device.self_session_stream''
      | DeviceLifecycleSelfRevokeManage \<Rightarrow> ''system.device.lifecycle_self_revoke_manage''
      | DeviceHostedAgentRetractionManage \<Rightarrow> ''system.device.hosted_agent_retraction_manage''
      | RemoteOwnerForward \<Rightarrow> ''system.federation.remote_owner_forward'')"

record policy_input =
  pi_owner :: owner_resolution
  pi_caller_user_ura :: "string option"
  pi_caller_ura :: string
  pi_principal_kind :: principal_kind
  pi_principal_id :: string
  pi_token_id :: "string option"
  pi_token_class :: "token_class option"
  pi_device_purpose :: "verified_purpose option"
  pi_callee_ura :: string
  pi_subject_ura :: string
  pi_ability_ura :: string
  pi_action :: access_action
  pi_safe_read :: bool
  pi_system_rule_matches :: "system_rule list"
  pi_invocation_lifecycle_control :: bool
  pi_interactive_context_available :: bool
  pi_canonical_hash :: "string option"
  pi_signature_key_id :: "string option"
  pi_verified_authority_id :: "string option"
  pi_verified_session_id :: "string option"
  pi_rejector_ura :: "string option"
  pi_now :: instant
  pi_grants :: "permission_grant list"

definition purpose_some :: "policy_input \<Rightarrow> device_purpose \<Rightarrow> bool" where
  "purpose_some i expected = (case pi_device_purpose i of None \<Rightarrow> False | Some p \<Rightarrow> purpose_is p expected)"

definition allow_reason :: "system_rule \<Rightarrow> policy_input \<Rightarrow> policy_reason option" where
  "allow_reason r i =
     (case r of
        AuthoritySelfRead \<Rightarrow> if pi_action i = ARead \<and> pi_safe_read i then Some HubTokenReadAllow else None
      | RealmAuthorityPublicRead \<Rightarrow> if pi_action i = ARead \<and> pi_safe_read i then Some HubTokenReadAllow else None
      | AuthoritySelfManage \<Rightarrow> if pi_action i = AManage then Some SystemRuleAllow else None
      | DevicePublicationCustodyManage \<Rightarrow>
          if pi_action i = AManage \<and> purpose_some i DpPublicationCustody then Some SystemRuleAllow else None
      | DeviceLifecycleSelfRevokeManage \<Rightarrow>
          if pi_action i = AManage \<and> purpose_some i DpLifecycleSelfRevoke then Some SystemRuleAllow else None
      | DeviceHostedAgentRetractionManage \<Rightarrow>
          if pi_action i = AManage \<and> purpose_some i DpHostedAgentRetraction then Some SystemRuleAllow else None
      | AuthoritySelfStream \<Rightarrow> if pi_action i = AStream then Some SystemRuleAllow else None
      | AuthorityPeerDirectoryStream \<Rightarrow> if pi_action i = AStream then Some SystemRuleAllow else None
      | DeviceSelfSessionStream \<Rightarrow>
          if pi_action i = AStream \<and> purpose_some i DpDeviceSelfSession then Some SystemRuleAllow else None
      | RemoteOwnerForward \<Rightarrow> Some FederationForwardAllow)"

fun first_allowing_rule :: "policy_input \<Rightarrow> system_rule list \<Rightarrow> (system_rule \<times> policy_reason) option" where
  "first_allowing_rule i [] = None"
| "first_allowing_rule i (r # rs) =
     (case allow_reason r i of Some reason \<Rightarrow> Some (r, reason) | None \<Rightarrow> first_allowing_rule i rs)"

definition decide :: "policy_input \<Rightarrow> policy_outcome \<Rightarrow> policy_reason \<Rightarrow> string option \<Rightarrow> policy_decision" where
  "decide i outcome reason grant_id =
     \<lparr>pd_decision = outcome, pd_reason = reason, pd_owner_user_ura = or_owner_user_ura (pi_owner i),
      pd_owner_source = or_owner_source (pi_owner i), pd_caller_ura = pi_caller_ura i,
      pd_principal_kind = pi_principal_kind i, pd_principal_id = pi_principal_id i, pd_token_id = pi_token_id i,
      pd_token_class = pi_token_class i, pd_callee_ura = pi_callee_ura i, pd_subject_ura = pi_subject_ura i,
      pd_ability_ura = pi_ability_ura i, pd_action = pi_action i, pd_rejector_ura = pi_rejector_ura i,
      pd_policy_rule_id = grant_id, pd_grant_id = grant_id, pd_prompt_request_id = None,
      pd_canonical_hash = pi_canonical_hash i, pd_signature_key_id = pi_signature_key_id i,
      pd_authority_proof_id = pi_verified_authority_id i\<rparr>"

definition explicit_grant_decision :: "policy_input \<Rightarrow> string \<Rightarrow> policy_decision" where
  "explicit_grant_decision i grant_id =
     (decide i OAllow ExplicitGrantAllow None)\<lparr>pd_policy_rule_id := Some grant_id, pd_grant_id := Some grant_id\<rparr>"

definition system_rule_decision :: "policy_input \<Rightarrow> policy_outcome \<Rightarrow> policy_reason \<Rightarrow> system_rule \<Rightarrow> policy_decision"
where
  "system_rule_decision i outcome reason r =
     (decide i outcome reason None)\<lparr>pd_policy_rule_id := Some (policy_rule_id r)\<rparr>"

definition grant_input :: "policy_input \<Rightarrow> string \<Rightarrow> match_input" where
  "grant_input i owner =
     \<lparr>mi_owner_user_ura = owner, mi_principal_kind = pi_principal_kind i, mi_principal_id = pi_principal_id i,
      mi_token_id = pi_token_id i, mi_token_class = pi_token_class i, mi_session_id = pi_verified_session_id i,
      mi_callee_ura = pi_callee_ura i, mi_subject_ura = pi_subject_ura i, mi_ability_ura = pi_ability_ura i,
      mi_action = pi_action i, mi_now = pi_now i\<rparr>"

definition accountable_owner :: "policy_input \<Rightarrow> string option" where
  "accountable_owner i =
     (case or_owner_user_ura (pi_owner i) of
        Some owner \<Rightarrow> if trim owner \<noteq> [] then Some owner else None
      | None \<Rightarrow> None)"

text \<open>The checks for a resolved owner, after the system rules and the authority proof.\<close>

definition check_for_owner :: "rfc3339 \<Rightarrow> policy_input \<Rightarrow> string \<Rightarrow> policy_decision" where
  "check_for_owner rfc i owner =
     (let gi = grant_input i owner in
      if (case or_owner_ura (pi_owner i) of None \<Rightarrow> False | Some u \<Rightarrow> pi_caller_user_ura i = Some u) then
        decide i OAllow OwnerAllow None
      else if pi_token_class i = Some TcHubLink \<and> pi_action i = ARead \<and> pi_safe_read i then
        decide i OAllow HubTokenReadAllow None
      else
        (case find_grant rfc (pi_grants i) gi EffAllow of
           Some g \<Rightarrow> explicit_grant_decision i (pg_grant_id g)
         | None \<Rightarrow>
             (case find_reconfirmation_required rfc (pi_grants i) gi of
                Some g \<Rightarrow> decide i ODeny GrantReconfirmationRequired (Some (pg_grant_id g))
              | None \<Rightarrow>
                  if pi_interactive_context_available i then decide i OPrompt InteractiveApprovalRequired None
                  else if pi_principal_kind i = PkToken \<and> pi_action i \<noteq> ARead then
                    decide i ODeny TokenScopeDenied None
                  else decide i ODeny NonInteractiveDeny None)))"

text \<open>\<open>check\<close> after the explicit denies.\<close>

definition check_allow :: "rfc3339 \<Rightarrow> policy_input \<Rightarrow> policy_decision" where
  "check_allow rfc i =
     (if pi_invocation_lifecycle_control i \<and> pi_action i = AManage then
        decide i OAllow InvocationLifecycleControlAllow None
      else
        (case first_allowing_rule i (pi_system_rule_matches i) of
           Some (r, reason) \<Rightarrow> system_rule_decision i OAllow reason r
         | None \<Rightarrow>
             if pi_verified_authority_id i \<noteq> None then decide i OAllow AuthorityProofAllow None
             else
               (case accountable_owner i of
                  None \<Rightarrow> decide i ODeny OwnerUnresolved None
                | Some owner \<Rightarrow> check_for_owner rfc i owner)))"

definition policy_check :: "rfc3339 \<Rightarrow> policy_input \<Rightarrow> policy_decision" where
  "policy_check rfc i =
     (case accountable_owner i of
        None \<Rightarrow> check_allow rfc i
      | Some owner \<Rightarrow>
          (case find_grant rfc (pi_grants i) (grant_input i owner) EffDeny of
             Some g \<Rightarrow> decide i ODeny ExplicitDeny (Some (pg_grant_id g))
           | None \<Rightarrow> check_allow rfc i))"

section \<open>When an invocation is allowed\<close>

definition decided_by :: "rfc3339 \<Rightarrow> policy_input \<Rightarrow> permission_effect \<Rightarrow> bool" where
  "decided_by rfc i effect =
     (case accountable_owner i of
        None \<Rightarrow> False
      | Some owner \<Rightarrow> candidates rfc (pi_grants i) (grant_input i owner) effect \<noteq> {})"

text \<open>The ways to be allowed without a grant.\<close>

definition allowed_without_grant :: "policy_input \<Rightarrow> bool" where
  "allowed_without_grant i \<longleftrightarrow>
     pi_invocation_lifecycle_control i \<and> pi_action i = AManage \<or>
     (\<exists>r \<in> set (pi_system_rule_matches i). allow_reason r i \<noteq> None) \<or>
     pi_verified_authority_id i \<noteq> None \<or>
     accountable_owner i \<noteq> None \<and>
       (or_owner_ura (pi_owner i) \<noteq> None \<and> pi_caller_user_ura i = or_owner_ura (pi_owner i) \<or>
        pi_token_class i = Some TcHubLink \<and> pi_action i = ARead \<and> pi_safe_read i)"

lemma first_allowing_rule_None:
  "first_allowing_rule i rs = None \<longleftrightarrow> (\<forall>r \<in> set rs. allow_reason r i = None)"
  by (induction rs) (auto split: option.splits)

lemma decide_simps [simp]:
  "pd_decision (decide i oc reason g) = oc" "pd_reason (decide i oc reason g) = reason"
  "pd_grant_id (decide i oc reason g) = g"
  "pd_decision (explicit_grant_decision i gid) = OAllow"
  "pd_decision (system_rule_decision i oc reason r) = oc"
  by (simp_all add: decide_def explicit_grant_decision_def system_rule_decision_def)

lemma find_grant_None: "find_grant rfc grants gi effect = None \<longleftrightarrow> candidates rfc grants gi effect = {}"
  by (simp add: find_grant_def find_active_None)

lemma fallback_not_allow:
  "pd_decision (case r of
      Some g \<Rightarrow> decide i ODeny GrantReconfirmationRequired (Some (pg_grant_id g))
    | None \<Rightarrow>
        if b then decide i OPrompt InteractiveApprovalRequired None
        else if c then decide i ODeny TokenScopeDenied None else decide i ODeny NonInteractiveDeny None) \<noteq> OAllow"
  by (cases r) simp_all

lemma check_for_owner_allow:
  "pd_decision (check_for_owner rfc i owner) = OAllow \<longleftrightarrow>
     or_owner_ura (pi_owner i) \<noteq> None \<and> pi_caller_user_ura i = or_owner_ura (pi_owner i) \<or>
     pi_token_class i = Some TcHubLink \<and> pi_action i = ARead \<and> pi_safe_read i \<or>
     find_grant rfc (pi_grants i) (grant_input i owner) EffAllow \<noteq> None"
  (is "?l \<longleftrightarrow> ?own \<or> ?hub \<or> ?g")
proof -
  have own: "(case or_owner_ura (pi_owner i) of None \<Rightarrow> False | Some u \<Rightarrow> pi_caller_user_ura i = Some u) \<longleftrightarrow> ?own"
    by (cases "or_owner_ura (pi_owner i)") simp_all
  show ?thesis
    unfolding check_for_owner_def Let_def own
    by (cases "find_grant rfc (pi_grants i) (grant_input i owner) EffAllow") (simp_all add: fallback_not_allow)
qed

lemma decided_by_find:
  "decided_by rfc i effect =
     (case accountable_owner i of
        None \<Rightarrow> False
      | Some owner \<Rightarrow> find_grant rfc (pi_grants i) (grant_input i owner) effect \<noteq> None)"
  unfolding decided_by_def find_grant_None ..

lemma check_allow_allow:
  "pd_decision (check_allow rfc i) = OAllow \<longleftrightarrow> allowed_without_grant i \<or> decided_by rfc i EffAllow"
proof (cases "first_allowing_rule i (pi_system_rule_matches i)")
  case None
  then have "\<not> (\<exists>r \<in> set (pi_system_rule_matches i). allow_reason r i \<noteq> None)"
    unfolding first_allowing_rule_None by simp
  with None show ?thesis
    unfolding check_allow_def allowed_without_grant_def decided_by_find
    by (simp add: check_for_owner_allow split: option.split) blast
next
  case (Some m)
  then have "\<exists>r \<in> set (pi_system_rule_matches i). allow_reason r i \<noteq> None"
    using first_allowing_rule_None [of i "pi_system_rule_matches i"] by auto
  with Some show ?thesis by (cases m) (simp add: check_allow_def allowed_without_grant_def)
qed

text \<open>C3: An invocation is allowed exactly when no deny grant of the accountable owner applies to it and one
  of these holds: it is lifecycle control, a matched system rule admits it, a verified authority proof stands
  behind it, its caller is the owner, it is a safe read by a hub-link token, or an allow grant applies that
  needs no reconfirmation.\<close>

theorem policy_allow_exact:
  "pd_decision (policy_check rfc i) = OAllow \<longleftrightarrow>
     \<not> decided_by rfc i EffDeny \<and> (allowed_without_grant i \<or> decided_by rfc i EffAllow)"
proof -
  have "pd_decision (policy_check rfc i) = OAllow \<longleftrightarrow>
      \<not> decided_by rfc i EffDeny \<and> pd_decision (check_allow rfc i) = OAllow"
    unfolding policy_check_def decided_by_find by (simp split: option.split)
  then show ?thesis by (simp add: check_allow_allow)
qed

lemma reconfirmation_only_allow: "pg_effect g = EffDeny \<Longrightarrow> \<not> reconfirmation_required_for rfc g a now"
  by (simp add: reconfirmation_required_for_def)

text \<open>C9: An applicable deny grant of the accountable owner overrides everything, the owner's own calls, system
  rules and authority proofs included. The decision names a deny grant of the store that itself applies to
  this invocation, and no applicable deny grant is more specific than the one named.\<close>

theorem deny_overrides:
  assumes "accountable_owner i = Some owner" and "g \<in> set (pi_grants i)"
    and "grant_applies rfc (grant_input i owner) EffDeny g" and "specificity g (grant_input i owner) \<noteq> None"
  shows "pd_decision (policy_check rfc i) = ODeny \<and> pd_reason (policy_check rfc i) = ExplicitDeny \<and>
     (\<exists>d sd. d \<in> set (pi_grants i) \<and> grant_applies rfc (grant_input i owner) EffDeny d \<and>
        specificity d (grant_input i owner) = Some sd \<and> \<not> sd < the (specificity g (grant_input i owner)) \<and>
        pd_grant_id (policy_check rfc i) = Some (pg_grant_id d))"
proof -
  let ?gi = "grant_input i owner"
  have "pg_effect g = EffDeny" "active_at rfc g (mi_now ?gi)"
    using assms(3) by (simp_all add: grant_applies_def)
  then have g: "(the (specificity g ?gi), g) \<in> candidates rfc (pi_grants i) ?gi EffDeny"
    using assms by (simp add: candidates_def admissible_for_def reconfirmation_only_allow)
  then have "candidates rfc (pi_grants i) ?gi EffDeny \<noteq> {}" by blast
  then obtain d where d: "find_grant rfc (pi_grants i) ?gi EffDeny = Some d"
    using find_grant_None by (metis not_None_eq)
  then obtain sd where sd: "(sd, d) \<in> candidates rfc (pi_grants i) ?gi EffDeny"
    "\<forall>n \<in> candidates rfc (pi_grants i) ?gi EffDeny. beats (sd, d) n"
    using find_active_Some [of rfc "pi_grants i" ?gi EffDeny d] by (auto simp: find_grant_def)
  have "\<not> sd < the (specificity g ?gi)" using bspec [OF sd(2) g] by (auto simp: beats_def)
  moreover have "d \<in> set (pi_grants i)" "grant_applies rfc ?gi EffDeny d" "specificity d ?gi = Some sd"
    using sd(1) by (simp_all add: candidates_def)
  moreover have "pd_grant_id (policy_check rfc i) = Some (pg_grant_id d)" "pd_decision (policy_check rfc i) = ODeny"
    "pd_reason (policy_check rfc i) = ExplicitDeny"
    using d assms(1) by (simp_all add: policy_check_def)
  ultimately show ?thesis by blast
qed

section \<open>Owners\<close>

text \<open>A source is silent if it has no fact, or one that is not authoritative.\<close>

definition silent :: "owner_fact option \<Rightarrow> bool" where
  "silent source \<longleftrightarrow> (case source of None \<Rightarrow> True | Some f \<Rightarrow> \<not> of_authoritative f)"

text \<open>The source that decides: the subject, else the callee, else the device, else the session.\<close>

definition owner_takes :: "owner_input \<Rightarrow> owner_source \<Rightarrow> owner_fact \<Rightarrow> bool" where
  "owner_takes i s f \<longleftrightarrow>
     of_authoritative f \<and>
     (s = OsSubject \<and> oi_subject i = Some f \<or>
      s = OsCallee \<and> silent (oi_subject i) \<and> oi_callee i = Some f \<or>
      s = OsDevice \<and> silent (oi_subject i) \<and> silent (oi_callee i) \<and> oi_device i = Some f \<or>
      s = OsSession \<and> silent (oi_subject i) \<and> silent (oi_callee i) \<and> silent (oi_device i) \<and> oi_session i = Some f)"

lemma authoritative_facts_Cons:
  "authoritative_facts i = (s, f) # facts \<Longrightarrow> owner_takes i s f"
  unfolding authoritative_facts_def ordered_facts_def owner_takes_def silent_def
  by (cases "oi_subject i"; cases "oi_callee i"; cases "oi_device i"; cases "oi_session i")
    (auto simp: List.map_filter_simps split: if_splits)

lemma authoritative_facts_Nil:
  "authoritative_facts i = [] \<longleftrightarrow>
     silent (oi_subject i) \<and> silent (oi_callee i) \<and> silent (oi_device i) \<and> silent (oi_session i)"
  unfolding authoritative_facts_def ordered_facts_def silent_def
  by (cases "oi_subject i"; cases "oi_callee i"; cases "oi_device i"; cases "oi_session i")
    (auto simp: List.map_filter_simps)

text \<open>C13: The accountable owner comes from the first authoritative source in the order subject, callee,
  device, session, and from no other: if that source names no user, the owner is unresolved even when a later
  source would name one. Without an authoritative source there is no owner.\<close>

theorem owner_precedence:
  "case or_owner_user_ura (resolve_owner dbg i) of
     Some owner \<Rightarrow> \<exists>f. owner_takes i (or_owner_source (resolve_owner dbg i)) f \<and> of_owner_user_ura f = Some owner \<and>
       or_owner_ura (resolve_owner dbg i) = of_owner_ura f \<and> trim owner \<noteq> []
   | None \<Rightarrow> or_owner_source (resolve_owner dbg i) = OsUnresolved \<and>
       (silent (oi_subject i) \<and> silent (oi_callee i) \<and> silent (oi_device i) \<and> silent (oi_session i) \<or>
        (\<exists>s f. owner_takes i s f \<and> (case of_owner_user_ura f of None \<Rightarrow> True | Some owner \<Rightarrow> trim owner = [])))"
proof (cases "authoritative_facts i")
  case Nil
  then show ?thesis
    using authoritative_facts_Nil [of i] by (simp add: resolve_owner_def resolve_owner_from_def owner_unresolved_def)
next
  case (Cons y ys)
  obtain s f where y: "y = (s, f)" by fastforce
  have "owner_takes i s f" using Cons y by (intro authoritative_facts_Cons) simp
  with Cons y show ?thesis
    by (cases "of_owner_user_ura f")
      (auto simp: resolve_owner_def resolve_owner_from_def intro!: exI [of _ s] exI [of _ f])
qed

section \<open>Examples\<close>

definition demo_policy :: "permission_grant list \<Rightarrow> policy_input" where
  "demo_policy grants =
     \<lparr>pi_owner = \<lparr>or_owner_user_ura = Some ''alice'', or_owner_ura = Some ''alice'', or_owner_source = OsSubject,
        or_audit_warnings = []\<rparr>,
      pi_caller_user_ura = Some ''alice'', pi_caller_ura = ''alice'', pi_principal_kind = PkToken,
      pi_principal_id = ''p'', pi_token_id = None, pi_token_class = None, pi_device_purpose = None,
      pi_callee_ura = ''callee'', pi_subject_ura = ''r/x'', pi_ability_ura = ''chat'', pi_action = AInvoke,
      pi_safe_read = False, pi_system_rule_matches = [], pi_invocation_lifecycle_control = False,
      pi_interactive_context_available = False, pi_canonical_hash = None, pi_signature_key_id = None,
      pi_verified_authority_id = Some ''proof'', pi_verified_session_id = None, pi_rejector_ura = None,
      pi_now = 0, pi_grants = grants\<rparr>"

lemma trim_alice: "trim ''alice'' = ''alice''" "trim ''r/x'' = ''r/x''" "trim ''r/y'' = ''r/y''"
  by (simp_all add: trim_id trimmed_printable)

text \<open>Two deny grants, of which only the second applies: it is the one the decision names.\<close>

theorem deny_overrides_witness:
  "pd_reason (policy_check demo_rfc (demo_policy [demo_grant ''f'' EffDeny ''r/y'', demo_grant ''g'' EffDeny ''r/x''])) =
     ExplicitDeny \<and>
   pd_grant_id (policy_check demo_rfc (demo_policy [demo_grant ''f'' EffDeny ''r/y'', demo_grant ''g'' EffDeny ''r/x''])) =
     Some ''g''"
proof -
  let ?i = "demo_policy [demo_grant ''f'' EffDeny ''r/y'', demo_grant ''g'' EffDeny ''r/x'']"
  let ?gi = "grant_input ?i ''alice''"
  have o: "accountable_owner ?i = Some ''alice''" by (simp add: accountable_owner_def demo_policy_def trim_alice)
  have g: "demo_grant ''g'' EffDeny ''r/x'' \<in> set (pi_grants ?i)" by (simp add: demo_policy_def)
  have a: "grant_applies demo_rfc ?gi EffDeny (demo_grant ''g'' EffDeny ''r/x'')"
    by (simp add: grant_applies_def grant_input_def demo_policy_def demo_grant_def active_at_def token_matches_def
        token_class_matches_def session_matches_def)
  have s: "specificity (demo_grant ''g'' EffDeny ''r/x'') ?gi \<noteq> None" "specificity (demo_grant ''f'' EffDeny ''r/y'') ?gi = None"
    by (simp_all add: specificity_def demo_grant_def grant_input_def demo_policy_def selector_parse_def
        selector_matches_def trim_alice strip_suffix_def suffix_def)
  have grants: "pi_grants ?i = [demo_grant ''f'' EffDeny ''r/y'', demo_grant ''g'' EffDeny ''r/x'']"
    by (simp add: demo_policy_def)
  have gid: "pg_grant_id (demo_grant ''g'' EffDeny ''r/x'') = ''g''" by (simp add: demo_grant_def)
  from deny_overrides [OF o g a s(1)] s(2) show ?thesis unfolding grants by (auto simp: gid)
qed

end
