(* ===== verification/AuthorityProof.thy ===== *)
theory AuthorityProof
  imports AccessTypes
begin

text \<open>
  Authority proofs (\<open>src/daemon/invocation/admission/authority_proof.rs\<close>): the signed material of a proof
  and its verification against one invocation. Canonical JSON is \<open>canonical_json_bytes\<close> of
  \<open>src/daemon/ability/descriptors/mod.rs\<close>. The signature scheme, base64 and the JSON printer are parameters.
\<close>

section \<open>Canonical JSON\<close>

text \<open>\<open>sort_json_value\<close>: the members of an object in the order of their keys. Lists of members are maps:
  the first entry of a key is the one \<open>get\<close> returns.\<close>

fun sort_json_value :: "json \<Rightarrow> json" where
  "sort_json_value (JObject m) = JObject (sort_key fst (map (\<lambda>(k, v). (k, sort_json_value v)) m))"
| "sort_json_value (JArray vs) = JArray (map sort_json_value vs)"
| "sort_json_value JNull = JNull"
| "sort_json_value (JBool b) = JBool b"
| "sort_json_value (JInt n) = JInt n"
| "sort_json_value (JFloat f) = JFloat f"
| "sort_json_value (JString s) = JString s"

definition canonical_json_bytes :: "(json \<Rightarrow> string) \<Rightarrow> json \<Rightarrow> string" where
  "canonical_json_bytes to_vec v = to_vec (sort_json_value v)"

section \<open>Proofs\<close>

record authority_proof =
  ap_proof_id :: string
  ap_grant_id :: "string option"
  ap_permission_request_id :: "string option"
  ap_owner_user_ura :: string
  ap_principal_kind :: principal_kind
  ap_principal_id :: string
  ap_token_id :: "string option"
  ap_token_class :: "token_class option"
  ap_callee_ura :: string
  ap_subject_ura :: string
  ap_ability_ura :: string
  ap_action :: access_action
  ap_nonce :: "string option"
  ap_canonical_hash :: "string option"
  ap_session_id :: "string option"
  ap_session_owner_user_ura :: "string option"
  ap_allowed_followup_abilities :: "string list"
  ap_session_expires_at :: "string option"
  ap_issued_at :: string
  ap_expires_at :: string
  ap_issuer_ura :: string
  ap_audience_ura :: string
  ap_signature :: string

text \<open>The serialized names of the enumerations.\<close>

definition principal_kind_json :: "principal_kind \<Rightarrow> json" where
  "principal_kind_json k =
     JString (case k of
        PkUser \<Rightarrow> ''user'' | PkAgent \<Rightarrow> ''agent'' | PkToken \<Rightarrow> ''token'' | PkHub \<Rightarrow> ''hub''
      | PkDeviceCustody \<Rightarrow> ''device'' | PkService \<Rightarrow> ''service'' | PkAutomation \<Rightarrow> ''automation'')"

definition token_class_json :: "token_class \<Rightarrow> json" where
  "token_class_json c =
     JString (case c of
        TcHubLink \<Rightarrow> ''hub_link'' | TcBrowserSession \<Rightarrow> ''browser_session'' | TcDevicePairing \<Rightarrow> ''device_pairing''
      | TcAutomation \<Rightarrow> ''automation'' | TcThirdParty \<Rightarrow> ''third_party'' | TcService \<Rightarrow> ''service'')"

definition access_action_str :: "access_action \<Rightarrow> string" where
  "access_action_str a =
     (case a of
        ARead \<Rightarrow> ''read'' | AInvoke \<Rightarrow> ''invoke'' | AStream \<Rightarrow> ''stream'' | AManage \<Rightarrow> ''manage'' | AGrant \<Rightarrow> ''grant'')"

definition normalized_followup_abilities :: "string list \<Rightarrow> string list" where
  "normalized_followup_abilities abilities =
     remdups_adj (sort (filter (\<lambda>a. a \<noteq> []) (map trim abilities)))"

text \<open>A member that is set only when there is a value; blank texts count as absent.\<close>

definition insert_field :: "string \<Rightarrow> json option \<Rightarrow> json_map \<Rightarrow> json_map" where
  "insert_field key v m = (case v of Some v \<Rightarrow> json_insert key v m | None \<Rightarrow> m)"

definition signed_optional :: "string option \<Rightarrow> string option" where
  "signed_optional c = (case c of Some raw \<Rightarrow> if trim raw \<noteq> [] then Some raw else None | None \<Rightarrow> None)"

definition insert_optional :: "string \<Rightarrow> string option \<Rightarrow> json_map \<Rightarrow> json_map" where
  "insert_optional key candidate m = insert_field key (map_option JString (signed_optional candidate)) m"

definition base_material :: "authority_proof \<Rightarrow> json_map" where
  "base_material p =
     [(''profile'', JString ''easynet-authority-proof-v0''),
      (''proof_id'', JString (ap_proof_id p)),
      (''owner_user_id'', JString (ap_owner_user_ura p)),
      (''principal_kind'', principal_kind_json (ap_principal_kind p)),
      (''principal_id'', JString (ap_principal_id p)),
      (''callee_ura'', JString (ap_callee_ura p)),
      (''subject_ura'', JString (ap_subject_ura p)),
      (''ability_ura'', JString (ap_ability_ura p)),
      (''action'', JString (access_action_str (ap_action p))),
      (''issued_at'', JString (ap_issued_at p)),
      (''expires_at'', JString (ap_expires_at p)),
      (''issuer_ura'', JString (ap_issuer_ura p)),
      (''audience_ura'', JString (ap_audience_ura p))]"

definition canonical_material :: "authority_proof \<Rightarrow> json_map" where
  "canonical_material p =
     (let abilities = normalized_followup_abilities (ap_allowed_followup_abilities p);
          m = base_material p;
          m = insert_optional ''grant_id'' (ap_grant_id p) m;
          m = insert_optional ''permission_request_id'' (ap_permission_request_id p) m;
          m = insert_optional ''token_id'' (ap_token_id p) m;
          m = insert_field ''token_class'' (map_option token_class_json (ap_token_class p)) m;
          m = insert_optional ''nonce'' (ap_nonce p) m;
          m = insert_optional ''canonical_hash'' (ap_canonical_hash p) m;
          m = insert_optional ''session_id'' (ap_session_id p) m;
          m = insert_optional ''session_owner_user_id'' (ap_session_owner_user_ura p) m;
          m = insert_field ''allowed_followup_abilities''
                (if abilities \<noteq> [] then Some (JArray (map JString abilities)) else None) m
      in insert_optional ''session_expires_at'' (ap_session_expires_at p) m)"

section \<open>Identity contracts\<close>

text \<open>A failed check names the offending field.\<close>

definition proof_user_ura :: "ura_api \<Rightarrow> string \<Rightarrow> string \<Rightarrow> string + unit" where
  "proof_user_ura api v field =
     (if trim v = [] \<or> is_all_zero_principal_id v then Inl field
      else
        (case parse_ura api v of
           Inl _ \<Rightarrow> Inl field
         | Inr p \<Rightarrow> ensure (up_kind p = KUser \<and> up_user_id p \<noteq> None) field))"

definition exact_identity :: "ura_api \<Rightarrow> string \<Rightarrow> string \<Rightarrow> string + unit" where
  "exact_identity api field v =
     (case runtime_identity_parse api v of
        Inl _ \<Rightarrow> Inl field
      | Inr r \<Rightarrow> ensure (ri_ura r = v) field)"

definition validate_identity_contract :: "ura_api \<Rightarrow> authority_proof \<Rightarrow> string + unit" where
  "validate_identity_contract api p =
     and_then (proof_user_ura api (ap_owner_user_ura p) ''owner_user_id'') (\<lambda>_.
     and_then (if ap_principal_kind p = PkUser then proof_user_ura api (ap_principal_id p) ''principal_id''
               else Inr ()) (\<lambda>_.
     and_then (case ap_session_owner_user_ura p of
                 Some u \<Rightarrow> proof_user_ura api u ''session_owner_user_id''
               | None \<Rightarrow> Inr ()) (\<lambda>_.
     and_then (exact_identity api ''callee_ura'' (ap_callee_ura p)) (\<lambda>_.
     and_then (exact_identity api ''subject_ura'' (ap_subject_ura p)) (\<lambda>_.
     and_then (exact_identity api ''issuer_ura'' (ap_issuer_ura p)) (\<lambda>_.
     exact_identity api ''audience_ura'' (ap_audience_ura p)))))))"

section \<open>Verification\<close>

record proof_context =
  vc_owner_user_ura :: string
  vc_principal_kind :: principal_kind
  vc_principal_id :: string
  vc_token_id :: "string option"
  vc_token_class :: "token_class option"
  vc_callee_ura :: string
  vc_subject_ura :: string
  vc_ability_ura :: string
  vc_action :: access_action
  vc_nonce :: "string option"
  vc_canonical_hash :: "string option"
  vc_audience_ura :: string
  vc_session_id :: "string option"
  vc_session_owner_user_ura :: "string option"
  vc_now :: instant

text \<open>The issuer resolver, with ed25519 verification, base64 and the JSON printer.\<close>

record 'k proof_env =
  pe_api :: ura_api
  pe_rfc :: rfc3339
  pe_verifying_key :: "string \<Rightarrow> 'k option"
  pe_issuer_authorized :: "string \<Rightarrow> string \<Rightarrow> bool"
  pe_authority_active :: "authority_proof \<Rightarrow> bool"
  pe_base64 :: "string \<Rightarrow> string option"
  pe_verify :: "'k \<Rightarrow> string \<Rightarrow> string \<Rightarrow> bool"
  pe_to_vec :: "json \<Rightarrow> string"

datatype proof_deny =
    ProofMissing | ProofExpired | ProofSignatureInvalid | ProofIssuerDenied | ProofAudienceMismatch
  | ProofMismatch | ProofRevoked

definition map_error :: "('e \<Rightarrow> 'f) \<Rightarrow> 'e + 'a \<Rightarrow> 'f + 'a" where
  "map_error f r = (case r of Inl e \<Rightarrow> Inl (f e) | Inr x \<Rightarrow> Inr x)"

lemma map_error_Inr_iff [result_simps]: "map_error f r = Inr x \<longleftrightarrow> r = Inr x"
  by (cases r) (auto simp: map_error_def)

definition validate_context_identity :: "ura_api \<Rightarrow> proof_context \<Rightarrow> proof_deny + unit" where
  "validate_context_identity api c =
     map_error (\<lambda>_. ProofMismatch)
       (and_then (proof_user_ura api (vc_owner_user_ura c) ''owner_user_ura'') (\<lambda>_.
        and_then (if vc_principal_kind c = PkUser then proof_user_ura api (vc_principal_id c) ''principal_id''
                  else Inr ()) (\<lambda>_.
        and_then (case vc_session_owner_user_ura c of
                    Some u \<Rightarrow> proof_user_ura api u ''session_owner_user_id''
                  | None \<Rightarrow> Inr ()) (\<lambda>_.
        and_then (exact_identity api ''callee_ura'' (vc_callee_ura c)) (\<lambda>_.
        and_then (exact_identity api ''subject_ura'' (vc_subject_ura c)) (\<lambda>_.
        exact_identity api ''audience_ura'' (vc_audience_ura c)))))))"

definition not_after :: "rfc3339 \<Rightarrow> string \<Rightarrow> instant \<Rightarrow> proof_deny + unit" where
  "not_after rfc raw now =
     (case rfc raw of None \<Rightarrow> Inl ProofMismatch | Some t \<Rightarrow> ensure (t > now) ProofExpired)"

definition verify_not_expired :: "rfc3339 \<Rightarrow> authority_proof \<Rightarrow> instant \<Rightarrow> proof_deny + unit" where
  "verify_not_expired rfc p now =
     and_then (not_after rfc (ap_expires_at p) now) (\<lambda>_.
     case ap_session_expires_at p of Some raw \<Rightarrow> not_after rfc raw now | None \<Rightarrow> Inr ())"

definition matches_route_binding :: "authority_proof \<Rightarrow> proof_context \<Rightarrow> bool" where
  "matches_route_binding p c \<longleftrightarrow>
     ap_callee_ura p = vc_callee_ura c \<and> ap_subject_ura p = vc_subject_ura c \<and>
     ap_ability_ura p = vc_ability_ura c \<and> ap_audience_ura p = vc_audience_ura c"

definition nonblank :: "string option \<Rightarrow> string option" where
  "nonblank v = (case v of Some s \<Rightarrow> if trim s \<noteq> [] then Some (trim s) else None | None \<Rightarrow> None)"

definition verify_session_binding_facts :: "authority_proof \<Rightarrow> proof_context \<Rightarrow> proof_deny + unit" where
  "verify_session_binding_facts p c =
     (if ap_session_id p \<noteq> None then
        (case (nonblank (ap_session_owner_user_ura p), nonblank (vc_session_owner_user_ura c)) of
           (Some a, Some b) \<Rightarrow> ensure (a = b) ProofMismatch
         | _ \<Rightarrow> Inl ProofMismatch)
      else
        ensure (ap_session_owner_user_ura p = None \<or> ap_session_owner_user_ura p = vc_session_owner_user_ura c)
          ProofMismatch)"

definition request_scoped_one_time_authority_proof :: "authority_proof \<Rightarrow> bool" where
  "request_scoped_one_time_authority_proof p \<longleftrightarrow>
     ap_permission_request_id p \<noteq> None \<and> ap_grant_id p = None \<and> ap_session_id p = None"

definition proof_binds_invocation_identity :: "authority_proof \<Rightarrow> bool" where
  "proof_binds_invocation_identity p \<longleftrightarrow> nonblank (ap_nonce p) \<noteq> None \<or> nonblank (ap_canonical_hash p) \<noteq> None"

definition verify_invocation_binding :: "authority_proof \<Rightarrow> proof_context \<Rightarrow> proof_deny + unit" where
  "verify_invocation_binding p c =
     and_then (ensure (ap_audience_ura p = vc_audience_ura c) ProofAudienceMismatch) (\<lambda>_.
     and_then (ensure (ap_owner_user_ura p = vc_owner_user_ura c \<and> ap_principal_kind p = vc_principal_kind c \<and>
        ap_principal_id p = vc_principal_id c \<and> ap_token_id p = vc_token_id c \<and>
        ap_token_class p = vc_token_class c \<and> matches_route_binding p c \<and> ap_action p = vc_action c)
        ProofMismatch) (\<lambda>_.
     and_then (ensure (ap_nonce p = None \<or> ap_nonce p = vc_nonce c) ProofMismatch) (\<lambda>_.
     and_then (ensure (ap_canonical_hash p = None \<or> ap_canonical_hash p = vc_canonical_hash c) ProofMismatch) (\<lambda>_.
     and_then (ensure (ap_session_id p = None \<or> ap_session_id p = vc_session_id c) ProofMismatch) (\<lambda>_.
     and_then (verify_session_binding_facts p c) (\<lambda>_.
     and_then (ensure (ap_session_id p = None \<or>
        vc_ability_ura c \<in> set (normalized_followup_abilities (ap_allowed_followup_abilities p))) ProofMismatch) (\<lambda>_.
     ensure (request_scoped_one_time_authority_proof p \<longrightarrow> proof_binds_invocation_identity p) ProofMismatch)))))))"

definition decode_signature :: "'k proof_env \<Rightarrow> string \<Rightarrow> proof_deny + string" where
  "decode_signature env raw =
     (let raw = trim raw;
          encoded = (case strip_prefix ''ed25519:'' raw of Some e \<Rightarrow> e | None \<Rightarrow> raw)
      in
      case pe_base64 env encoded of
        None \<Rightarrow> Inl ProofSignatureInvalid
      | Some bytes \<Rightarrow> and_then (ensure (length bytes = 64) ProofSignatureInvalid) (\<lambda>_. Inr bytes))"

definition verify_signature :: "'k proof_env \<Rightarrow> authority_proof \<Rightarrow> proof_deny + unit" where
  "verify_signature env p =
     (case pe_verifying_key env (ap_issuer_ura p) of
        None \<Rightarrow> Inl ProofIssuerDenied
      | Some key \<Rightarrow>
          and_then (decode_signature env (ap_signature p)) (\<lambda>sig.
          ensure (pe_verify env key (canonical_json_bytes (pe_to_vec env) (JObject (canonical_material p))) sig)
            ProofSignatureInvalid))"

definition verify_proof :: "'k proof_env \<Rightarrow> authority_proof option \<Rightarrow> proof_context \<Rightarrow> proof_deny + unit" where
  "verify_proof env candidate c =
     (case candidate of
        None \<Rightarrow> Inl ProofMissing
      | Some p \<Rightarrow>
          and_then (map_error (\<lambda>_. ProofMismatch) (validate_identity_contract (pe_api env) p)) (\<lambda>_.
          and_then (validate_context_identity (pe_api env) c) (\<lambda>_.
          and_then (verify_not_expired (pe_rfc env) p (vc_now c)) (\<lambda>_.
          and_then (verify_invocation_binding p c) (\<lambda>_.
          and_then (verify_signature env p) (\<lambda>_.
          and_then (ensure (pe_issuer_authorized env (ap_issuer_ura p) (ap_owner_user_ura p)) ProofIssuerDenied) (\<lambda>_.
          ensure (pe_authority_active env p) ProofRevoked)))))))"

section \<open>What a verified proof establishes\<close>

text \<open>The contract of verification, spelled out. A text names a user if it is the address of one and not the
  placeholder; it names an identity if it is the normal form of one.\<close>

definition names_user :: "ura_api \<Rightarrow> string \<Rightarrow> bool" where
  "names_user api v \<longleftrightarrow> trim v \<noteq> [] \<and> \<not> is_all_zero_principal_id v \<and>
     (\<exists>u. parse_ura api v = Inr u \<and> up_kind u = KUser \<and> up_user_id u \<noteq> None)"

definition names_identity :: "ura_api \<Rightarrow> string \<Rightarrow> bool" where
  "names_identity api v \<longleftrightarrow> (\<exists>r. runtime_identity_parse api v = Inr r \<and> ri_ura r = v)"

definition well_named :: "ura_api \<Rightarrow> authority_proof \<Rightarrow> proof_context \<Rightarrow> bool" where
  "well_named api p c \<longleftrightarrow>
     names_user api (ap_owner_user_ura p) \<and> (ap_principal_kind p = PkUser \<longrightarrow> names_user api (ap_principal_id p)) \<and>
     (\<forall>u. ap_session_owner_user_ura p = Some u \<or> vc_session_owner_user_ura c = Some u \<longrightarrow> names_user api u) \<and>
     names_identity api (ap_callee_ura p) \<and> names_identity api (ap_subject_ura p) \<and>
     names_identity api (ap_issuer_ura p) \<and> names_identity api (ap_audience_ura p)"

definition expires_later :: "rfc3339 \<Rightarrow> instant \<Rightarrow> string \<Rightarrow> bool" where
  "expires_later rfc now v \<longleftrightarrow> (\<exists>t. rfc v = Some t \<and> now < t)"

definition unexpired :: "rfc3339 \<Rightarrow> authority_proof \<Rightarrow> instant \<Rightarrow> bool" where
  "unexpired rfc p now \<longleftrightarrow> expires_later rfc now (ap_expires_at p) \<and>
     (\<forall>v. ap_session_expires_at p = Some v \<longrightarrow> expires_later rfc now v)"

definition names_invocation :: "authority_proof \<Rightarrow> proof_context \<Rightarrow> bool" where
  "names_invocation p c \<longleftrightarrow>
     (ap_owner_user_ura p, ap_principal_kind p, ap_principal_id p, ap_token_id p, ap_token_class p) =
       (vc_owner_user_ura c, vc_principal_kind c, vc_principal_id c, vc_token_id c, vc_token_class c) \<and>
     (ap_callee_ura p, ap_subject_ura p, ap_ability_ura p, ap_action p, ap_audience_ura p) =
       (vc_callee_ura c, vc_subject_ura c, vc_ability_ura c, vc_action c, vc_audience_ura c) \<and>
     ap_nonce p \<in> {None, vc_nonce c} \<and> ap_canonical_hash p \<in> {None, vc_canonical_hash c} \<and>
     ap_session_id p \<in> {None, vc_session_id c}"

text \<open>A session proof belongs to the owner of the session and lists the ability; a proof of one permission request
  and nothing else names the invocation by a nonce or a hash that is not blank.\<close>

definition scoped_to_invocation :: "authority_proof \<Rightarrow> proof_context \<Rightarrow> bool" where
  "scoped_to_invocation p c \<longleftrightarrow>
     (if ap_session_id p = None then ap_session_owner_user_ura p \<in> {None, vc_session_owner_user_ura c}
      else (\<exists>a b. ap_session_owner_user_ura p = Some a \<and> vc_session_owner_user_ura c = Some b \<and> trim a = trim b) \<and>
        vc_ability_ura c \<noteq> [] \<and> vc_ability_ura c \<in> trim ` set (ap_allowed_followup_abilities p)) \<and>
     (ap_permission_request_id p \<noteq> None \<and> ap_grant_id p = None \<and> ap_session_id p = None \<longrightarrow>
        (\<exists>v. trim v \<noteq> [] \<and> (ap_nonce p = Some v \<or> ap_canonical_hash p = Some v)))"

definition signed_by_issuer :: "'k proof_env \<Rightarrow> authority_proof \<Rightarrow> bool" where
  "signed_by_issuer env p \<longleftrightarrow>
     (\<exists>key encoded sig. pe_verifying_key env (ap_issuer_ura p) = Some key \<and>
        (trim (ap_signature p) = ''ed25519:'' @ encoded \<or>
         trim (ap_signature p) = encoded \<and> \<not> prefix ''ed25519:'' encoded) \<and>
        pe_base64 env encoded = Some sig \<and> length sig = 64 \<and>
        pe_verify env key (pe_to_vec env (sort_json_value (JObject (canonical_material p)))) sig)"

lemma proof_user_ura_Inr [result_simps]: "proof_user_ura api v field = Inr u \<longleftrightarrow> names_user api v"
  by (auto simp: proof_user_ura_def names_user_def ensure_Inr_iff split: sum.splits)

lemma exact_identity_Inr [result_simps]: "exact_identity api field v = Inr u \<longleftrightarrow> names_identity api v"
  by (auto simp: exact_identity_def names_identity_def ensure_Inr_iff split: sum.splits)

lemma identity_checks_Inr:
  assumes "names_invocation p c"
  shows "validate_identity_contract api p = Inr () \<and> validate_context_identity api c = Inr () \<longleftrightarrow> well_named api p c"
  using assms
  by (auto simp: validate_identity_contract_def validate_context_identity_def well_named_def names_invocation_def
      result_simps split: option.splits)

lemma verify_not_expired_Inr: "verify_not_expired rfc p now = Inr () \<longleftrightarrow> unexpired rfc p now"
  by (auto simp: verify_not_expired_def not_after_def unexpired_def expires_later_def result_simps split: option.splits)

lemma set_normalized_followup_abilities:
  "set (normalized_followup_abilities abilities) = {a \<in> trim ` set abilities. a \<noteq> []}"
  by (auto simp: normalized_followup_abilities_def)

lemma session_facts_Inr:
  assumes "well_named api p c"
  shows "verify_session_binding_facts p c = Inr () \<longleftrightarrow>
     (if ap_session_id p = None then ap_session_owner_user_ura p \<in> {None, vc_session_owner_user_ura c}
      else (\<exists>a b. ap_session_owner_user_ura p = Some a \<and> vc_session_owner_user_ura c = Some b \<and> trim a = trim b))"
  using assms
  by (auto simp: verify_session_binding_facts_def nonblank_def well_named_def names_user_def ensure_Inr_iff
      split: option.splits)

lemma binds_identity:
  "proof_binds_invocation_identity p \<longleftrightarrow> (\<exists>v. trim v \<noteq> [] \<and> (ap_nonce p = Some v \<or> ap_canonical_hash p = Some v))"
  by (auto simp: proof_binds_invocation_identity_def nonblank_def split: option.splits)

lemma names_invocation_checks:
  "names_invocation p c \<longleftrightarrow>
     ap_audience_ura p = vc_audience_ura c \<and>
     (ap_owner_user_ura p = vc_owner_user_ura c \<and> ap_principal_kind p = vc_principal_kind c \<and>
        ap_principal_id p = vc_principal_id c \<and> ap_token_id p = vc_token_id c \<and>
        ap_token_class p = vc_token_class c \<and> matches_route_binding p c \<and> ap_action p = vc_action c) \<and>
     (ap_nonce p = None \<or> ap_nonce p = vc_nonce c) \<and>
     (ap_canonical_hash p = None \<or> ap_canonical_hash p = vc_canonical_hash c) \<and>
     (ap_session_id p = None \<or> ap_session_id p = vc_session_id c)"
  unfolding names_invocation_def matches_route_binding_def prod.inject insert_iff empty_iff by blast

lemma scoped_to_invocation_checks:
  assumes "well_named api p c"
  shows "scoped_to_invocation p c \<longleftrightarrow>
     verify_session_binding_facts p c = Inr () \<and>
     (ap_session_id p = None \<or>
        vc_ability_ura c \<in> set (normalized_followup_abilities (ap_allowed_followup_abilities p))) \<and>
     (request_scoped_one_time_authority_proof p \<longrightarrow> proof_binds_invocation_identity p)"
  unfolding scoped_to_invocation_def session_facts_Inr [OF assms] set_normalized_followup_abilities binds_identity
    request_scoped_one_time_authority_proof_def
  by (cases "ap_session_id p") (simp_all, blast)

lemma verify_invocation_binding_Inr:
  assumes "well_named api p c"
  shows "verify_invocation_binding p c = Inr () \<longleftrightarrow> names_invocation p c \<and> scoped_to_invocation p c"
  unfolding names_invocation_checks scoped_to_invocation_checks [OF assms]
  by (simp add: verify_invocation_binding_def result_simps)

lemma verify_invocation_binding_names: "verify_invocation_binding p c = Inr () \<Longrightarrow> names_invocation p c"
  unfolding names_invocation_checks by (simp add: verify_invocation_binding_def result_simps)

lemma verify_signature_Inr: "verify_signature env p = Inr () \<longleftrightarrow> signed_by_issuer env p"
proof (cases "strip_prefix ''ed25519:'' (trim (ap_signature p))")
  case None
  then have "\<not> prefix ''ed25519:'' (trim (ap_signature p))" by (simp add: strip_prefix_def split: if_splits)
  with None show ?thesis
    by (auto simp: verify_signature_def decode_signature_def signed_by_issuer_def canonical_json_bytes_def result_simps
        split: option.splits)
next
  case (Some e)
  then have "trim (ap_signature p) = ''ed25519:'' @ e" by (auto simp: strip_prefix_def prefix_def split: if_splits)
  with Some show ?thesis
    by (auto simp: verify_signature_def decode_signature_def signed_by_issuer_def canonical_json_bytes_def result_simps
        split: option.splits)
qed

text \<open>C10: A proof verifies for an invocation exactly when all of this holds. The addresses in it, and the session owner
  of the invocation, are well formed. The proof and, if it has one, its session have not expired. It names the
  owner, principal, token, callee, subject, ability, action and audience of the invocation, and, if present,
  its nonce, canonical hash and session. A session proof belongs to the session's owner and lists the ability
  among its follow-ups; a one-time proof has a nonce or a hash that is not blank. The signature in it, decoded,
  is one by the key of its issuer over its canonical material. The issuer may act for the owner, and the
  authority behind the proof is active.\<close>

theorem verified_proof_binds:
  "verify_proof env (Some p) c = Inr () \<longleftrightarrow>
     well_named (pe_api env) p c \<and> unexpired (pe_rfc env) p (vc_now c) \<and> names_invocation p c \<and>
     scoped_to_invocation p c \<and> signed_by_issuer env p \<and>
     pe_issuer_authorized env (ap_issuer_ura p) (ap_owner_user_ura p) \<and> pe_authority_active env p"
proof -
  have "verify_proof env (Some p) c = Inr () \<longleftrightarrow>
      validate_identity_contract (pe_api env) p = Inr () \<and> validate_context_identity (pe_api env) c = Inr () \<and>
      unexpired (pe_rfc env) p (vc_now c) \<and> verify_invocation_binding p c = Inr () \<and> signed_by_issuer env p \<and>
      pe_issuer_authorized env (ap_issuer_ura p) (ap_owner_user_ura p) \<and> pe_authority_active env p"
    by (simp add: verify_proof_def result_simps verify_not_expired_Inr verify_signature_Inr)
  then show ?thesis
    using identity_checks_Inr [of p c "pe_api env"] verify_invocation_binding_names [of p c]
      verify_invocation_binding_Inr [of "pe_api env" p c] by blast
qed

section \<open>What a signature covers\<close>

lemma map_of_sort_key_fst: "distinct (map fst m) \<Longrightarrow> map_of (sort_key fst m) = map_of m"
proof -
  assume d: "distinct (map fst m)"
  have "distinct (map fst (sort_key fst m))"
    using d by (metis distinct_map distinct_sort set_sort)
  with d show ?thesis by (simp add: map_of_inject_set)
qed

lemma sort_json_value_lookup:
  assumes "distinct (map fst m)" and "sort_json_value (JObject m) = JObject m'"
  shows "map_of m' k = map_option sort_json_value (map_of m k)"
proof -
  let ?m = "map (\<lambda>(k, v). (k, sort_json_value v)) m"
  have "distinct (map fst ?m)" using assms(1) by (simp add: comp_def case_prod_beta)
  then have "map_of m' = map_of ?m" using assms(2) map_of_sort_key_fst [of ?m] by auto
  then show ?thesis by (simp add: map_of_map)
qed

lemma field_lookup:
  "map_of m k = None \<Longrightarrow> map_of (insert_field k v m) k = v"
  "x \<noteq> k \<Longrightarrow> map_of (insert_field k v m) x = map_of m x"
  by (auto simp: insert_field_def update_conv' split: option.split)

lemma distinct_insert_field: "distinct (map fst m) \<Longrightarrow> distinct (map fst (insert_field k v m))"
  by (auto simp: insert_field_def distinct_update split: option.split)

lemma distinct_canonical_material: "distinct (map fst (canonical_material p))"
  unfolding canonical_material_def Let_def insert_optional_def
  by (intro distinct_insert_field) (simp add: base_material_def)

lemmas material_simps = canonical_material_def Let_def insert_optional_def field_lookup base_material_def

lemma material_lookup:
  "map_of (canonical_material p) ''session_expires_at'' = map_option JString (signed_optional (ap_session_expires_at p))"
  "map_of (canonical_material p) ''session_owner_user_id'' = map_option JString (signed_optional (ap_session_owner_user_ura p))"
  "map_of (canonical_material p) ''session_id'' = map_option JString (signed_optional (ap_session_id p))"
  "map_of (canonical_material p) ''canonical_hash'' = map_option JString (signed_optional (ap_canonical_hash p))"
  "map_of (canonical_material p) ''nonce'' = map_option JString (signed_optional (ap_nonce p))"
  "map_of (canonical_material p) ''token_id'' = map_option JString (signed_optional (ap_token_id p))"
  "map_of (canonical_material p) ''permission_request_id'' = map_option JString (signed_optional (ap_permission_request_id p))"
  "map_of (canonical_material p) ''grant_id'' = map_option JString (signed_optional (ap_grant_id p))"
  "map_of (canonical_material p) ''token_class'' = map_option token_class_json (ap_token_class p)"
  "map_of (canonical_material p) ''proof_id'' = Some (JString (ap_proof_id p))"
  "map_of (canonical_material p) ''owner_user_id'' = Some (JString (ap_owner_user_ura p))"
  "map_of (canonical_material p) ''principal_kind'' = Some (principal_kind_json (ap_principal_kind p))"
  "map_of (canonical_material p) ''principal_id'' = Some (JString (ap_principal_id p))"
  "map_of (canonical_material p) ''callee_ura'' = Some (JString (ap_callee_ura p))"
  "map_of (canonical_material p) ''subject_ura'' = Some (JString (ap_subject_ura p))"
  "map_of (canonical_material p) ''ability_ura'' = Some (JString (ap_ability_ura p))"
  "map_of (canonical_material p) ''action'' = Some (JString (access_action_str (ap_action p)))"
  "map_of (canonical_material p) ''issued_at'' = Some (JString (ap_issued_at p))"
  "map_of (canonical_material p) ''expires_at'' = Some (JString (ap_expires_at p))"
  "map_of (canonical_material p) ''issuer_ura'' = Some (JString (ap_issuer_ura p))"
  "map_of (canonical_material p) ''audience_ura'' = Some (JString (ap_audience_ura p))"
  by (simp_all add: material_simps)

lemma principal_kind_json_inject: "principal_kind_json k = principal_kind_json k' \<longleftrightarrow> k = k'"
  by (cases k; cases k') (simp_all add: principal_kind_json_def)

lemma token_class_json_inject: "token_class_json c = token_class_json c' \<longleftrightarrow> c = c'"
  by (cases c; cases c') (simp_all add: token_class_json_def)

lemma access_action_str_inject: "access_action_str a = access_action_str b \<longleftrightarrow> a = b"
  by (cases a; cases b) (simp_all add: access_action_str_def)

lemma sorted_scalars:
  "map_option sort_json_value (map_option JString x) = map_option JString x"
  "map_option sort_json_value (map_option token_class_json y) = map_option token_class_json y"
  "sort_json_value (principal_kind_json k) = principal_kind_json k"
  by (cases x; cases y; simp add: token_class_json_def principal_kind_json_def)+

lemma map_option_JString_inject: "map_option JString x = map_option JString y \<longleftrightarrow> x = y"
  by (cases x; cases y) simp_all

lemma map_option_class_inject: "map_option token_class_json x = map_option token_class_json y \<longleftrightarrow> x = y"
  by (cases x; cases y) (simp_all add: token_class_json_inject)

lemma remdups_adj_sorted_distinct: "sorted xs \<Longrightarrow> distinct (remdups_adj xs)" for xs :: "'a :: linorder list"
  by (induction xs rule: remdups_adj.induct) auto

lemma normalized_followup_eq:
  "normalized_followup_abilities as = normalized_followup_abilities bs \<longleftrightarrow>
     {a \<in> trim ` set as. a \<noteq> []} = {b \<in> trim ` set bs. b \<noteq> []}"
proof
  assume "{a \<in> trim ` set as. a \<noteq> []} = {b \<in> trim ` set bs. b \<noteq> []}"
  moreover have "sorted (normalized_followup_abilities xs) \<and> distinct (normalized_followup_abilities xs)" for xs
    unfolding normalized_followup_abilities_def by (simp add: sorted_remdups_adj remdups_adj_sorted_distinct)
  ultimately show "normalized_followup_abilities as = normalized_followup_abilities bs"
    using sorted_distinct_set_unique set_normalized_followup_abilities by metis
qed (metis set_normalized_followup_abilities)

definition signed_followups :: "authority_proof \<Rightarrow> json option" where
  "signed_followups p =
     (let abilities = normalized_followup_abilities (ap_allowed_followup_abilities p)
      in if abilities \<noteq> [] then Some (JArray (map JString abilities)) else None)"

lemma material_followups: "map_of (canonical_material p) ''allowed_followup_abilities'' = signed_followups p"
  by (simp add: material_simps signed_followups_def)

lemma signed_followups_inject:
  "map_option sort_json_value (signed_followups p) = map_option sort_json_value (signed_followups q) \<longleftrightarrow>
     normalized_followup_abilities (ap_allowed_followup_abilities p) =
     normalized_followup_abilities (ap_allowed_followup_abilities q)"
  by (auto simp: signed_followups_def Let_def comp_def inj_on_def dest: map_inj_on)


section \<open>Examples\<close>

definition demo_proof :: "string list \<Rightarrow> authority_proof" where
  "demo_proof abilities =
     \<lparr>ap_proof_id = ''p1'', ap_grant_id = None, ap_permission_request_id = Some ''q1'', ap_owner_user_ura = ''user:a'',
      ap_principal_kind = PkToken, ap_principal_id = ''t'', ap_token_id = None, ap_token_class = None,
      ap_callee_ura = ''user:a'', ap_subject_ura = ''user:a'', ap_ability_ura = ''chat'', ap_action = AInvoke,
      ap_nonce = Some ''n1'', ap_canonical_hash = None, ap_session_id = None, ap_session_owner_user_ura = None,
      ap_allowed_followup_abilities = abilities, ap_session_expires_at = None, ap_issued_at = ''t0'',
      ap_expires_at = ''t1'', ap_issuer_ura = ''user:a'', ap_audience_ura = ''user:a'', ap_signature = ''sig''\<rparr>"

definition demo_context :: proof_context where
  "demo_context =
     \<lparr>vc_owner_user_ura = ''user:a'', vc_principal_kind = PkToken, vc_principal_id = ''t'', vc_token_id = None,
      vc_token_class = None, vc_callee_ura = ''user:a'', vc_subject_ura = ''user:a'', vc_ability_ura = ''chat'',
      vc_action = AInvoke, vc_nonce = Some ''n1'', vc_canonical_hash = None, vc_audience_ura = ''user:a'',
      vc_session_id = None, vc_session_owner_user_ura = None, vc_now = 5\<rparr>"

text \<open>Every address is the one of user \<open>a\<close>.\<close>

definition user_api :: ura_api where
  "user_api = demo_api\<lparr>parse_ura := (\<lambda>u. if u = ''user:a'' then
     Inr \<lparr>up_realm = ''r'', up_kind = KUser, up_user_id = Some ''a'', up_device_id = None, up_agent_ids = None,
          up_device_agent_ids = None, up_ability = None, up_ability_name = None, up_resource_owner_id = None,
          up_resource_path = None\<rparr>
     else Inl ''not an address'')\<rparr>"

definition demo_proof_env :: "unit proof_env" where
  "demo_proof_env =
     \<lparr>pe_api = user_api, pe_rfc = (\<lambda>s. if s = ''t1'' then Some 10 else None), pe_verifying_key = (\<lambda>i. Some ()),
      pe_issuer_authorized = (\<lambda>i ow. i = ow), pe_authority_active = (\<lambda>p. True),
      pe_base64 = (\<lambda>s. Some (replicate 64 (CHR ''x''))), pe_verify = (\<lambda>k m s. True), pe_to_vec = (\<lambda>v. [])\<rparr>"

lemma demo_proof_trims:
  "trim ''user:a'' = ''user:a''" "trim ''n1'' = ''n1''" "trim ''sig'' = ''sig''" "trim ''a'' = ''a''" "trim ''b'' = ''b''"
  "trim ''q1'' = ''q1''"
  by (simp_all add: trim_id trimmed_printable)

lemma demo_no_placeholder:
  "\<not> contains_all_zero_principal_placeholder ''user:a''" "\<not> is_all_zero_principal_id ''user:a''"
  unfolding contains_all_zero_principal_placeholder_def is_all_zero_principal_id_def demo_proof_trims by code_simp+

lemma demo_identity_ok:
  "proof_user_ura user_api ''user:a'' f = Inr ()" "exact_identity user_api f ''user:a'' = Inr ()"
  by (simp_all add: proof_user_ura_def exact_identity_def runtime_identity_parse_def demo_no_placeholder
      demo_proof_trims user_api_def)

theorem verified_proof_binds_witness:
  "verify_proof demo_proof_env (Some (demo_proof [])) demo_context = Inr () \<and> signed_by_issuer demo_proof_env (demo_proof []) \<and>
     scoped_to_invocation (demo_proof []) demo_context"
proof -
  have "verify_proof demo_proof_env (Some (demo_proof [])) demo_context = Inr ()"
    by (simp add: verify_proof_def validate_identity_contract_def validate_context_identity_def map_error_def
        demo_identity_ok verify_not_expired_def not_after_def verify_invocation_binding_def matches_route_binding_def
        verify_session_binding_facts_def proof_binds_invocation_identity_def nonblank_def demo_proof_trims
        verify_signature_def decode_signature_def demo_proof_env_def demo_proof_def demo_context_def strip_prefix_def)
  then show ?thesis using verified_proof_binds [of demo_proof_env "demo_proof []" demo_context] by blast
qed


end
