(* ===== verification/AccessStore.thy ===== *)
theory AccessStore
  imports PolicyEngine AuthorityProof
begin

text \<open>
  The policy store (\<open>src/daemon/persistence/access_control.rs\<close>): the grants, permission requests, authority
  proofs and audit records of one owner, kept in memory and in a hash-chained journal on disk.

  A journal line is a record whose payload is one of the five payload structs, so serde's round trip is
  built in; the sequence number, a \<open>u64\<close> that counts records from one, is a natural number. SHA-256 over
  canonical JSON is a function of the hashed value. The store's directory is part of its state. Every write
  has an outcome, a parameter of the model: \<open>se_append n\<close> if the \<open>n\<close>-th write appends to a journal file,
  \<open>se_replace n\<close> if it replaces the manifest. A write that reports an error may have left all, a part or
  nothing of its data behind. The \<open>n\<close>-th reading of the clock is \<open>se_now n\<close>. The maps that replay rebuilds
  (grants, requests, proofs, consumed proofs, audit) are grouped in a record of their own.
\<close>

section \<open>Records\<close>

datatype grant_mutation = MutCreated | MutRevoked | MutExpired | MutConsumed | MutEdited

record grant_audit =
  ga_audit_record_id :: string
  ga_grant_id :: string
  ga_mutation :: grant_mutation
  ga_owner_user_ura :: string
  ga_principal_id :: string
  ga_token_id :: "string option"
  ga_actions :: "access_action list"
  ga_ability_ura_pattern :: "string option"
  ga_subject_ura_pattern :: "string option"
  ga_effect :: permission_effect
  ga_actor_ura :: string
  ga_timestamp :: string
  ga_reason :: "string option"
  ga_previous_grant_hash :: string
  ga_new_grant_hash :: string

record compaction_policy =
  cp_grant_mutation_days :: int
  cp_prompt_days :: int
  cp_denied_admission_days :: int
  cp_nested_trace_days :: int
  cp_redacted_projection_days :: int

record checkpoint =
  ck_checkpoint_id :: string
  ck_compacted_at :: string
  ck_last_source_sequence :: nat
  ck_last_source_record_hash :: string
  ck_active_grant_hashes :: "string list"
  ck_pending_request_ids :: "string list"
  ck_unexpired_proof_ids :: "string list"
  ck_audit_record_ids :: "string list"
  ck_retention_floor :: compaction_policy

datatype record_kind = RkGrant | RkRequest | RkProof | RkAudit | RkCheckpoint

datatype record_operation =
    OpCreated | OpRevoked | OpExpired | OpEdited | OpApproved | OpDenied | OpCancelled | OpConsumed | OpCompacted

datatype payload =
    PGrant permission_grant
  | PRequest permission_request
  | PProof authority_proof
  | PAudit grant_audit
  | PCheckpoint checkpoint

record journal_record =
  jr_kind :: record_kind
  jr_schema_version :: nat
  jr_sequence :: nat
  jr_owner_user_ura :: string
  jr_record_id :: string
  jr_operation :: record_operation
  jr_payload :: payload
  jr_previous_record_hash :: string
  jr_record_hash :: string
  jr_created_at :: string
  jr_actor_ura :: string

text \<open>The values the store hashes; \<open>sha256_value\<close> prints one as canonical JSON and hashes it.\<close>

record grant_key =
  gk_owner_user_ura :: string
  gk_principal_kind :: principal_kind
  gk_principal_id :: string
  gk_token_id :: "string option"
  gk_callee_ura :: "string option"
  gk_subject_ura_pattern :: "string option"
  gk_ability_ura_pattern :: "string option"
  gk_actions :: "access_action list"
  gk_constraints :: "permission_constraints option"
  gk_effect :: permission_effect
  gk_lifetime :: grant_lifetime
  gk_expires_at :: "string option"
  gk_created_by :: string

record request_key =
  rk_owner_user_ura :: string
  rk_principal_id :: string
  rk_token_id :: "string option"
  rk_callee_ura :: string
  rk_subject_ura :: string
  rk_ability_ura :: string
  rk_action :: access_action
  rk_canonical_hash :: "string option"
  rk_nonce :: "string option"

text \<open>An audit id does not cover its own id, the timestamp and the reason; a record hash not itself.
  Those fields are blank in the hashed value.\<close>

datatype hashed =
    HGrant permission_grant
  | HGrantKey grant_key
  | HRequestKey request_key
  | HAudit grant_audit
  | HCheckpoint string nat string string
  | HRecord journal_record

record manifest =
  mn_format :: string
  mn_schema_version :: nat
  mn_owner_user_ura :: string
  mn_created_at :: string
  mn_last_compacted_at :: string
  mn_head_hash :: string
  mn_record_profile :: string
  mn_hash_algorithm :: string

text \<open>A journal file: lines that are records, lines that do not parse (a part of a record, or two records run
  together), and whether the last line has its newline.\<close>

datatype journal_line = Readable journal_record | Garbled

record journal_file =
  jf_lines :: "journal_line list"
  jf_ended :: bool

record store_files =
  fl_manifest :: "manifest option"
  fl_grants :: journal_file
  fl_requests :: journal_file
  fl_proofs :: journal_file
  fl_audit :: journal_file

text \<open>How an append ends: the record, its newline and the sync succeed; opening or the first byte fails; the record
  is cut short; the record is there and its newline is not; the line is there and the sync fails. Only the
  first is reported as success.\<close>

datatype append_outcome = Appended | NotAppended | Torn | Unterminated | Unsynced

text \<open>How a replacement ends: the new file is in place and synced; the old file is in place; the new file is in
  place, and an error of the directory sync is reported.\<close>

datatype replace_outcome = Replaced | NotReplaced | DurabilityUncertain

record policy_view =
  vw_grants :: "(string \<times> permission_grant) list"
  vw_requests :: "(string \<times> permission_request) list"
  vw_proofs :: "(string \<times> authority_proof) list"
  vw_consumed :: "string set"
  vw_audit :: "(string \<times> grant_audit) list"

record policy_store =
  as_manifest :: manifest
  as_view :: policy_view
  as_last_sequence :: nat
  as_head_hash :: string
  as_files :: store_files
  as_ticks :: nat
  as_writes :: nat

record store_env =
  se_api :: ura_api
  se_rfc :: rfc3339
  se_now :: "nat \<Rightarrow> instant"
  se_fmt_millis :: "instant \<Rightarrow> string"
  se_fmt_secs :: "instant \<Rightarrow> string"
  se_sha256_value :: "hashed \<Rightarrow> string"
  se_append :: "nat \<Rightarrow> append_outcome"
  se_replace :: "nat \<Rightarrow> replace_outcome"

definition STORE_FORMAT :: string where "STORE_FORMAT = ''easynet-rfc014-policy-store-v0''"
definition RECORD_PROFILE :: string where "RECORD_PROFILE = ''canonical-json-v0''"
definition SCHEMA_VERSION :: nat where "SCHEMA_VERSION = 1"
definition ZERO_HASH :: string where
  "ZERO_HASH = ''sha256:0000000000000000000000000000000000000000000000000000000000000000''"

section \<open>Errors\<close>

datatype grant_fault =
    MissingGrantFields | BroadPattern string | UnenforceableConstraints | TtlNeedsExpiry | SessionNeedsId
  | SessionIdNotCanonical | SessionNeedsExpiry | SessionExpiresTooEarly | SessionFieldsUnexpected | OnceAlreadyUsed

datatype request_fault =
    EmptyRequestField | NoRequestedLifetimes | RequestUnbound | RequestExpiresTooEarly | InitialNotPending
  | RemainsPending | RequestTerminal request_status request_status | ApprovalWithoutAuthority
  | ApprovalWithTwoAuthorities | AuthorityWithoutApproval | TerminalWithoutResolver

datatype authority_fault =
    OwnerDiffers | PrincipalDiffers | GrantNotActiveAllow | ActionNotGranted | ScopeDiffers
  | ProofForOtherRequest | BindingDiffers | NonceDiffers | CanonicalHashDiffers | InvocationUnbound

datatype journal_fault =
    DuplicateSequence nat | JournalOwnerMismatch | RecordHashMismatch nat | ChainMismatch nat
  | RevokedReactivated string | ConsumedBeforeCreation string | RecreatedAfterConsumption string
  | UnsupportedOperation | PayloadMismatch | CheckpointSequence | UnreadableRecord

datatype usage_fault =
    GrantExists | GrantNotFound | GrantNotOwned | OnceNotActive | NotPendingRequest | NotApprovedRequest
  | ReferenceConflict | ProofExists | ProofAlreadyConsumed | ProofNotFound | ProofNotOneTime

datatype store_error =
    Inadmissible string
  | NotRfc3339 string
  | GrantFault grant_fault
  | RequestFault request_fault
  | AuthorityFault authority_fault
  | UsageFault usage_fault
  | JournalFault journal_fault
  | RetentionTooShort string
  | UnsupportedManifest
  | ManifestOwnerMismatch
  | WriteFailed

section \<open>Files and clock\<close>

text \<open>Operations on the store return a result and the store as they leave it, also when they fail.\<close>

type_synonym 'a store_result = "(store_error + 'a) \<times> policy_store"

definition store_bind :: "'a store_result \<Rightarrow> ('a \<Rightarrow> policy_store \<Rightarrow> 'b store_result) \<Rightarrow> 'b store_result" where
  "store_bind r f = (case r of (Inl e, st) \<Rightarrow> (Inl e, st) | (Inr x, st) \<Rightarrow> f x st)"

lemma store_bind_simps [simp]:
  "store_bind (Inl e, st) f = (Inl e, st)"
  "store_bind (Inr x, st) f = f x st"
  by (simp_all add: store_bind_def)

definition now_instant :: "store_env \<Rightarrow> policy_store \<Rightarrow> instant \<times> policy_store" where
  "now_instant env st = (se_now env (as_ticks st), st\<lparr>as_ticks := as_ticks st + 1\<rparr>)"

definition now_rfc3339 :: "store_env \<Rightarrow> policy_store \<Rightarrow> string \<times> policy_store" where
  "now_rfc3339 env st = (case now_instant env st of (t, st) \<Rightarrow> (se_fmt_millis env t, st))"

definition write_file ::
  "'o \<Rightarrow> 'o \<Rightarrow> ('o \<Rightarrow> store_files \<Rightarrow> store_files) \<Rightarrow> policy_store \<Rightarrow> unit store_result" where
  "write_file success outcome f st =
     (if outcome = success then Inr () else Inl WriteFailed,
      st\<lparr>as_writes := as_writes st + 1, as_files := f outcome (as_files st)\<rparr>)"

definition put_manifest :: "manifest \<Rightarrow> replace_outcome \<Rightarrow> store_files \<Rightarrow> store_files" where
  "put_manifest m outcome fs = (if outcome = NotReplaced then fs else fs\<lparr>fl_manifest := Some m\<rparr>)"

definition write_manifest :: "store_env \<Rightarrow> policy_store \<Rightarrow> unit store_result" where
  "write_manifest env st = write_file Replaced (se_replace env (as_writes st)) (put_manifest (as_manifest st)) st"

text \<open>Bytes that follow an unfinished line become part of it, and the line is then no record.\<close>

definition add_line :: "journal_line \<Rightarrow> bool \<Rightarrow> journal_file \<Rightarrow> journal_file" where
  "add_line l ended f =
     (if jf_ended f then \<lparr>jf_lines = jf_lines f @ [l], jf_ended = ended\<rparr>
      else \<lparr>jf_lines = butlast (jf_lines f) @ [Garbled], jf_ended = ended\<rparr>)"

definition append_line :: "journal_record \<Rightarrow> append_outcome \<Rightarrow> journal_file \<Rightarrow> journal_file" where
  "append_line r outcome =
     (case outcome of
        Appended \<Rightarrow> add_line (Readable r) True
      | NotAppended \<Rightarrow> (\<lambda>f. f)
      | Torn \<Rightarrow> add_line Garbled False
      | Unterminated \<Rightarrow> add_line (Readable r) False
      | Unsynced \<Rightarrow> add_line (Readable r) True)"

definition add_record :: "record_kind \<Rightarrow> journal_record \<Rightarrow> append_outcome \<Rightarrow> store_files \<Rightarrow> store_files" where
  "add_record kind r outcome =
     (case kind of
        RkGrant \<Rightarrow> fl_grants_update (append_line r outcome)
      | RkRequest \<Rightarrow> fl_requests_update (append_line r outcome)
      | RkProof \<Rightarrow> fl_proofs_update (append_line r outcome)
      | RkAudit \<Rightarrow> fl_audit_update (append_line r outcome)
      | RkCheckpoint \<Rightarrow> fl_audit_update (append_line r outcome))"

definition append_jsonl :: "store_env \<Rightarrow> record_kind \<Rightarrow> journal_record \<Rightarrow> policy_store \<Rightarrow> unit store_result" where
  "append_jsonl env kind r st = write_file Appended (se_append env (as_writes st)) (add_record kind r) st"

section \<open>Identity checks\<close>

definition validate_runtime_identity_ura :: "ura_api \<Rightarrow> string \<Rightarrow> string \<Rightarrow> store_error + unit" where
  "validate_runtime_identity_ura api v field =
     (case runtime_identity_parse api v of
        Inl _ \<Rightarrow> Inl (Inadmissible field)
      | Inr r \<Rightarrow> ensure (ri_ura r = v) (Inadmissible field))"

definition validate_nonzero_user_id :: "string \<Rightarrow> string \<Rightarrow> store_error + unit" where
  "validate_nonzero_user_id v field =
     ensure (\<not> (is_all_zero_principal_id v \<or> contains_all_zero_principal_placeholder v)) (Inadmissible field)"

definition validate_user_principal_ura :: "ura_api \<Rightarrow> string \<Rightarrow> string \<Rightarrow> store_error + unit" where
  "validate_user_principal_ura api v field =
     and_then (validate_nonzero_user_id v field) (\<lambda>_.
     and_then (validate_runtime_identity_ura api v field) (\<lambda>_.
     case parse_ura api v of
       Inl _ \<Rightarrow> Inl (Inadmissible field)
     | Inr p \<Rightarrow> ensure (up_kind p = KUser \<and> up_user_id p \<noteq> None) (Inadmissible field)))"

definition validate_principal_id_for_kind ::
  "ura_api \<Rightarrow> principal_kind \<Rightarrow> string \<Rightarrow> string \<Rightarrow> store_error + unit" where
  "validate_principal_id_for_kind api kind v field =
     (case kind of
        PkUser \<Rightarrow> validate_user_principal_ura api v field
      | PkAgent \<Rightarrow>
          (case parse_ura api v of
             Inl _ \<Rightarrow> Inl (Inadmissible field)
           | Inr p \<Rightarrow> ensure (up_kind p = KAgent) (Inadmissible field))
      | _ \<Rightarrow> Inr ())"

definition validate_authority_proof_identity :: "ura_api \<Rightarrow> authority_proof \<Rightarrow> store_error + unit" where
  "validate_authority_proof_identity api p = map_error Inadmissible (validate_identity_contract api p)"

definition validate_manifest :: "ura_api \<Rightarrow> manifest \<Rightarrow> string \<Rightarrow> store_error + unit" where
  "validate_manifest api m owner_ura =
     and_then (validate_user_principal_ura api owner_ura ''requested policy store owner_user_id'') (\<lambda>_.
     and_then (validate_user_principal_ura api (mn_owner_user_ura m) ''manifest policy store owner_user_id'') (\<lambda>_.
     and_then (ensure (mn_format m = STORE_FORMAT \<and> mn_schema_version m = SCHEMA_VERSION \<and>
                       mn_record_profile m = RECORD_PROFILE \<and> mn_hash_algorithm m = ''sha256'')
                 UnsupportedManifest) (\<lambda>_.
     ensure (mn_owner_user_ura m = owner_ura) ManifestOwnerMismatch)))"

section \<open>Checking grants\<close>

definition rfc_or_absent :: "rfc3339 \<Rightarrow> string option \<Rightarrow> string \<Rightarrow> store_error + unit" where
  "rfc_or_absent rfc v field =
     ensure (case v of None \<Rightarrow> True | Some raw \<Rightarrow> rfc raw \<noteq> None) (NotRfc3339 field)"

definition BROAD_PATTERNS :: "string list" where
  "BROAD_PATTERNS = [''*'', ''device.*'', ''manage.*'', ''identity.*'', ''authority.*'', ''policy.*'']"

definition reject_broad_pattern :: "string option \<Rightarrow> store_error + unit" where
  "reject_broad_pattern pattern =
     (case pattern of
        None \<Rightarrow> Inr ()
      | Some p \<Rightarrow> ensure (trim p \<notin> set BROAD_PATTERNS) (GrantFault (BroadPattern (trim p))))"

definition reject_unenforceable_constraints :: "permission_constraints option \<Rightarrow> store_error + unit" where
  "reject_unenforceable_constraints constraints =
     (case constraints of
        None \<Rightarrow> Inr ()
      | Some c \<Rightarrow>
          ensure (pc_args_schema_filter c = None \<and> pc_max_duration_ms c = None \<and> pc_max_invocations c = None \<and>
                  pc_requires_user_present c = None \<and> pc_resource_types c = []) (GrantFault UnenforceableConstraints))"

definition validate_session_fields :: "rfc3339 \<Rightarrow> permission_grant \<Rightarrow> instant \<Rightarrow> store_error + unit" where
  "validate_session_fields rfc g created_at =
     (if pg_lifetime g = GlSession then
        (case nonblank (pg_session_id g) of
           None \<Rightarrow> Inl (GrantFault SessionNeedsId)
         | Some sid \<Rightarrow>
             and_then (ensure (is_canonical_session_authority_id sid) (GrantFault SessionIdNotCanonical)) (\<lambda>_.
             case nonblank (pg_session_expires_at g) of
               None \<Rightarrow> Inl (GrantFault SessionNeedsExpiry)
             | Some raw \<Rightarrow>
                 (case rfc raw of
                    None \<Rightarrow> Inl (NotRfc3339 ''session_expires_at'')
                  | Some t \<Rightarrow> ensure (created_at < t) (GrantFault SessionExpiresTooEarly))))
      else ensure (pg_session_id g = None \<and> pg_session_expires_at g = None) (GrantFault SessionFieldsUnexpected))"

definition placeholder_free :: "string option \<Rightarrow> string \<Rightarrow> store_error + unit" where
  "placeholder_free v field =
     ensure (case v of None \<Rightarrow> True | Some u \<Rightarrow> \<not> contains_all_zero_principal_placeholder u) (Inadmissible field)"

definition validate_grant_identity :: "store_env \<Rightarrow> permission_grant \<Rightarrow> store_error + unit" where
  "validate_grant_identity env g =
     and_then (ensure (trim (pg_grant_id g) \<noteq> [] \<and> trim (pg_owner_user_ura g) \<noteq> [] \<and> trim (pg_principal_id g) \<noteq> [] \<and>
                       pg_actions g \<noteq> [] \<and> trim (pg_created_by g) \<noteq> [] \<and> trim (pg_created_at g) \<noteq> [])
                 (GrantFault MissingGrantFields)) (\<lambda>_.
     and_then (validate_user_principal_ura (se_api env) (pg_owner_user_ura g) ''PermissionGrant owner_user_id'') (\<lambda>_.
     and_then (validate_principal_id_for_kind (se_api env) (pg_principal_kind g) (pg_principal_id g)
                 ''PermissionGrant principal_id'') (\<lambda>_.
     and_then (validate_runtime_identity_ura (se_api env) (pg_created_by g) ''PermissionGrant created_by'') (\<lambda>_.
     and_then (placeholder_free (pg_callee_ura g) ''PermissionGrant callee_ura'') (\<lambda>_.
     and_then (placeholder_free (pg_subject_ura_pattern g) ''PermissionGrant subject_ura_pattern'') (\<lambda>_.
     and_then (reject_broad_pattern (pg_ability_ura_pattern g)) (\<lambda>_.
     reject_unenforceable_constraints (pg_constraints g))))))))"

definition validate_grant_lifetime :: "store_env \<Rightarrow> permission_grant \<Rightarrow> store_error + unit" where
  "validate_grant_lifetime env g =
     (case se_rfc env (pg_created_at g) of
        None \<Rightarrow> Inl (NotRfc3339 ''created_at'')
      | Some created_at \<Rightarrow>
          and_then (rfc_or_absent (se_rfc env) (pg_expires_at g) ''expires_at'') (\<lambda>_.
          and_then (ensure (\<not> (pg_lifetime g = GlTtl \<and> pg_expires_at g = None)) (GrantFault TtlNeedsExpiry)) (\<lambda>_.
          and_then (validate_session_fields (se_rfc env) g created_at) (\<lambda>_.
          and_then (ensure (\<not> (pg_lifetime g = GlOnce \<and> pg_last_used_at g \<noteq> None \<and> pg_state g = GsActive))
                      (GrantFault OnceAlreadyUsed)) (\<lambda>_.
          and_then (rfc_or_absent (se_rfc env) (pg_review_required_after g) ''review_required_after'') (\<lambda>_.
          and_then (rfc_or_absent (se_rfc env) (pg_last_reviewed_at g) ''last_reviewed_at'') (\<lambda>_.
          rfc_or_absent (se_rfc env) (pg_last_used_at g) ''last_used_at'')))))))"

definition validate_grant :: "store_env \<Rightarrow> permission_grant \<Rightarrow> store_error + unit" where
  "validate_grant env g = and_then (validate_grant_identity env g) (\<lambda>_. validate_grant_lifetime env g)"

definition normalize_grant_for_create :: "store_env \<Rightarrow> permission_grant \<Rightarrow> store_error + permission_grant" where
  "normalize_grant_for_create env g =
     (let g = g\<lparr>pg_state := GsActive\<rparr> in
      if pg_effect g = EffAllow \<and> pg_lifetime g = GlPermanent \<and> pg_review_required_after g = None \<and>
         list_ex (\<lambda>a. a = AStream \<or> a = AManage \<or> a = AGrant) (pg_actions g)
      then
        (case default_reconfirmation_deadline (se_rfc env) g of
           None \<Rightarrow> Inl (NotRfc3339 ''created_at'')
         | Some deadline \<Rightarrow> Inr (g\<lparr>pg_review_required_after := Some (se_fmt_secs env deadline)\<rparr>))
      else Inr g)"

definition grant_hash :: "store_env \<Rightarrow> permission_grant \<Rightarrow> string" where
  "grant_hash env g = se_sha256_value env (HGrant g)"

definition grant_idempotency_key :: "store_env \<Rightarrow> permission_grant \<Rightarrow> string" where
  "grant_idempotency_key env g =
     se_sha256_value env (HGrantKey
       \<lparr>gk_owner_user_ura = pg_owner_user_ura g, gk_principal_kind = pg_principal_kind g,
        gk_principal_id = pg_principal_id g, gk_token_id = pg_token_id g, gk_callee_ura = pg_callee_ura g,
        gk_subject_ura_pattern = pg_subject_ura_pattern g, gk_ability_ura_pattern = pg_ability_ura_pattern g,
        gk_actions = pg_actions g, gk_constraints = pg_constraints g, gk_effect = pg_effect g,
        gk_lifetime = pg_lifetime g, gk_expires_at = pg_expires_at g, gk_created_by = pg_created_by g\<rparr>)"

section \<open>Checking requests\<close>

definition permission_request_idempotency_key :: "store_env \<Rightarrow> permission_request \<Rightarrow> string" where
  "permission_request_idempotency_key env q =
     se_sha256_value env (HRequestKey
       \<lparr>rk_owner_user_ura = pr_owner_user_ura q, rk_principal_id = pr_principal_id q, rk_token_id = pr_token_id q,
        rk_callee_ura = pr_callee_ura q, rk_subject_ura = pr_subject_ura q, rk_ability_ura = pr_ability_ura q,
        rk_action = pr_action q, rk_canonical_hash = pr_canonical_hash q, rk_nonce = pr_nonce q\<rparr>)"

definition request_transition_operation ::
  "permission_request option \<Rightarrow> permission_request \<Rightarrow> store_error + record_operation" where
  "request_transition_operation previous q =
     (case previous of
        None \<Rightarrow> if pr_status q = RqPending then Inr OpCreated else Inl (RequestFault InitialNotPending)
      | Some p \<Rightarrow>
          (if pr_status p = RqPending then
             (case pr_status q of
                RqApproved \<Rightarrow> Inr OpApproved
              | RqDenied \<Rightarrow> Inr OpDenied
              | RqExpired \<Rightarrow> Inr OpExpired
              | RqCancelled \<Rightarrow> Inr OpCancelled
              | RqPending \<Rightarrow> Inl (RequestFault RemainsPending))
           else Inl (RequestFault (RequestTerminal (pr_status p) (pr_status q)))))"

definition validate_request_timestamps :: "rfc3339 \<Rightarrow> permission_request \<Rightarrow> store_error + unit" where
  "validate_request_timestamps rfc q =
     (case rfc (pr_created_at q) of
        None \<Rightarrow> Inl (NotRfc3339 ''PermissionRequest created_at'')
      | Some created_at \<Rightarrow>
          (case rfc (pr_expires_at q) of
             None \<Rightarrow> Inl (NotRfc3339 ''PermissionRequest expires_at'')
           | Some expires_at \<Rightarrow>
               and_then (ensure (created_at < expires_at) (RequestFault RequestExpiresTooEarly)) (\<lambda>_.
               rfc_or_absent rfc (pr_resolved_at q) ''PermissionRequest resolved_at'')))"

definition validate_request_transition ::
  "store_env \<Rightarrow> permission_request option \<Rightarrow> permission_request \<Rightarrow> store_error + unit" where
  "validate_request_transition env previous q =
     and_then (ensure (trim (pr_request_id q) \<noteq> [] \<and> trim (pr_owner_user_ura q) \<noteq> [] \<and>
                       trim (pr_principal_id q) \<noteq> [] \<and> trim (pr_caller_ura q) \<noteq> [] \<and> trim (pr_callee_ura q) \<noteq> [] \<and>
                       trim (pr_subject_ura q) \<noteq> [] \<and> trim (pr_ability_ura q) \<noteq> [])
                 (RequestFault EmptyRequestField)) (\<lambda>_.
     and_then (validate_user_principal_ura (se_api env) (pr_owner_user_ura q) ''PermissionRequest owner_user_id'') (\<lambda>_.
     and_then (validate_principal_id_for_kind (se_api env) (pr_principal_kind q) (pr_principal_id q)
                 ''PermissionRequest principal_id'') (\<lambda>_.
     and_then (validate_runtime_identity_ura (se_api env) (pr_caller_ura q) ''PermissionRequest caller_ura'') (\<lambda>_.
     and_then (validate_runtime_identity_ura (se_api env) (pr_callee_ura q) ''PermissionRequest callee_ura'') (\<lambda>_.
     and_then (validate_runtime_identity_ura (se_api env) (pr_subject_ura q) ''PermissionRequest subject_ura'') (\<lambda>_.
     and_then (ensure (pr_requested_lifetimes q \<noteq> []) (RequestFault NoRequestedLifetimes)) (\<lambda>_.
     and_then (ensure (nonblank (pr_nonce q) \<noteq> None \<or> nonblank (pr_canonical_hash q) \<noteq> None)
                 (RequestFault RequestUnbound)) (\<lambda>_.
     and_then (validate_request_timestamps (se_rfc env) q) (\<lambda>_.
     and_then (request_transition_operation previous q) (\<lambda>_.
     and_then (ensure (\<not> (pr_status q = RqApproved \<and> pr_created_grant_id q = None \<and> pr_authority_proof_id q = None))
                 (RequestFault ApprovalWithoutAuthority)) (\<lambda>_.
     and_then (ensure (\<not> (pr_created_grant_id q \<noteq> None \<and> pr_authority_proof_id q \<noteq> None))
                 (RequestFault ApprovalWithTwoAuthorities)) (\<lambda>_.
     and_then (ensure (\<not> (pr_status q \<noteq> RqApproved \<and>
                          (pr_created_grant_id q \<noteq> None \<or> pr_authority_proof_id q \<noteq> None)))
                 (RequestFault AuthorityWithoutApproval)) (\<lambda>_.
     ensure (\<not> (status_is_terminal (pr_status q) \<and>
                (nonblank (pr_resolver_ura q) = None \<or> nonblank (pr_resolved_at q) = None)))
       (RequestFault TerminalWithoutResolver))))))))))))))"

definition normalize_terminal_resolution_fields ::
  "store_env \<Rightarrow> permission_request \<Rightarrow> string \<Rightarrow> policy_store \<Rightarrow> permission_request \<times> policy_store" where
  "normalize_terminal_resolution_fields env q actor st =
     (let q = (if pr_resolver_ura q = None \<or> pr_resolver_ura q = Some [] then q\<lparr>pr_resolver_ura := Some actor\<rparr> else q) in
      if pr_resolved_at q = None \<or> pr_resolved_at q = Some [] then
        (case now_rfc3339 env st of (now, st) \<Rightarrow> (q\<lparr>pr_resolved_at := Some now\<rparr>, st))
      else (q, st))"

section \<open>Authority behind an approval\<close>

definition validate_grant_resolves_request :: "permission_grant \<Rightarrow> permission_request \<Rightarrow> store_error + unit" where
  "validate_grant_resolves_request g q =
     and_then (ensure (pg_owner_user_ura g = pr_owner_user_ura q) (AuthorityFault OwnerDiffers)) (\<lambda>_.
     and_then (ensure (pg_principal_kind g = pr_principal_kind q \<and> pg_principal_id g = pr_principal_id q \<and>
                       pg_token_id g = pr_token_id q) (AuthorityFault PrincipalDiffers)) (\<lambda>_.
     and_then (ensure (pg_effect g = EffAllow \<and> pg_state g = GsActive) (AuthorityFault GrantNotActiveAllow)) (\<lambda>_.
     and_then (ensure (pr_action q \<in> set (pg_actions g)) (AuthorityFault ActionNotGranted)) (\<lambda>_.
     ensure (pg_callee_ura g = Some (pr_callee_ura q) \<and> pg_subject_ura_pattern g = Some (pr_subject_ura q) \<and>
             pg_ability_ura_pattern g = Some (pr_ability_ura q)) (AuthorityFault ScopeDiffers)))))"

definition proof_binds_permission_request_invocation :: "authority_proof \<Rightarrow> permission_request \<Rightarrow> bool" where
  "proof_binds_permission_request_invocation p q \<longleftrightarrow>
     nonblank (ap_nonce p) \<noteq> None \<and> nonblank (ap_nonce p) = pr_nonce q \<or>
     nonblank (ap_canonical_hash p) \<noteq> None \<and> nonblank (ap_canonical_hash p) = pr_canonical_hash q"

definition validate_proof_resolves_request ::
  "rfc3339 \<Rightarrow> authority_proof \<Rightarrow> permission_request \<Rightarrow> store_error + unit" where
  "validate_proof_resolves_request rfc p q =
     and_then (ensure (ap_permission_request_id p = Some (pr_request_id q)) (AuthorityFault ProofForOtherRequest)) (\<lambda>_.
     and_then (ensure (ap_owner_user_ura p = pr_owner_user_ura q \<and> ap_principal_kind p = pr_principal_kind q \<and>
                       ap_principal_id p = pr_principal_id q \<and> ap_token_id p = pr_token_id q \<and>
                       ap_callee_ura p = pr_callee_ura q \<and> ap_subject_ura p = pr_subject_ura q \<and>
                       ap_ability_ura p = pr_ability_ura q \<and> ap_action p = pr_action q)
                 (AuthorityFault BindingDiffers)) (\<lambda>_.
     and_then (ensure (ap_nonce p = None \<or> ap_nonce p = pr_nonce q) (AuthorityFault NonceDiffers)) (\<lambda>_.
     and_then (ensure (ap_canonical_hash p = None \<or> ap_canonical_hash p = pr_canonical_hash q)
                 (AuthorityFault CanonicalHashDiffers)) (\<lambda>_.
     and_then (ensure (proof_binds_permission_request_invocation p q) (AuthorityFault InvocationUnbound)) (\<lambda>_.
     ensure (rfc (ap_expires_at p) \<noteq> None) (NotRfc3339 ''authority proof expires_at''))))))"

definition validate_resolution_authority ::
  "store_env \<Rightarrow> policy_view \<Rightarrow> permission_request \<Rightarrow> store_error + unit" where
  "validate_resolution_authority env vw q =
     (if pr_status q \<noteq> RqApproved then Inr ()
      else
        (case (pr_created_grant_id q, pr_authority_proof_id q) of
           (Some gid, None) \<Rightarrow>
             (case map_of (vw_grants vw) gid of
                None \<Rightarrow> Inl (UsageFault GrantNotFound)
              | Some g \<Rightarrow> validate_grant_resolves_request g q)
         | (None, Some pid) \<Rightarrow>
             (case map_of (vw_proofs vw) pid of
                None \<Rightarrow> Inl (UsageFault ProofNotFound)
              | Some p \<Rightarrow> validate_proof_resolves_request (se_rfc env) p q)
         | (None, None) \<Rightarrow> Inl (RequestFault ApprovalWithoutAuthority)
         | (Some _, Some _) \<Rightarrow> Inl (RequestFault ApprovalWithTwoAuthorities)))"

definition validate_all_resolution_authorities :: "store_env \<Rightarrow> policy_view \<Rightarrow> store_error + unit" where
  "validate_all_resolution_authorities env vw =
     and_then (try_map (\<lambda>(_, q). validate_resolution_authority env vw q) (vw_requests vw)) (\<lambda>_. Inr ())"

definition is_one_time_authority_proof :: "authority_proof \<Rightarrow> bool" where
  "is_one_time_authority_proof p \<longleftrightarrow>
     ap_permission_request_id p \<noteq> None \<and> ap_grant_id p = None \<and> ap_session_id p = None"

section \<open>Audit and retention\<close>

definition audit_record ::
  "store_env \<Rightarrow> permission_grant \<Rightarrow> grant_mutation \<Rightarrow> string \<Rightarrow> string \<Rightarrow> string \<Rightarrow> policy_store \<Rightarrow>
     grant_audit \<times> policy_store" where
  "audit_record env g mutation actor previous_hash new_hash st =
     (let hashed =
            \<lparr>ga_audit_record_id = [], ga_grant_id = pg_grant_id g, ga_mutation = mutation,
             ga_owner_user_ura = pg_owner_user_ura g, ga_principal_id = pg_principal_id g, ga_token_id = pg_token_id g,
             ga_actions = pg_actions g, ga_ability_ura_pattern = pg_ability_ura_pattern g,
             ga_subject_ura_pattern = pg_subject_ura_pattern g, ga_effect = pg_effect g, ga_actor_ura = actor,
             ga_timestamp = [], ga_reason = None, ga_previous_grant_hash = previous_hash,
             ga_new_grant_hash = new_hash\<rparr>
      in case now_rfc3339 env st of (now, st) \<Rightarrow>
         (hashed\<lparr>ga_audit_record_id := se_sha256_value env (HAudit hashed), ga_timestamp := now,
                 ga_reason := pg_reason g\<rparr>, st))"

definition default_compaction_policy :: compaction_policy where
  "default_compaction_policy =
     \<lparr>cp_grant_mutation_days = 365, cp_prompt_days = 180, cp_denied_admission_days = 90, cp_nested_trace_days = 30,
      cp_redacted_projection_days = 180\<rparr>"

definition validate_compaction_policy :: "compaction_policy \<Rightarrow> store_error + unit" where
  "validate_compaction_policy p =
     and_then (ensure (cp_grant_mutation_days p \<ge> 365) (RetentionTooShort ''grant mutation audit'')) (\<lambda>_.
     and_then (ensure (cp_prompt_days p \<ge> 180) (RetentionTooShort ''prompt audit'')) (\<lambda>_.
     and_then (ensure (cp_denied_admission_days p \<ge> 90) (RetentionTooShort ''denied admission diagnostics'')) (\<lambda>_.
     and_then (ensure (cp_nested_trace_days p \<ge> 30) (RetentionTooShort ''complete nested trace'')) (\<lambda>_.
     ensure (cp_redacted_projection_days p \<ge> 180) (RetentionTooShort ''redacted projection'')))))"

definition pending_request_unexpired_at :: "rfc3339 \<Rightarrow> permission_request \<Rightarrow> instant \<Rightarrow> bool" where
  "pending_request_unexpired_at rfc q now \<longleftrightarrow>
     pr_status q = RqPending \<and> (case rfc (pr_expires_at q) of Some t \<Rightarrow> t > now | None \<Rightarrow> False)"

definition authority_proof_unexpired_at :: "rfc3339 \<Rightarrow> authority_proof \<Rightarrow> instant \<Rightarrow> bool" where
  "authority_proof_unexpired_at rfc p now \<longleftrightarrow>
     (case rfc (ap_expires_at p) of Some t \<Rightarrow> t > now | None \<Rightarrow> False)"

end
