(* ===== verification/AccessJournal.thy ===== *)
theory AccessJournal
  imports AccessStore
begin

text \<open>
  The operations of the policy store and its replay (\<open>AccessControlStore\<close> in
  \<open>src/daemon/persistence/access_control.rs\<close>). Every mutation appends hash-chained records and then updates
  the maps; opening a store reads the four journal files, orders the records by sequence and applies them.
\<close>

section \<open>Appending\<close>

definition compute_record_hash :: "store_env \<Rightarrow> journal_record \<Rightarrow> string" where
  "compute_record_hash env r = se_sha256_value env (HRecord (r\<lparr>jr_record_hash := []\<rparr>))"

definition append_record ::
  "store_env \<Rightarrow> record_kind \<Rightarrow> string \<Rightarrow> record_operation \<Rightarrow> payload \<Rightarrow> string \<Rightarrow> policy_store \<Rightarrow> unit store_result" where
  "append_record env kind record_id operation body actor st =
     (case validate_runtime_identity_ura (se_api env) actor ''policy journal actor_ura'' of
        Inl e \<Rightarrow> (Inl e, st)
      | Inr _ \<Rightarrow>
          let st = st\<lparr>as_last_sequence := as_last_sequence st + 1\<rparr> in
          case now_rfc3339 env st of (now, st) \<Rightarrow>
          let r = \<lparr>jr_kind = kind, jr_schema_version = SCHEMA_VERSION, jr_sequence = as_last_sequence st,
                   jr_owner_user_ura = mn_owner_user_ura (as_manifest st), jr_record_id = record_id,
                   jr_operation = operation, jr_payload = body, jr_previous_record_hash = as_head_hash st,
                   jr_record_hash = [], jr_created_at = now, jr_actor_ura = actor\<rparr>;
              r = r\<lparr>jr_record_hash := compute_record_hash env r\<rparr>
          in store_bind (append_jsonl env kind r st) (\<lambda>_ st.
             write_manifest env
               (st\<lparr>as_head_hash := jr_record_hash r,
                   as_manifest := (as_manifest st)\<lparr>mn_head_hash := jr_record_hash r\<rparr>\<rparr>)))"

section \<open>Grants\<close>

record grant_result =
  gr_grant :: permission_grant
  gr_idempotent_replay :: bool
  gr_audit_record_id :: string

definition put_grant :: "permission_grant \<Rightarrow> policy_view \<Rightarrow> policy_view" where
  "put_grant g vw = vw\<lparr>vw_grants := btree_insert (pg_grant_id g) g (vw_grants vw)\<rparr>"

definition put_audit :: "grant_audit \<Rightarrow> policy_view \<Rightarrow> policy_view" where
  "put_audit a vw = vw\<lparr>vw_audit := btree_insert (ga_audit_record_id a) a (vw_audit vw)\<rparr>"

definition put_request :: "permission_request \<Rightarrow> policy_view \<Rightarrow> policy_view" where
  "put_request q vw = vw\<lparr>vw_requests := btree_insert (pr_request_id q) q (vw_requests vw)\<rparr>"

definition put_proof :: "authority_proof \<Rightarrow> policy_view \<Rightarrow> policy_view" where
  "put_proof p vw = vw\<lparr>vw_proofs := btree_insert (ap_proof_id p) p (vw_proofs vw)\<rparr>"

definition mark_consumed :: "string \<Rightarrow> policy_view \<Rightarrow> policy_view" where
  "mark_consumed pid vw = vw\<lparr>vw_consumed := insert pid (vw_consumed vw)\<rparr>"

definition find_equivalent :: "store_env \<Rightarrow> permission_grant \<Rightarrow> policy_view \<Rightarrow> permission_grant option" where
  "find_equivalent env g vw =
     find (\<lambda>e. pg_state e = GsActive \<and> grant_idempotency_key env e = grant_idempotency_key env g)
       (map snd (vw_grants vw))"

text \<open>A change of a grant is journaled together with its audit record.\<close>

definition commit_grant ::
  "store_env \<Rightarrow> permission_grant \<Rightarrow> grant_audit \<Rightarrow> record_operation \<Rightarrow> string \<Rightarrow> policy_store \<Rightarrow> unit store_result" where
  "commit_grant env g audit operation actor st =
     store_bind (append_record env RkGrant (pg_grant_id g) operation (PGrant g) actor st) (\<lambda>_ st.
     store_bind (append_record env RkAudit (ga_audit_record_id audit) operation (PAudit audit) actor st) (\<lambda>_ st.
     (Inr (), st\<lparr>as_view := put_audit audit (put_grant g (as_view st))\<rparr>)))"

definition create_grant :: "store_env \<Rightarrow> permission_grant \<Rightarrow> string \<Rightarrow> policy_store \<Rightarrow> grant_result store_result" where
  "create_grant env g actor st =
     store_bind (normalize_grant_for_create env g, st) (\<lambda>g st.
     store_bind (validate_grant env g, st) (\<lambda>_ st.
     let g = g\<lparr>pg_state := GsActive\<rparr> in
     case find_equivalent env g (as_view st) of
       Some existing \<Rightarrow>
         (Inr \<lparr>gr_grant = existing, gr_idempotent_replay = True,
               gr_audit_record_id = ''audit-idempotent-'' @ pg_grant_id existing\<rparr>, st)
     | None \<Rightarrow>
         (if map_of (vw_grants (as_view st)) (pg_grant_id g) \<noteq> None then (Inl (UsageFault GrantExists), st)
          else
            case audit_record env g MutCreated actor ZERO_HASH (grant_hash env g) st of (audit, st) \<Rightarrow>
            store_bind (commit_grant env g audit OpCreated actor st) (\<lambda>_ st.
            (Inr \<lparr>gr_grant = g, gr_idempotent_replay = False, gr_audit_record_id = ga_audit_record_id audit\<rparr>, st)))))"

definition revoke_grant ::
  "store_env \<Rightarrow> string \<Rightarrow> string \<Rightarrow> string \<Rightarrow> string option \<Rightarrow> policy_store \<Rightarrow> permission_grant store_result" where
  "revoke_grant env gid owner_ura actor reason st =
     (case map_of (vw_grants (as_view st)) gid of
        None \<Rightarrow> (Inl (UsageFault GrantNotFound), st)
      | Some existing \<Rightarrow>
          (if pg_owner_user_ura existing \<noteq> owner_ura then (Inl (UsageFault GrantNotOwned), st)
           else if pg_state existing = GsRevoked then (Inr existing, st)
           else
             case now_rfc3339 env st of (now, st) \<Rightarrow>
             let revoked = existing\<lparr>pg_state := GsRevoked, pg_revoked_at := Some now, pg_updated_at := Some now,
                                    pg_reason := reason\<rparr>
             in case audit_record env revoked MutRevoked actor (grant_hash env existing) (grant_hash env revoked) st of
                  (audit, st) \<Rightarrow>
                  store_bind (commit_grant env revoked audit OpRevoked actor st) (\<lambda>_ st. (Inr revoked, st))))"

definition consume_once_grant_if_applicable ::
  "store_env \<Rightarrow> string \<Rightarrow> string \<Rightarrow> policy_store \<Rightarrow> permission_grant option store_result" where
  "consume_once_grant_if_applicable env gid actor st =
     (case map_of (vw_grants (as_view st)) gid of
        None \<Rightarrow> (Inl (UsageFault GrantNotFound), st)
      | Some existing \<Rightarrow>
          (if pg_lifetime existing \<noteq> GlOnce then (Inr None, st)
           else if pg_state existing \<noteq> GsActive \<or> pg_last_used_at existing \<noteq> None then
             (Inl (UsageFault OnceNotActive), st)
           else
             case now_rfc3339 env st of (now, st) \<Rightarrow>
             let consumed = existing\<lparr>pg_state := GsExpired, pg_last_used_at := Some now, pg_updated_at := Some now\<rparr>
             in case audit_record env consumed MutConsumed actor (grant_hash env existing) (grant_hash env consumed) st of
                  (audit, st) \<Rightarrow>
                  store_bind (commit_grant env consumed audit OpConsumed actor st) (\<lambda>_ st. (Inr (Some consumed), st))))"

section \<open>Permission requests\<close>

definition upsert_permission_request ::
  "store_env \<Rightarrow> permission_request \<Rightarrow> string \<Rightarrow> policy_store \<Rightarrow> permission_request store_result" where
  "upsert_permission_request env q actor st =
     store_bind (ensure (pr_status q = RqPending) (UsageFault NotPendingRequest), st) (\<lambda>_ st.
     store_bind (validate_request_transition env None q, st) (\<lambda>_ st.
     case find (\<lambda>e. pr_status e = RqPending \<and>
                  permission_request_idempotency_key env e = permission_request_idempotency_key env q)
            (map snd (vw_requests (as_view st))) of
       Some existing \<Rightarrow> (Inr existing, st)
     | None \<Rightarrow>
         store_bind (append_record env RkRequest (pr_request_id q) OpCreated (PRequest q) actor st) (\<lambda>_ st.
         (Inr q, st\<lparr>as_view := put_request q (as_view st)\<rparr>))))"

definition resolve_permission_request ::
  "store_env \<Rightarrow> permission_request \<Rightarrow> string \<Rightarrow> policy_store \<Rightarrow> permission_request store_result" where
  "resolve_permission_request env q actor st =
     (case (if status_is_terminal (pr_status q) then normalize_terminal_resolution_fields env q actor st else (q, st)) of
        (q, st) \<Rightarrow>
          let previous = map_of (vw_requests (as_view st)) (pr_request_id q) in
          store_bind (validate_request_transition env previous q, st) (\<lambda>_ st.
          store_bind (validate_resolution_authority env (as_view st) q, st) (\<lambda>_ st.
          store_bind (request_transition_operation previous q, st) (\<lambda>operation st.
          store_bind (append_record env RkRequest (pr_request_id q) operation (PRequest q) actor st) (\<lambda>_ st.
          (Inr q, st\<lparr>as_view := put_request q (as_view st)\<rparr>))))))"

record resolution_result =
  rr_request :: permission_request
  rr_created_grant :: "permission_grant option"
  rr_authority_proof :: "authority_proof option"
  rr_idempotent_replay :: bool

definition resolve_permission_request_with_grant ::
  "store_env \<Rightarrow> permission_request \<Rightarrow> permission_grant \<Rightarrow> string \<Rightarrow> policy_store \<Rightarrow> resolution_result store_result" where
  "resolve_permission_request_with_grant env q g actor st =
     store_bind (ensure (pr_status q = RqApproved) (UsageFault NotApprovedRequest), st) (\<lambda>_ st.
     store_bind (normalize_grant_for_create env g, st) (\<lambda>g st.
     store_bind (validate_grant_resolves_request g q, st) (\<lambda>_ st.
     store_bind (ensure (pr_authority_proof_id q = None) (UsageFault ReferenceConflict), st) (\<lambda>_ st.
     store_bind (ensure (pr_created_grant_id q = None \<or> pr_created_grant_id q = Some (pg_grant_id g))
                   (UsageFault ReferenceConflict), st) (\<lambda>_ st.
     case normalize_terminal_resolution_fields env
            (q\<lparr>pr_created_grant_id := Some (pg_grant_id g), pr_authority_proof_id := None\<rparr>) actor st of
       (q, st) \<Rightarrow>
         let previous = map_of (vw_requests (as_view st)) (pr_request_id q) in
         store_bind (validate_request_transition env previous q, st) (\<lambda>_ st.
         store_bind (validate_grant env g, st) (\<lambda>_ st.
         case find_equivalent env g (as_view st) of
           Some existing \<Rightarrow>
             store_bind (ensure (pr_created_grant_id q = Some (pg_grant_id existing)) (UsageFault ReferenceConflict), st) (\<lambda>_ st.
             store_bind (request_transition_operation previous q, st) (\<lambda>operation st.
             store_bind (append_record env RkRequest (pr_request_id q) operation (PRequest q) actor st) (\<lambda>_ st.
             (Inr \<lparr>rr_request = q, rr_created_grant = Some existing, rr_authority_proof = None,
                   rr_idempotent_replay = True\<rparr>,
              st\<lparr>as_view := put_request q (as_view st)\<rparr>))))
         | None \<Rightarrow>
             (if map_of (vw_grants (as_view st)) (pg_grant_id g) \<noteq> None then (Inl (UsageFault GrantExists), st)
              else
                case audit_record env g MutCreated actor ZERO_HASH (grant_hash env g) st of (audit, st) \<Rightarrow>
                store_bind (request_transition_operation previous q, st) (\<lambda>operation st.
                store_bind (append_record env RkRequest (pr_request_id q) operation (PRequest q) actor st) (\<lambda>_ st.
                store_bind (append_record env RkGrant (pg_grant_id g) OpCreated (PGrant g) actor st) (\<lambda>_ st.
                store_bind (append_record env RkAudit (ga_audit_record_id audit) OpCreated (PAudit audit) actor st) (\<lambda>_ st.
                (Inr \<lparr>rr_request = q, rr_created_grant = Some g, rr_authority_proof = None,
                      rr_idempotent_replay = False\<rparr>,
                 st\<lparr>as_view := put_audit audit (put_grant g (put_request q (as_view st)))\<rparr>)))))))))))))"

definition resolve_permission_request_with_authority_proof ::
  "store_env \<Rightarrow> permission_request \<Rightarrow> authority_proof \<Rightarrow> string \<Rightarrow> policy_store \<Rightarrow> resolution_result store_result" where
  "resolve_permission_request_with_authority_proof env q p actor st =
     store_bind (ensure (pr_status q = RqApproved) (UsageFault NotApprovedRequest), st) (\<lambda>_ st.
     store_bind (validate_authority_proof_identity (se_api env) p, st) (\<lambda>_ st.
     store_bind (validate_proof_resolves_request (se_rfc env) p q, st) (\<lambda>_ st.
     store_bind (ensure (pr_created_grant_id q = None) (UsageFault ReferenceConflict), st) (\<lambda>_ st.
     store_bind (ensure (pr_authority_proof_id q = None \<or> pr_authority_proof_id q = Some (ap_proof_id p))
                   (UsageFault ReferenceConflict), st) (\<lambda>_ st.
     case normalize_terminal_resolution_fields env
            (q\<lparr>pr_created_grant_id := None, pr_authority_proof_id := Some (ap_proof_id p)\<rparr>) actor st of
       (q, st) \<Rightarrow>
         let previous = map_of (vw_requests (as_view st)) (pr_request_id q) in
         store_bind (validate_request_transition env previous q, st) (\<lambda>_ st.
         store_bind (ensure (map_of (vw_proofs (as_view st)) (ap_proof_id p) = None) (UsageFault ProofExists), st) (\<lambda>_ st.
         store_bind (ensure (ap_proof_id p \<notin> vw_consumed (as_view st)) (UsageFault ProofAlreadyConsumed), st) (\<lambda>_ st.
         store_bind (request_transition_operation previous q, st) (\<lambda>operation st.
         store_bind (append_record env RkRequest (pr_request_id q) operation (PRequest q) actor st) (\<lambda>_ st.
         store_bind (append_record env RkProof (ap_proof_id p) OpCreated (PProof p) actor st) (\<lambda>_ st.
         (Inr \<lparr>rr_request = q, rr_created_grant = None, rr_authority_proof = Some p, rr_idempotent_replay = False\<rparr>,
          st\<lparr>as_view := put_proof p (put_request q (as_view st))\<rparr>))))))))))))"

section \<open>Authority proofs\<close>

definition put_authority_proof ::
  "store_env \<Rightarrow> authority_proof \<Rightarrow> string \<Rightarrow> policy_store \<Rightarrow> authority_proof store_result" where
  "put_authority_proof env p actor st =
     store_bind (validate_authority_proof_identity (se_api env) p, st) (\<lambda>_ st.
     store_bind (ensure (map_of (vw_proofs (as_view st)) (ap_proof_id p) = None) (UsageFault ProofExists), st) (\<lambda>_ st.
     store_bind (ensure (ap_proof_id p \<notin> vw_consumed (as_view st)) (UsageFault ProofAlreadyConsumed), st) (\<lambda>_ st.
     store_bind (append_record env RkProof (ap_proof_id p) OpCreated (PProof p) actor st) (\<lambda>_ st.
     (Inr p, st\<lparr>as_view := put_proof p (as_view st)\<rparr>)))))"

definition consume_authority_proof_once ::
  "store_env \<Rightarrow> string \<Rightarrow> string \<Rightarrow> policy_store \<Rightarrow> authority_proof store_result" where
  "consume_authority_proof_once env pid actor st =
     (case map_of (vw_proofs (as_view st)) pid of
        None \<Rightarrow> (Inl (UsageFault ProofNotFound), st)
      | Some p \<Rightarrow>
          store_bind (ensure (is_one_time_authority_proof p) (UsageFault ProofNotOneTime), st) (\<lambda>_ st.
          store_bind (ensure (pid \<notin> vw_consumed (as_view st)) (UsageFault ProofAlreadyConsumed), st) (\<lambda>_ st.
          store_bind (append_record env RkProof pid OpConsumed (PProof p) actor st) (\<lambda>_ st.
          (Inr p, st\<lparr>as_view := mark_consumed pid (as_view st)\<rparr>)))))"

section \<open>Compaction\<close>

record compaction_result =
  cr_checkpoint :: checkpoint
  cr_new_segment_head_hash :: string

definition compact ::
  "store_env \<Rightarrow> compaction_policy \<Rightarrow> string \<Rightarrow> policy_store \<Rightarrow> compaction_result store_result" where
  "compact env policy actor st =
     store_bind (validate_compaction_policy policy, st) (\<lambda>_ st.
     case now_instant env st of (now, st) \<Rightarrow>
     let at = se_fmt_millis env now;
         vw = as_view st;
         cid = se_sha256_value env
                 (HCheckpoint (mn_owner_user_ura (as_manifest st)) (as_last_sequence st) (as_head_hash st) at);
         ck = \<lparr>ck_checkpoint_id = cid, ck_compacted_at = at, ck_last_source_sequence = as_last_sequence st,
               ck_last_source_record_hash = as_head_hash st,
               ck_active_grant_hashes =
                 map (grant_hash env) (filter (\<lambda>g. active_at (se_rfc env) g now) (map snd (vw_grants vw))),
               ck_pending_request_ids =
                 map pr_request_id
                   (filter (\<lambda>q. pending_request_unexpired_at (se_rfc env) q now) (map snd (vw_requests vw))),
               ck_unexpired_proof_ids =
                 map ap_proof_id
                   (filter (\<lambda>p. authority_proof_unexpired_at (se_rfc env) p now) (map snd (vw_proofs vw))),
               ck_audit_record_ids = map fst (vw_audit vw), ck_retention_floor = policy\<rparr>
     in store_bind (append_record env RkCheckpoint cid OpCompacted (PCheckpoint ck) actor st) (\<lambda>_ st.
        let st = st\<lparr>as_manifest := (as_manifest st)\<lparr>mn_last_compacted_at := at\<rparr>\<rparr> in
        store_bind (write_manifest env st) (\<lambda>_ st.
        (Inr \<lparr>cr_checkpoint = ck, cr_new_segment_head_hash = as_head_hash st\<rparr>, st))))"

section \<open>Replay\<close>

definition apply_proof :: "record_operation \<Rightarrow> authority_proof \<Rightarrow> policy_view \<Rightarrow> store_error + policy_view" where
  "apply_proof operation p vw =
     (case operation of
        OpConsumed \<Rightarrow>
          and_then (ensure (map_of (vw_proofs vw) (ap_proof_id p) \<noteq> None)
                      (JournalFault (ConsumedBeforeCreation (ap_proof_id p)))) (\<lambda>_.
          Inr (mark_consumed (ap_proof_id p) vw))
      | OpCreated \<Rightarrow>
          and_then (ensure (ap_proof_id p \<notin> vw_consumed vw)
                      (JournalFault (RecreatedAfterConsumption (ap_proof_id p)))) (\<lambda>_.
          Inr (put_proof p vw))
      | _ \<Rightarrow> Inl (JournalFault UnsupportedOperation))"

definition apply_record :: "store_env \<Rightarrow> journal_record \<Rightarrow> policy_view \<Rightarrow> store_error + policy_view" where
  "apply_record env r vw =
     (case (jr_kind r, jr_payload r) of
        (RkGrant, PGrant g) \<Rightarrow>
          and_then (validate_grant env g) (\<lambda>_.
          and_then (ensure (case map_of (vw_grants vw) (pg_grant_id g) of
                              None \<Rightarrow> True
                            | Some e \<Rightarrow> \<not> (pg_state e = GsRevoked \<and> pg_state g = GsActive))
                      (JournalFault (RevokedReactivated (pg_grant_id g)))) (\<lambda>_.
          Inr (put_grant g vw)))
      | (RkRequest, PRequest q) \<Rightarrow>
          and_then (validate_request_transition env (map_of (vw_requests vw) (pr_request_id q)) q) (\<lambda>_.
          Inr (put_request q vw))
      | (RkProof, PProof p) \<Rightarrow>
          and_then (validate_authority_proof_identity (se_api env) p) (\<lambda>_. apply_proof (jr_operation r) p vw)
      | (RkAudit, PAudit a) \<Rightarrow>
          and_then (validate_user_principal_ura (se_api env) (ga_owner_user_ura a) ''policy audit owner_user_id'') (\<lambda>_.
          and_then (ensure (\<not> is_all_zero_principal_id (ga_principal_id a))
                      (Inadmissible ''policy audit principal_id'')) (\<lambda>_.
          and_then (validate_runtime_identity_ura (se_api env) (ga_actor_ura a) ''policy audit actor_ura'') (\<lambda>_.
          Inr (put_audit a vw))))
      | (RkCheckpoint, PCheckpoint ck) \<Rightarrow>
          and_then (ensure (ck_last_source_sequence ck < jr_sequence r) (JournalFault CheckpointSequence)) (\<lambda>_.
          and_then (validate_compaction_policy (ck_retention_floor ck)) (\<lambda>_. Inr vw))
      | _ \<Rightarrow> Inl (JournalFault PayloadMismatch))"

text \<open>A line that does not parse stops the reading of its file, and with it the replay.\<close>

fun read_lines :: "journal_line list \<Rightarrow> store_error + journal_record list" where
  "read_lines [] = Inr []"
| "read_lines (Readable r # ls) = and_then (read_lines ls) (\<lambda>rs. Inr (r # rs))"
| "read_lines (Garbled # ls) = Inl (JournalFault UnreadableRecord)"

definition collect_records :: "store_files \<Rightarrow> store_error + journal_record list" where
  "collect_records f =
     and_then (read_lines (jf_lines (fl_grants f))) (\<lambda>gs.
     and_then (read_lines (jf_lines (fl_requests f))) (\<lambda>qs.
     and_then (read_lines (jf_lines (fl_proofs f))) (\<lambda>ps.
     and_then (read_lines (jf_lines (fl_audit f))) (\<lambda>as.
     Inr (gs @ qs @ ps @ as)))))"

definition replay_record :: "store_env \<Rightarrow> journal_record \<Rightarrow> nat set \<Rightarrow> policy_store \<Rightarrow> unit store_result" where
  "replay_record env r seen st =
     store_bind (ensure (jr_sequence r \<notin> seen) (JournalFault (DuplicateSequence (jr_sequence r))), st) (\<lambda>_ st.
     store_bind (validate_user_principal_ura (se_api env) (jr_owner_user_ura r) ''policy journal owner_user_id'', st) (\<lambda>_ st.
     store_bind (ensure (jr_owner_user_ura r = mn_owner_user_ura (as_manifest st))
                   (JournalFault JournalOwnerMismatch), st) (\<lambda>_ st.
     store_bind (validate_runtime_identity_ura (se_api env) (jr_actor_ura r) ''policy journal actor_ura'', st) (\<lambda>_ st.
     store_bind (ensure (compute_record_hash env r = jr_record_hash r)
                   (JournalFault (RecordHashMismatch (jr_sequence r))), st) (\<lambda>_ st.
     store_bind (ensure (jr_previous_record_hash r = as_head_hash st)
                   (JournalFault (ChainMismatch (jr_sequence r))), st) (\<lambda>_ st.
     let st = st\<lparr>as_last_sequence := max (as_last_sequence st) (jr_sequence r), as_head_hash := jr_record_hash r\<rparr> in
     store_bind (apply_record env r (as_view st), st) (\<lambda>vw st. (Inr (), st\<lparr>as_view := vw\<rparr>))))))))"

fun replay_records :: "store_env \<Rightarrow> journal_record list \<Rightarrow> nat set \<Rightarrow> policy_store \<Rightarrow> unit store_result" where
  "replay_records env [] seen st = (Inr (), st)"
| "replay_records env (r # rs) seen st =
     store_bind (replay_record env r seen st) (\<lambda>_ st. replay_records env rs (insert (jr_sequence r) seen) st)"

definition replay :: "store_env \<Rightarrow> policy_store \<Rightarrow> unit store_result" where
  "replay env st =
     store_bind (collect_records (as_files st), st) (\<lambda>rs st.
     store_bind (replay_records env (sort_key jr_sequence rs) {} st) (\<lambda>_ st.
     store_bind (validate_all_resolution_authorities env (as_view st), st) (\<lambda>_ st.
     write_manifest env (st\<lparr>as_manifest := (as_manifest st)\<lparr>mn_head_hash := as_head_hash st\<rparr>\<rparr>))))"

definition empty_view :: policy_view where
  "empty_view = \<lparr>vw_grants = [], vw_requests = [], vw_proofs = [], vw_consumed = {}, vw_audit = []\<rparr>"

text \<open>Opening reads only the directory, the clock and the write outcomes of the state it is given. An
  unsuccessful open leaves no store; the state it returns is then only that of the directory.\<close>

definition load_manifest :: "store_env \<Rightarrow> string \<Rightarrow> policy_store \<Rightarrow> manifest store_result" where
  "load_manifest env owner_ura st =
     (case fl_manifest (as_files st) of
        Some m \<Rightarrow> (Inr m, st)
      | None \<Rightarrow>
          case now_rfc3339 env st of (now, st) \<Rightarrow>
          let m = \<lparr>mn_format = STORE_FORMAT, mn_schema_version = SCHEMA_VERSION, mn_owner_user_ura = owner_ura,
                   mn_created_at = now, mn_last_compacted_at = now, mn_head_hash = ZERO_HASH,
                   mn_record_profile = RECORD_PROFILE, mn_hash_algorithm = ''sha256''\<rparr>
          in store_bind (write_manifest env (st\<lparr>as_manifest := m\<rparr>)) (\<lambda>_ st. (Inr m, st)))"

definition open_or_create_at :: "store_env \<Rightarrow> string \<Rightarrow> policy_store \<Rightarrow> unit store_result" where
  "open_or_create_at env owner_ura st =
     store_bind (validate_user_principal_ura (se_api env) owner_ura ''policy store owner_user_id'', st) (\<lambda>_ st.
     store_bind (load_manifest env owner_ura st) (\<lambda>m st.
     store_bind (validate_manifest (se_api env) m owner_ura, st) (\<lambda>_ st.
     replay env (st\<lparr>as_manifest := m, as_view := empty_view, as_last_sequence := 0, as_head_hash := ZERO_HASH\<rparr>))))"

end
