(* ===== verification/AccessChain.thy ===== *)
theory AccessChain
  imports AccessJournal
begin

text \<open>
  What every operation of the policy store keeps. \<open>store_relation\<close> collects the steps the operations are made
  of; its interpretations give the hash chain of the journal, the life of a grant and the life of a proof.
\<close>

section \<open>Effects of the primitives\<close>

named_theorems store_simps

lemma store_bind_Inr_iff [store_simps]:
  "store_bind r f = (Inr y, st') \<longleftrightarrow> (\<exists>x st. r = (Inr x, st) \<and> f x st = (Inr y, st'))"
  by (auto simp: store_bind_def split: prod.splits sum.splits)

lemma store_bind_pure:
  "store_bind (c, st) f = (case c of Inl e \<Rightarrow> (Inl e, st) | Inr x \<Rightarrow> f x st)"
  by (cases c) simp_all

definition same_contents :: "policy_store \<Rightarrow> policy_store \<Rightarrow> bool" where
  "same_contents st st' \<longleftrightarrow>
     as_view st' = as_view st \<and> as_files st' = as_files st \<and> as_manifest st' = as_manifest st \<and>
     as_last_sequence st' = as_last_sequence st \<and> as_head_hash st' = as_head_hash st"

lemma now_rfc3339_contents: "now_rfc3339 env st = (t, st') \<Longrightarrow> same_contents st st'"
  by (auto simp: now_rfc3339_def now_instant_def same_contents_def)

lemma audit_record_contents: "audit_record env g m actor h h' st = (a, st') \<Longrightarrow> same_contents st st'"
  by (auto simp: audit_record_def Let_def dest: now_rfc3339_contents split: prod.splits)

lemma normalize_terminal_contents:
  "normalize_terminal_resolution_fields env q actor st = (q', st') \<Longrightarrow> same_contents st st'"
  by (auto simp: normalize_terminal_resolution_fields_def Let_def same_contents_def
      dest: now_rfc3339_contents split: prod.splits if_splits)

text \<open>The record an append writes, and the states it can end in.\<close>

definition next_record ::
  "store_env \<Rightarrow> record_kind \<Rightarrow> string \<Rightarrow> record_operation \<Rightarrow> payload \<Rightarrow> string \<Rightarrow> policy_store \<Rightarrow> journal_record" where
  "next_record env kind rid operation body actor st =
     (let r = \<lparr>jr_kind = kind, jr_schema_version = SCHEMA_VERSION, jr_sequence = as_last_sequence st + 1,
               jr_owner_user_ura = mn_owner_user_ura (as_manifest st), jr_record_id = rid, jr_operation = operation,
               jr_payload = body, jr_previous_record_hash = as_head_hash st, jr_record_hash = [],
               jr_created_at = se_fmt_millis env (se_now env (as_ticks st)), jr_actor_ura = actor\<rparr>
      in r\<lparr>jr_record_hash := compute_record_hash env r\<rparr>)"

definition actor_ok :: "store_env \<Rightarrow> string \<Rightarrow> bool" where
  "actor_ok env actor \<longleftrightarrow>
     validate_runtime_identity_ura (se_api env) actor ''policy journal actor_ura'' = Inr ()"

lemma next_record_fields:
  "jr_kind (next_record env kind rid operation body actor st) = kind"
  "jr_sequence (next_record env kind rid operation body actor st) = as_last_sequence st + 1"
  "jr_owner_user_ura (next_record env kind rid operation body actor st) = mn_owner_user_ura (as_manifest st)"
  "jr_operation (next_record env kind rid operation body actor st) = operation"
  "jr_payload (next_record env kind rid operation body actor st) = body"
  "jr_previous_record_hash (next_record env kind rid operation body actor st) = as_head_hash st"
  "jr_actor_ura (next_record env kind rid operation body actor st) = actor"
  "compute_record_hash env (next_record env kind rid operation body actor st) =
     jr_record_hash (next_record env kind rid operation body actor st)"
  by (simp_all add: next_record_def Let_def compute_record_hash_def)

lemma append_record_cases:
  assumes "append_record env kind rid operation body actor st = (x, st')"
  obtains (refused) e where "\<not> actor_ok env actor" "x = Inl e" "st' = st"
  | (unwritten) r where "actor_ok env actor" "r = next_record env kind rid operation body actor st"
      "x = Inl WriteFailed" "as_view st' = as_view st" "as_manifest st' = as_manifest st"
      "as_last_sequence st' = as_last_sequence st + 1" "as_head_hash st' = as_head_hash st"
      "se_append env (as_writes st) \<noteq> Appended"
      "as_files st' = add_record kind r (se_append env (as_writes st)) (as_files st)" "as_writes st' = as_writes st + 1"
  | (written) r where "actor_ok env actor" "r = next_record env kind rid operation body actor st"
      "as_view st' = as_view st" "as_last_sequence st' = as_last_sequence st + 1" "as_head_hash st' = jr_record_hash r"
      "as_manifest st' = (as_manifest st)\<lparr>mn_head_hash := jr_record_hash r\<rparr>"
      "se_append env (as_writes st) = Appended"
      "as_files st' = put_manifest (as_manifest st') (se_replace env (as_writes st + 1)) (add_record kind r Appended (as_files st))"
      "x = (if se_replace env (as_writes st + 1) = Replaced then Inr () else Inl WriteFailed)"
proof (cases "validate_runtime_identity_ura (se_api env) actor ''policy journal actor_ura''")
  case (Inl e)
  with assms show ?thesis by (intro refused [of e]) (auto simp: append_record_def actor_ok_def)
next
  case (Inr u)
  note ok = Inr
  show ?thesis
  proof (cases "se_append env (as_writes st) = Appended")
    case False
    with assms ok show ?thesis
      by (intro unwritten [OF _ refl]) (auto simp: append_record_def actor_ok_def now_rfc3339_def now_instant_def Let_def
          append_jsonl_def write_file_def next_record_def)
  next
    case True
    with assms ok show ?thesis
      by (intro written [OF _ refl]) (auto simp: append_record_def actor_ok_def now_rfc3339_def now_instant_def Let_def
          append_jsonl_def write_file_def write_manifest_def next_record_def)
  qed
qed

lemma append_record_view:
  "append_record env kind rid operation body actor st = (x, st') \<Longrightarrow> as_view st' = as_view st"
  by (erule append_record_cases) simp_all

section \<open>The steps of the operations\<close>

text \<open>What a grant says, without the fields its life cycle writes.\<close>

definition grant_terms :: "permission_grant \<Rightarrow> permission_grant" where
  "grant_terms g =
     g\<lparr>pg_state := GsActive, pg_last_used_at := None, pg_updated_at := None, pg_revoked_at := None, pg_reason := None\<rparr>"

fun state_rank :: "grant_state \<Rightarrow> nat" where
  "state_rank GsActive = 0"
| "state_rank GsExpired = 1"
| "state_rank GsRevoked = 2"

definition grant_advances :: "permission_grant option \<Rightarrow> permission_grant \<Rightarrow> bool" where
  "grant_advances previous g \<longleftrightarrow>
     (case previous of
        None \<Rightarrow> pg_state g = GsActive
      | Some e \<Rightarrow> grant_terms g = grant_terms e \<and> state_rank (pg_state e) < state_rank (pg_state g))"

definition request_advances :: "permission_request option \<Rightarrow> permission_request \<Rightarrow> bool" where
  "request_advances previous q \<longleftrightarrow>
     pr_status q = RqPending \<or>
     (\<exists>p. previous = Some p \<and> pr_status p = RqPending \<and> status_is_terminal (pr_status q))"

text \<open>Entries stand under their own id.\<close>

definition keyed :: "policy_view \<Rightarrow> bool" where
  "keyed vw \<longleftrightarrow>
     (\<forall>k g. map_of (vw_grants vw) k = Some g \<longrightarrow> pg_grant_id g = k) \<and>
     (\<forall>k q. map_of (vw_requests vw) k = Some q \<longrightarrow> pr_request_id q = k) \<and>
     (\<forall>k p. map_of (vw_proofs vw) k = Some p \<longrightarrow> ap_proof_id p = k)"

lemma normalize_grant_state: "normalize_grant_for_create env g = Inr g' \<Longrightarrow> pg_state g' = GsActive"
  by (auto simp: normalize_grant_for_create_def Let_def split: if_splits option.splits)

lemma normalize_terminal_status:
  "normalize_terminal_resolution_fields env q actor st = (q', st') \<Longrightarrow> pr_status q' = pr_status q"
  by (auto simp: normalize_terminal_resolution_fields_def Let_def split: prod.splits if_splits)

lemma request_transition_advances:
  assumes "request_transition_operation previous q = Inr operation"
  shows "request_advances previous q"
  using assms by (auto simp: request_transition_operation_def request_advances_def
      split: option.splits if_splits request_status.splits)

lemma validate_request_advances:
  assumes "validate_request_transition env previous q = Inr ()"
  shows "request_advances previous q"
  using assms request_transition_advances [of previous q]
  by (auto simp: validate_request_transition_def result_simps)

locale store_relation =
  fixes env :: store_env
    and R :: "policy_store \<Rightarrow> policy_store \<Rightarrow> bool"
  assumes trans: "R st1 st2 \<Longrightarrow> R st2 st3 \<Longrightarrow> R st1 st3"
    and contents: "same_contents st st' \<Longrightarrow> R st st'"
    and append: "R st (snd (append_record env kind rid operation body actor st))"
    and manifest_written: "R st (snd (write_manifest env st))"
    and compacted: "R st (st\<lparr>as_manifest := (as_manifest st)\<lparr>mn_last_compacted_at := at\<rparr>\<rparr>)"
    and grant: "grant_advances (map_of (vw_grants (as_view st)) (pg_grant_id g)) g \<Longrightarrow>
           R st (st\<lparr>as_view := put_grant g (as_view st)\<rparr>)"
    and audit: "R st (st\<lparr>as_view := put_audit a (as_view st)\<rparr>)"
    and request: "request_advances (map_of (vw_requests (as_view st)) (pr_request_id q)) q \<Longrightarrow>
           R st (st\<lparr>as_view := put_request q (as_view st)\<rparr>)"
    and new_proof: "map_of (vw_proofs (as_view st)) (ap_proof_id p) = None \<Longrightarrow>
           R st (st\<lparr>as_view := put_proof p (as_view st)\<rparr>)"
    and consumed: "R st (st\<lparr>as_view := mark_consumed pid (as_view st)\<rparr>)"
begin

lemma refl: "R st st"
  by (rule contents) (simp add: same_contents_def)

lemma bind_R:
  assumes "R st (snd r)" "\<And>x st1. r = (Inr x, st1) \<Longrightarrow> R st1 (snd (f x st1))"
  shows "R st (snd (store_bind r f))"
proof (cases r)
  case (Pair c st1)
  with assms show ?thesis by (cases c) (auto intro: trans)
qed

lemma check_R:
  assumes "\<And>x. c = Inr x \<Longrightarrow> R st (snd (f x st))"
  shows "R st (snd (store_bind (c, st) f))"
  using assms by (cases c) (simp_all add: refl)

lemma commit_grant_R:
  assumes "grant_advances (map_of (vw_grants (as_view st)) (pg_grant_id g)) g"
  shows "R st (snd (commit_grant env g a operation actor st))"
  unfolding commit_grant_def
proof (intro bind_R append)
  fix x st1 y st2
  assume 1: "append_record env RkGrant (pg_grant_id g) operation (PGrant g) actor st = (Inr x, st1)"
    and 2: "append_record env RkAudit (ga_audit_record_id a) operation (PAudit a) actor st1 = (Inr y, st2)"
  from assms have "R st2 (st2\<lparr>as_view := put_grant g (as_view st2)\<rparr>)"
    by (intro grant) (simp add: append_record_view [OF 1] append_record_view [OF 2])
  with audit [of "st2\<lparr>as_view := put_grant g (as_view st2)\<rparr>" a]
  show "R st2 (snd (Inr (), st2\<lparr>as_view := put_audit a (put_grant g (as_view st2))\<rparr>))"
    by (auto intro: trans)
qed

lemma pair_R:
  assumes "\<And>x st1. m = (x, st1) \<Longrightarrow> same_contents st st1 \<and> R st1 (snd (f x st1))"
  shows "R st (snd (case m of (x, st1) \<Rightarrow> f x st1))"
  using assms by (cases m) (auto intro: trans contents)

lemma audited_R:
  assumes "\<And>a st1. same_contents st st1 \<Longrightarrow> R st1 (snd (f a st1))"
  shows "R st (snd (case audit_record env g m actor h h' st of (a, st1) \<Rightarrow> f a st1))"
  using assms by (intro pair_R) (auto dest: audit_record_contents)

lemma finish_R: "R st (snd r) \<Longrightarrow> R st (snd (store_bind r (\<lambda>x st. (Inr (f x), st))))"
  by (erule bind_R) (simp add: refl)

lemma create_grant_R: "R st (snd (create_grant env g actor st))"
  unfolding create_grant_def Let_def
proof (intro check_R, goal_cases)
  case (1 g' u)
  have "R st (snd (case audit_record env (g'\<lparr>pg_state := GsActive\<rparr>) MutCreated actor ZERO_HASH
      (grant_hash env (g'\<lparr>pg_state := GsActive\<rparr>)) st of (a, st) \<Rightarrow>
      store_bind (commit_grant env (g'\<lparr>pg_state := GsActive\<rparr>) a OpCreated actor st)
        (\<lambda>_ st. (Inr \<lparr>gr_grant = g'\<lparr>pg_state := GsActive\<rparr>, gr_idempotent_replay = False,
          gr_audit_record_id = ga_audit_record_id a\<rparr>, st))))"
    if "map_of (vw_grants (as_view st)) (pg_grant_id g') = None"
    using that by (intro audited_R finish_R commit_grant_R) (simp add: grant_advances_def same_contents_def)
  then show ?case by (auto simp: refl split: option.splits)
qed

lemma revoke_grant_R:
  assumes "keyed (as_view st)"
  shows "R st (snd (revoke_grant env gid ow actor reason st))"
proof -
  have "R st1 (snd (commit_grant env (e\<lparr>pg_state := GsRevoked, pg_revoked_at := t, pg_updated_at := t',
      pg_reason := reason\<rparr>) a OpRevoked actor st1))"
    if "map_of (vw_grants (as_view st)) gid = Some e" "pg_state e \<noteq> GsRevoked" "as_view st1 = as_view st"
    for e t t' a st1
    using that assms
    by (intro commit_grant_R) (cases "pg_state e"; auto simp: grant_advances_def grant_terms_def keyed_def)
  then show ?thesis
    by (auto simp: revoke_grant_def Let_def refl same_contents_def dest!: now_rfc3339_contents
        intro!: pair_R audited_R finish_R split: option.split)
qed

lemma consume_once_grant_R:
  assumes "keyed (as_view st)"
  shows "R st (snd (consume_once_grant_if_applicable env gid actor st))"
proof -
  have "R st1 (snd (commit_grant env (e\<lparr>pg_state := GsExpired, pg_last_used_at := t, pg_updated_at := t'\<rparr>)
      a OpConsumed actor st1))"
    if "map_of (vw_grants (as_view st)) gid = Some e" "pg_state e = GsActive" "as_view st1 = as_view st"
    for e t t' a st1
    using that assms by (intro commit_grant_R) (auto simp: grant_advances_def grant_terms_def keyed_def)
  then show ?thesis
    by (auto simp: consume_once_grant_if_applicable_def Let_def refl same_contents_def dest!: now_rfc3339_contents
        intro!: pair_R audited_R finish_R split: option.split)
qed

lemma append_request_R:
  assumes "request_advances (map_of (vw_requests (as_view st)) (pr_request_id q)) q"
  shows "R st (snd (store_bind (append_record env RkRequest rid operation (PRequest q) actor st)
           (\<lambda>_ st. (Inr (f st), st\<lparr>as_view := put_request q (as_view st)\<rparr>))))"
  using assms by (intro bind_R append) (auto dest!: append_record_view intro: request)

lemma upsert_request_R: "R st (snd (upsert_permission_request env q actor st))"
proof -
  have "R st (snd (store_bind (append_record env RkRequest rid operation (PRequest q) actor st)
           (\<lambda>_ st. (Inr (f st), st\<lparr>as_view := put_request q (as_view st)\<rparr>))))"
    if "pr_status q = RqPending" for rid operation and f :: "policy_store \<Rightarrow> permission_request"
    using that by (intro append_request_R) (simp add: request_advances_def)
  then show ?thesis
    unfolding upsert_permission_request_def
    by (intro check_R) (auto simp: refl ensure_Inr_iff split: option.split)
qed

lemma resolve_request_R: "R st (snd (resolve_permission_request env q actor st))"
proof -
  have step: "R st1 (snd (let previous = map_of (vw_requests (as_view st1)) (pr_request_id q1) in
      store_bind (validate_request_transition env previous q1, st1) (\<lambda>_ st.
      store_bind (validate_resolution_authority env (as_view st) q1, st) (\<lambda>_ st.
      store_bind (request_transition_operation previous q1, st) (\<lambda>operation st.
      store_bind (append_record env RkRequest (pr_request_id q1) operation (PRequest q1) actor st) (\<lambda>_ st.
      (Inr q1, st\<lparr>as_view := put_request q1 (as_view st)\<rparr>)))))))" for q1 st1
    unfolding Let_def by (intro check_R append_request_R) (auto dest: validate_request_advances)
  show ?thesis
    unfolding resolve_permission_request_def
    by (intro pair_R conjI step)
      (auto simp: same_contents_def dest!: normalize_terminal_contents split: if_splits)
qed

lemma with_grant_commit_R:
  assumes "request_advances (map_of (vw_requests (as_view st)) (pr_request_id q)) q" "pg_state g = GsActive"
    "map_of (vw_grants (as_view st)) (pg_grant_id g) = None"
  shows "R st (snd (store_bind (append_record env RkRequest (pr_request_id q) operation (PRequest q) actor st) (\<lambda>_ st.
           store_bind (append_record env RkGrant (pg_grant_id g) OpCreated (PGrant g) actor st) (\<lambda>_ st.
           store_bind (append_record env RkAudit (ga_audit_record_id a) OpCreated (PAudit a) actor st) (\<lambda>_ st.
           (Inr y, st\<lparr>as_view := put_audit a (put_grant g (put_request q (as_view st)))\<rparr>))))))"
proof (intro bind_R append)
  fix x st1 x' st2 x'' st3
  assume 1: "append_record env RkRequest (pr_request_id q) operation (PRequest q) actor st = (Inr x, st1)"
    and 2: "append_record env RkGrant (pg_grant_id g) OpCreated (PGrant g) actor st1 = (Inr x', st2)"
    and 3: "append_record env RkAudit (ga_audit_record_id a) OpCreated (PAudit a) actor st2 = (Inr x'', st3)"
  note v = append_record_view [OF 1] append_record_view [OF 2] append_record_view [OF 3]
  let ?st4 = "st3\<lparr>as_view := put_request q (as_view st3)\<rparr>"
  let ?st5 = "?st4\<lparr>as_view := put_grant g (as_view ?st4)\<rparr>"
  from assms have "R st3 ?st4" by (intro request) (simp add: v)
  moreover from assms have "R ?st4 ?st5"
    by (intro grant) (simp add: v put_request_def grant_advances_def)
  moreover have "R ?st5 (?st5\<lparr>as_view := put_audit a (as_view ?st5)\<rparr>)" by (rule audit)
  ultimately show "R st3 (snd (Inr y, st3\<lparr>as_view := put_audit a (put_grant g (put_request q (as_view st3)))\<rparr>))"
    by (auto intro: trans)
qed

lemma resolve_with_grant_R: "R st (snd (resolve_permission_request_with_grant env q g actor st))"
  unfolding resolve_permission_request_with_grant_def
proof (intro check_R pair_R conjI, goal_cases)
  case (1 _ g1 _ _ _ q1 st1)
  then show ?case by (auto dest: normalize_terminal_contents)
next
  case (2 _ g1 _ _ _ q1 st1)
  from 2 have g1: "pg_state g1 = GsActive" by (simp add: normalize_grant_state)
  show ?case
    unfolding Let_def
  proof (intro check_R, goal_cases)
    case (1 u v)
    then have adv: "request_advances (map_of (vw_requests (as_view st1)) (pr_request_id q1)) q1"
      by (simp add: validate_request_advances)
    show ?case
    proof (cases "find_equivalent env g1 (as_view st1)")
      case (Some e)
      with adv show ?thesis by (auto intro!: check_R append_request_R)
    next
      case None
      have "R st1 (snd (case audit_record env g1 MutCreated actor ZERO_HASH (grant_hash env g1) st1 of (a, st) \<Rightarrow>
          store_bind (request_transition_operation (map_of (vw_requests (as_view st1)) (pr_request_id q1)) q1, st)
            (\<lambda>operation st.
          store_bind (append_record env RkRequest (pr_request_id q1) operation (PRequest q1) actor st) (\<lambda>_ st.
          store_bind (append_record env RkGrant (pg_grant_id g1) OpCreated (PGrant g1) actor st) (\<lambda>_ st.
          store_bind (append_record env RkAudit (ga_audit_record_id a) OpCreated (PAudit a) actor st) (\<lambda>_ st.
          (Inr \<lparr>rr_request = q1, rr_created_grant = Some g1, rr_authority_proof = None, rr_idempotent_replay = False\<rparr>,
           st\<lparr>as_view := put_audit a (put_grant g1 (put_request q1 (as_view st)))\<rparr>)))))))"
        if "map_of (vw_grants (as_view st1)) (pg_grant_id g1) = None"
        using that adv g1 by (intro audited_R check_R with_grant_commit_R) (simp_all add: same_contents_def)
      with None show ?thesis by (auto simp: refl)
    qed
  qed
qed

lemma with_proof_commit_R:
  assumes "request_advances (map_of (vw_requests (as_view st)) (pr_request_id q)) q"
    "map_of (vw_proofs (as_view st)) (ap_proof_id p) = None"
  shows "R st (snd (store_bind (append_record env RkRequest (pr_request_id q) operation (PRequest q) actor st) (\<lambda>_ st.
           store_bind (append_record env RkProof (ap_proof_id p) OpCreated (PProof p) actor st) (\<lambda>_ st.
           (Inr y, st\<lparr>as_view := put_proof p (put_request q (as_view st))\<rparr>)))))"
proof (intro bind_R append)
  fix x st1 x' st2
  assume 1: "append_record env RkRequest (pr_request_id q) operation (PRequest q) actor st = (Inr x, st1)"
    and 2: "append_record env RkProof (ap_proof_id p) OpCreated (PProof p) actor st1 = (Inr x', st2)"
  note v = append_record_view [OF 1] append_record_view [OF 2]
  let ?st3 = "st2\<lparr>as_view := put_request q (as_view st2)\<rparr>"
  from assms have "R st2 ?st3" by (intro request) (simp add: v)
  moreover from assms have "R ?st3 (?st3\<lparr>as_view := put_proof p (as_view ?st3)\<rparr>)"
    by (intro new_proof) (simp add: v put_request_def)
  ultimately show "R st2 (snd (Inr y, st2\<lparr>as_view := put_proof p (put_request q (as_view st2))\<rparr>))"
    by (auto intro: trans)
qed

lemma resolve_with_proof_R: "R st (snd (resolve_permission_request_with_authority_proof env q p actor st))"
  unfolding resolve_permission_request_with_authority_proof_def Let_def
  by (intro check_R pair_R conjI with_proof_commit_R)
    (auto simp: ensure_Inr_iff dest: normalize_terminal_contents validate_request_advances)

lemma put_authority_proof_R: "R st (snd (put_authority_proof env p actor st))"
  unfolding put_authority_proof_def
  by (intro check_R bind_R append) (auto simp: ensure_Inr_iff dest!: append_record_view intro: new_proof)

lemma consume_authority_proof_R: "R st (snd (consume_authority_proof_once env pid actor st))"
  unfolding consume_authority_proof_once_def
  by (auto simp: refl intro!: check_R bind_R append consumed split: option.split)

lemma compact_R: "R st (snd (compact env policy actor st))"
  unfolding compact_def Let_def
proof (intro check_R pair_R conjI bind_R append, goal_cases)
  case (1 _ now st1)
  then show ?case by (auto simp: now_instant_def same_contents_def)
next
  case (2 _ now st1 x st2)
  show ?case by (rule trans [OF compacted manifest_written])
next
  case (3 _ now st1 x st2 y st3)
  show ?case by (simp add: refl)
qed

end

section \<open>Runs of the store\<close>

inductive store_step :: "store_env \<Rightarrow> policy_store \<Rightarrow> policy_store \<Rightarrow> bool" for env where
  create: "store_step env st (snd (create_grant env g actor st))"
| revoke: "store_step env st (snd (revoke_grant env gid ow actor reason st))"
| consume_grant: "store_step env st (snd (consume_once_grant_if_applicable env gid actor st))"
| upsert: "store_step env st (snd (upsert_permission_request env q actor st))"
| resolve: "store_step env st (snd (resolve_permission_request env q actor st))"
| resolve_grant: "store_step env st (snd (resolve_permission_request_with_grant env q g actor st))"
| resolve_proof: "store_step env st (snd (resolve_permission_request_with_authority_proof env q p actor st))"
| put_proof: "store_step env st (snd (put_authority_proof env p actor st))"
| consume_proof: "store_step env st (snd (consume_authority_proof_once env pid actor st))"
| compacting: "store_step env st (snd (compact env policy actor st))"

text \<open>The stores a process can hold: an opened one, and what the operations make of it.\<close>

inductive live_store :: "store_env \<Rightarrow> string \<Rightarrow> policy_store \<Rightarrow> bool" for env ow where
  opened: "open_or_create_at env ow st0 = (Inr (), st) \<Longrightarrow> live_store env ow st"
| stepped: "live_store env ow st \<Longrightarrow> store_step env st st' \<Longrightarrow> live_store env ow st'"

context store_relation
begin

lemma step_R: "store_step env st st' \<Longrightarrow> keyed (as_view st) \<Longrightarrow> R st st'"
  by (erule store_step.cases)
    (simp_all add: create_grant_R revoke_grant_R consume_once_grant_R upsert_request_R resolve_request_R
      resolve_with_grant_R resolve_with_proof_R put_authority_proof_R consume_authority_proof_R compact_R)

end

subsection \<open>Keys\<close>

lemma put_manifest_journals:
  "fl_grants (put_manifest m outcome fs) = fl_grants fs" "fl_requests (put_manifest m outcome fs) = fl_requests fs"
  "fl_proofs (put_manifest m outcome fs) = fl_proofs fs" "fl_audit (put_manifest m outcome fs) = fl_audit fs"
  by (simp_all add: put_manifest_def)

lemma collect_put_manifest [simp]: "collect_records (put_manifest m outcome fs) = collect_records fs"
  by (simp add: collect_records_def put_manifest_journals)

lemma write_manifest_contents:
  "as_view (snd (write_manifest env st)) = as_view st"
  "as_manifest (snd (write_manifest env st)) = as_manifest st"
  "as_last_sequence (snd (write_manifest env st)) = as_last_sequence st"
  "as_head_hash (snd (write_manifest env st)) = as_head_hash st"
  "as_files (snd (write_manifest env st)) =
     put_manifest (as_manifest st) (se_replace env (as_writes st)) (as_files st)"
  by (simp_all add: write_manifest_def write_file_def)

lemma append_record_snd_view: "as_view (snd (append_record env kind rid operation body actor st)) = as_view st"
  by (rule append_record_view [of env kind rid operation body actor st
        "fst (append_record env kind rid operation body actor st)"]) simp

lemmas view_simps = append_record_snd_view write_manifest_contents put_grant_def put_audit_def put_request_def
  put_proof_def mark_consumed_def map_of_btree_insert

lemma keyed_puts:
  "keyed vw \<Longrightarrow> keyed (put_grant g vw)"
  "keyed vw \<Longrightarrow> keyed (put_audit a vw)"
  "keyed vw \<Longrightarrow> keyed (put_request q vw)"
  "keyed vw \<Longrightarrow> keyed (put_proof p vw)"
  "keyed vw \<Longrightarrow> keyed (mark_consumed pid vw)"
  by (simp_all add: view_simps keyed_def)

interpretation keys: store_relation env "\<lambda>st st'. keyed (as_view st) \<longrightarrow> keyed (as_view st')" for env
  by unfold_locales (simp_all add: append_record_snd_view write_manifest_contents same_contents_def keyed_puts)

lemma store_step_keyed: "store_step env st st' \<Longrightarrow> keyed (as_view st) \<Longrightarrow> keyed (as_view st')"
  using keys.step_R by blast

context store_relation
begin

lemma run_R: "(store_step env)\<^sup>*\<^sup>* st st' \<Longrightarrow> keyed (as_view st) \<Longrightarrow> R st st' \<and> keyed (as_view st')"
proof (induction rule: rtranclp_induct)
  case base
  then show ?case by (simp add: refl)
next
  case (step st1 st2)
  then have "R st st1" "keyed (as_view st1)" by simp_all
  with step.hyps(2) show ?case by (auto intro: trans step_R store_step_keyed)
qed

end

subsection \<open>The life of a grant\<close>

definition grant_ahead :: "permission_grant \<Rightarrow> permission_grant \<Rightarrow> bool" where
  "grant_ahead g g' \<longleftrightarrow> g' = g \<or> grant_terms g' = grant_terms g \<and> state_rank (pg_state g) < state_rank (pg_state g')"

definition grants_ahead :: "policy_view \<Rightarrow> policy_view \<Rightarrow> bool" where
  "grants_ahead vw vw' \<longleftrightarrow>
     (\<forall>gid g. map_of (vw_grants vw) gid = Some g \<longrightarrow> (\<exists>g'. map_of (vw_grants vw') gid = Some g' \<and> grant_ahead g g'))"

lemma grant_ahead_trans: "grant_ahead g1 g2 \<Longrightarrow> grant_ahead g2 g3 \<Longrightarrow> grant_ahead g1 g3"
  by (auto simp: grant_ahead_def)

lemma grants_ahead_trans: "grants_ahead v1 v2 \<Longrightarrow> grants_ahead v2 v3 \<Longrightarrow> grants_ahead v1 v3"
  unfolding grants_ahead_def by (blast intro: grant_ahead_trans)

lemma grants_ahead_same: "vw_grants vw' = vw_grants vw \<Longrightarrow> grants_ahead vw vw'"
  by (simp add: grants_ahead_def grant_ahead_def)

lemma grants_ahead_put:
  assumes "grant_advances (map_of (vw_grants vw) (pg_grant_id g)) g"
  shows "grants_ahead vw (put_grant g vw)"
  using assms by (auto simp: grants_ahead_def grant_ahead_def grant_advances_def put_grant_def map_of_btree_insert
      split: option.splits)

interpretation lives: store_relation env "\<lambda>st st'. grants_ahead (as_view st) (as_view st')" for env
proof (unfold_locales, goal_cases)
  case (1 st1 st2 st3)
  then show ?case by (rule grants_ahead_trans)
next
  case (6 st g)
  then show ?case by (simp add: grants_ahead_put)
qed (simp_all add: grants_ahead_same view_simps same_contents_def)

subsection \<open>The life of a proof\<close>

definition proofs_ahead :: "policy_view \<Rightarrow> policy_view \<Rightarrow> bool" where
  "proofs_ahead vw vw' \<longleftrightarrow>
     map_of (vw_proofs vw) \<subseteq>\<^sub>m map_of (vw_proofs vw') \<and> vw_consumed vw \<subseteq> vw_consumed vw'"

lemma proofs_ahead_trans: "proofs_ahead v1 v2 \<Longrightarrow> proofs_ahead v2 v3 \<Longrightarrow> proofs_ahead v1 v3"
  unfolding proofs_ahead_def by (blast intro: map_le_trans)

interpretation uses: store_relation env "\<lambda>st st'. proofs_ahead (as_view st) (as_view st')" for env
proof (unfold_locales, goal_cases)
  case (1 st1 st2 st3)
  then show ?case by (rule proofs_ahead_trans)
next
  case (9 st p)
  then show ?case by (auto simp: proofs_ahead_def put_proof_def map_of_btree_insert map_le_def dom_def)
qed (auto simp: proofs_ahead_def view_simps same_contents_def)

section \<open>The hash chain\<close>

text \<open>The records of the directory in the order of replay. The directory is intact if every line is a record with its
  newline.\<close>

fun records_of :: "journal_line list \<Rightarrow> journal_record list" where
  "records_of [] = []"
| "records_of (Readable r # ls) = r # records_of ls"
| "records_of (Garbled # ls) = records_of ls"

definition stored_records :: "store_files \<Rightarrow> journal_record list" where
  "stored_records fs =
     records_of (jf_lines (fl_grants fs)) @ records_of (jf_lines (fl_requests fs)) @
     records_of (jf_lines (fl_proofs fs)) @ records_of (jf_lines (fl_audit fs))"

definition journal :: "policy_store \<Rightarrow> journal_record list" where
  "journal st = sort_key jr_sequence (stored_records (as_files st))"

definition readable_files :: "store_files \<Rightarrow> bool" where
  "readable_files fs \<longleftrightarrow>
     Garbled \<notin> set (jf_lines (fl_grants fs)) \<union> set (jf_lines (fl_requests fs)) \<union>
       set (jf_lines (fl_proofs fs)) \<union> set (jf_lines (fl_audit fs))"

definition ended_files :: "store_files \<Rightarrow> bool" where
  "ended_files fs \<longleftrightarrow> jf_ended (fl_grants fs) \<and> jf_ended (fl_requests fs) \<and> jf_ended (fl_proofs fs) \<and> jf_ended (fl_audit fs)"

fun file_of :: "record_kind \<Rightarrow> store_files \<Rightarrow> journal_file" where
  "file_of RkGrant = fl_grants"
| "file_of RkRequest = fl_requests"
| "file_of RkProof = fl_proofs"
| "file_of RkAudit = fl_audit"
| "file_of RkCheckpoint = fl_audit"

text \<open>An append that reports an error has left nothing in its file. Manifest writes may fail at any point.\<close>

definition clean_appends :: "store_env \<Rightarrow> bool" where
  "clean_appends env \<longleftrightarrow> (\<forall>n. se_append env n \<in> {Appended, NotAppended})"

lemma read_lines_eq: "read_lines ls = (if Garbled \<in> set ls then Inl (JournalFault UnreadableRecord) else Inr (records_of ls))"
  by (induction ls rule: read_lines.induct) auto

lemma collect_records_eq:
  "collect_records fs = (if readable_files fs then Inr (stored_records fs) else Inl (JournalFault UnreadableRecord))"
  by (simp add: collect_records_def read_lines_eq readable_files_def stored_records_def)

lemma records_of_append [simp]: "records_of (ls @ ls') = records_of ls @ records_of ls'"
  by (induction ls rule: records_of.induct) auto

lemma put_manifest_stored [simp]:
  "stored_records (put_manifest m outcome fs) = stored_records fs"
  "readable_files (put_manifest m outcome fs) = readable_files fs"
  "ended_files (put_manifest m outcome fs) = ended_files fs"
  by (simp_all add: stored_records_def readable_files_def ended_files_def put_manifest_journals)

fun chained :: "store_env \<Rightarrow> string \<Rightarrow> string \<Rightarrow> journal_record list \<Rightarrow> bool" where
  "chained env ow h [] = True"
| "chained env ow h (r # rs) \<longleftrightarrow>
     jr_previous_record_hash r = h \<and> jr_record_hash r = compute_record_hash env r \<and> jr_owner_user_ura r = ow \<and>
     actor_ok env (jr_actor_ura r) \<and> chained env ow (jr_record_hash r) rs"

definition chain_end :: "string \<Rightarrow> journal_record list \<Rightarrow> string" where
  "chain_end h rs = (if rs = [] then h else jr_record_hash (last rs))"

definition journal_ok :: "store_env \<Rightarrow> string \<Rightarrow> policy_store \<Rightarrow> bool" where
  "journal_ok env ow st \<longleftrightarrow>
     mn_owner_user_ura (as_manifest st) = ow \<and> readable_files (as_files st) \<and> ended_files (as_files st) \<and>
     chained env ow ZERO_HASH (journal st) \<and> chain_end ZERO_HASH (journal st) = as_head_hash st \<and>
     sorted_wrt (<) (map jr_sequence (journal st)) \<and>
     (\<forall>r \<in> set (journal st). jr_sequence r \<le> as_last_sequence st)"

lemma chained_snoc:
  "chained env ow h (rs @ [r]) \<longleftrightarrow>
     chained env ow h rs \<and> jr_previous_record_hash r = chain_end h rs \<and> jr_record_hash r = compute_record_hash env r \<and>
     jr_owner_user_ura r = ow \<and> actor_ok env (jr_actor_ura r)"
  by (induction rs arbitrary: h) (auto simp: chain_end_def)

lemma insort_key_last: "\<forall>z \<in> set zs. f z < f r \<Longrightarrow> insort_key f r zs = zs @ [r]"
  by (induction zs) (auto simp: not_le)

lemma insort_key_snoc: "f x \<le> f r \<Longrightarrow> insort_key f x (zs @ [r]) = insort_key f x zs @ [r]"
  by (induction zs) auto

lemma sort_key_max:
  "\<forall>x \<in> set (xs @ ys). f x < f r \<Longrightarrow> sort_key f (xs @ r # ys) = sort_key f (xs @ ys) @ [r]"
  by (induction xs) (simp_all add: insort_key_last insort_key_snoc less_imp_le)

text \<open>A line that is written out, with or without a sync, adds its record to an intact directory.\<close>

lemma add_record_intact:
  assumes "ended_files fs" "outcome \<in> {Appended, Unsynced}"
  shows "ended_files (add_record kind r outcome fs)"
    and "readable_files (add_record kind r outcome fs) = readable_files fs"
  using assms by (auto simp: add_record_def append_line_def add_line_def ended_files_def readable_files_def
      split: record_kind.split)

lemma ended_file_of: "ended_files fs \<Longrightarrow> jf_ended (file_of kind fs)"
  by (cases kind) (simp_all add: ended_files_def)

lemma stored_add_record:
  assumes "jf_ended (file_of kind fs)" "outcome \<in> {Appended, Unterminated, Unsynced}"
  shows "\<exists>xs ys. stored_records (add_record kind r outcome fs) = xs @ r # ys \<and> stored_records fs = xs @ ys"
proof -
  let ?g = "records_of (jf_lines (fl_grants fs))" and ?q = "records_of (jf_lines (fl_requests fs))"
  let ?p = "records_of (jf_lines (fl_proofs fs))" and ?a = "records_of (jf_lines (fl_audit fs))"
  from assms have e: "jf_lines (append_line r outcome (file_of kind fs)) = jf_lines (file_of kind fs) @ [Readable r]"
    by (auto simp: append_line_def add_line_def)
  show ?thesis
  proof (cases kind)
    case RkGrant
    with e show ?thesis
      by (intro exI [of _ ?g] exI [of _ "?q @ ?p @ ?a"]) (simp add: stored_records_def add_record_def)
  next
    case RkRequest
    with e show ?thesis
      by (intro exI [of _ "?g @ ?q"] exI [of _ "?p @ ?a"]) (simp add: stored_records_def add_record_def)
  next
    case RkProof
    with e show ?thesis
      by (intro exI [of _ "?g @ ?q @ ?p"] exI [of _ ?a]) (simp add: stored_records_def add_record_def)
  qed (use e in \<open>intro exI [of _ "?g @ ?q @ ?p @ ?a"] exI [of _ "[]"]; simp add: stored_records_def add_record_def\<close>)+
qed

lemma add_record_not_appended [simp]: "add_record kind r NotAppended fs = fs"
  by (simp add: add_record_def append_line_def split: record_kind.split)

lemma journal_append:
  assumes "\<forall>r' \<in> set (journal st). jr_sequence r' < jr_sequence r"
    and "stored_records (as_files st') = stored_records (add_record kind r outcome (as_files st))"
    and "jf_ended (file_of kind (as_files st))" "outcome \<in> {Appended, Unterminated, Unsynced}"
  shows "journal st' = journal st @ [r]"
proof -
  from stored_add_record [OF assms(3,4), of r] obtain xs ys
    where "stored_records (add_record kind r outcome (as_files st)) = xs @ r # ys" "stored_records (as_files st) = xs @ ys"
    by blast
  with assms(1,2) sort_key_max [of xs ys jr_sequence r] show ?thesis by (simp add: journal_def)
qed

lemma next_record_newest:
  assumes "journal_ok env ow st"
  shows "\<forall>r' \<in> set (journal st). jr_sequence r' < jr_sequence (next_record env kind rid operation body actor st)"
  using assms by (auto simp: journal_ok_def next_record_fields)

lemma append_record_journal:
  assumes "append_record env kind rid operation body actor st = (x, st')" "journal_ok env ow st"
  shows "se_append env (as_writes st) \<in> {Appended, NotAppended} \<Longrightarrow> journal_ok env ow st'"
    and "x = Inr () \<Longrightarrow> journal st' = journal st @ [next_record env kind rid operation body actor st]"
proof -
  have "(se_append env (as_writes st) \<in> {Appended, NotAppended} \<longrightarrow> journal_ok env ow st') \<and>
      (x = Inr () \<longrightarrow> journal st' = journal st @ [next_record env kind rid operation body actor st])"
    using assms(1)
  proof (cases rule: append_record_cases)
    case (refused e)
    with assms(2) show ?thesis by simp
  next
    case (unwritten r)
    with assms(2) show ?thesis by (auto simp: journal_ok_def journal_def)
  next
    case (written r)
    from assms(2) have i: "ended_files (as_files st)" "readable_files (as_files st)" by (simp_all add: journal_ok_def)
    have "journal st' = journal st @ [r]"
      by (rule journal_append [OF _ _ ended_file_of [OF i(1)], where outcome = Appended and kind = kind])
        (use next_record_newest [OF assms(2)] written in simp_all)
    with written assms(2) add_record_intact [OF i(1), of Appended kind r] i(2) show ?thesis
      by (auto simp: journal_ok_def chained_snoc next_record_fields sorted_wrt_append chain_end_def le_SucI)
  qed
  then show "se_append env (as_writes st) \<in> {Appended, NotAppended} \<Longrightarrow> journal_ok env ow st'"
    and "x = Inr () \<Longrightarrow> journal st' = journal st @ [next_record env kind rid operation body actor st]" by simp_all
qed

interpretation chain: store_relation env
  "\<lambda>st st'. clean_appends env \<longrightarrow> journal_ok env ow st \<longrightarrow> journal_ok env ow st'" for env ow
proof (unfold_locales, goal_cases)
  case (3 st kind rid operation body actor)
  obtain x st' where e: "append_record env kind rid operation body actor st = (x, st')" by fastforce
  then show ?case using append_record_journal(1) [OF e] by (simp add: clean_appends_def)
qed (simp_all add: journal_ok_def journal_def same_contents_def write_manifest_contents)

section \<open>Opening\<close>

lemma apply_record_keyed: "apply_record env r vw = Inr vw' \<Longrightarrow> keyed vw \<Longrightarrow> keyed vw'"
  by (auto simp: apply_record_def apply_proof_def result_simps keyed_puts
      split: record_kind.splits payload.splits record_operation.splits)

lemma replay_record_Inr:
  assumes "replay_record env r seen st = (Inr u, st')"
  shows "jr_sequence r \<notin> seen" "jr_owner_user_ura r = mn_owner_user_ura (as_manifest st)"
    "actor_ok env (jr_actor_ura r)" "jr_record_hash r = compute_record_hash env r"
    "jr_previous_record_hash r = as_head_hash st" "apply_record env r (as_view st) = Inr (as_view st')"
    "as_last_sequence st' = max (as_last_sequence st) (jr_sequence r)" "as_head_hash st' = jr_record_hash r"
    "as_manifest st' = as_manifest st" "as_files st' = as_files st"
  using assms by (auto simp: replay_record_def store_simps result_simps actor_ok_def Let_def)

text \<open>Replay's fold over the maps alone.\<close>

fun apply_all :: "store_env \<Rightarrow> journal_record list \<Rightarrow> policy_view \<Rightarrow> store_error + policy_view" where
  "apply_all env [] vw = Inr vw"
| "apply_all env (r # rs) vw = and_then (apply_record env r vw) (apply_all env rs)"

lemma apply_all_snoc: "apply_all env (rs @ [r]) vw = and_then (apply_all env rs vw) (apply_record env r)"
  by (induction rs arbitrary: vw) (auto simp: and_then_def split: sum.splits)

lemma apply_all_keyed: "apply_all env rs vw = Inr vw' \<Longrightarrow> keyed vw \<Longrightarrow> keyed vw'"
  by (induction rs arbitrary: vw) (auto simp: result_simps dest: apply_record_keyed)

lemma replay_records_Inr:
  assumes "replay_records env rs seen st = (Inr u, st')"
  shows "chained env (mn_owner_user_ura (as_manifest st)) (as_head_hash st) rs \<and>
     as_head_hash st' = chain_end (as_head_hash st) rs \<and> apply_all env rs (as_view st) = Inr (as_view st') \<and>
     as_manifest st' = as_manifest st \<and> as_files st' = as_files st \<and>
     distinct (map jr_sequence rs) \<and> seen \<inter> jr_sequence ` set rs = {} \<and>
     as_last_sequence st \<le> as_last_sequence st' \<and> (\<forall>r \<in> set rs. jr_sequence r \<le> as_last_sequence st')"
  using assms
proof (induction rs arbitrary: seen st)
  case Nil
  then show ?case by (simp add: chain_end_def)
next
  case (Cons r rs)
  then obtain v st1 where r: "replay_record env r seen st = (Inr v, st1)"
    and rs: "replay_records env rs (insert (jr_sequence r) seen) st1 = (Inr u, st')"
    by (auto simp: store_simps)
  note head = replay_record_Inr [OF r]
  from Cons.IH [OF rs] head show ?case by (auto simp: chain_end_def)
qed

lemma load_manifest_files:
  assumes "load_manifest env ow st = (x, st')"
  shows "stored_records (as_files st') = stored_records (as_files st)"
    "readable_files (as_files st') = readable_files (as_files st)" "ended_files (as_files st') = ended_files (as_files st)"
  using assms by (auto simp: load_manifest_def now_rfc3339_def now_instant_def write_manifest_def write_file_def Let_def
      store_bind_def split: option.splits if_splits)

text \<open>A directory that opens is readable, and opening does not touch its journal.\<close>

lemma open_Inr:
  assumes "open_or_create_at env ow st0 = (Inr u, st)"
  shows "chained env ow ZERO_HASH (journal st)" "chain_end ZERO_HASH (journal st) = as_head_hash st"
    "apply_all env (journal st) empty_view = Inr (as_view st)" "keyed (as_view st)"
    "validate_all_resolution_authorities env (as_view st) = Inr ()"
    "readable_files (as_files st0)" "journal st = journal st0"
    "ended_files (as_files st0) \<Longrightarrow> journal_ok env ow st"
proof -
  from assms obtain m st1 st2 v rs where l: "load_manifest env ow st0 = (Inr m, st1)" and m: "mn_owner_user_ura m = ow"
    and c: "collect_records (as_files st1) = Inr rs"
    and r: "replay_records env (sort_key jr_sequence rs) {}
       (st1\<lparr>as_manifest := m, as_view := empty_view, as_last_sequence := 0, as_head_hash := ZERO_HASH\<rparr>) = (Inr v, st2)"
    and a: "validate_all_resolution_authorities env (as_view st2) = Inr ()"
    and w: "write_manifest env (st2\<lparr>as_manifest := (as_manifest st2)\<lparr>mn_head_hash := as_head_hash st2\<rparr>\<rparr>) = (Inr u, st)"
    by (auto simp: open_or_create_at_def replay_def store_simps result_simps validate_manifest_def)
  let ?st2 = "st2\<lparr>as_manifest := (as_manifest st2)\<lparr>mn_head_hash := as_head_hash st2\<rparr>\<rparr>"
  have same: "as_view st = as_view st2" "as_head_hash st = as_head_hash st2" "as_last_sequence st = as_last_sequence st2"
    "mn_owner_user_ura (as_manifest st) = mn_owner_user_ura (as_manifest st2)"
    "as_files st = put_manifest (as_manifest ?st2) (se_replace env (as_writes st2)) (as_files st2)"
    using write_manifest_contents [of env ?st2] w by simp_all
  from replay_records_Inr [OF r] have f: "as_files st2 = as_files st1" by simp
  from c have rs: "readable_files (as_files st1)" "rs = stored_records (as_files st1)"
    by (simp_all add: collect_records_eq split: if_splits)
  note f0 = load_manifest_files [OF l]
  from f same rs have j: "journal st = sort_key jr_sequence rs" by (simp add: journal_def)
  have sd: "sorted_wrt (<) xs" if "sorted xs" "distinct xs" for xs :: "nat list"
    using that by (simp add: strict_sorted_iff)
  from replay_records_Inr [OF r] m same show "chained env ow ZERO_HASH (journal st)"
    "chain_end ZERO_HASH (journal st) = as_head_hash st" by (simp_all add: j)
  with replay_records_Inr [OF r] m same f rs f0 show "journal_ok env ow st" if "ended_files (as_files st0)"
    using that by (auto simp: journal_ok_def j intro!: sd)
  from replay_records_Inr [OF r] same show *: "apply_all env (journal st) empty_view = Inr (as_view st)" by (simp add: j)
  show "keyed (as_view st)" using apply_all_keyed [OF *] by (simp add: keyed_def empty_view_def)
  from a same show "validate_all_resolution_authorities env (as_view st) = Inr ()" by simp
  from rs f0 show "readable_files (as_files st0)" by simp
  from j rs f0 show "journal st = journal st0" by (simp add: journal_def)
qed

lemma live_store_keyed: "live_store env ow st \<Longrightarrow> keyed (as_view st)"
proof (induction rule: live_store.induct)
  case (opened st0 st)
  then show ?case by (rule open_Inr)
next
  case (stepped st st')
  then show ?case using store_step_keyed by blast
qed

end
