(* ===== verification/AccessDemo.thy ===== *)
theory AccessDemo
  imports AccessJournal
begin

text \<open>
  A small policy store: one user, an environment with a constant clock and hash, and a once grant. The write
  outcomes are a parameter.
\<close>

definition demo_store_env :: "(nat \<Rightarrow> append_outcome) \<Rightarrow> (nat \<Rightarrow> replace_outcome) \<Rightarrow> store_env" where
  "demo_store_env ap rp =
     \<lparr>se_api = user_api, se_rfc = (\<lambda>s. if s = ''t0'' then Some 0 else if s = ''t1'' then Some 10 else None),
      se_now = (\<lambda>n. 0), se_fmt_millis = (\<lambda>t. ''t0''), se_fmt_secs = (\<lambda>t. ''t1''), se_sha256_value = (\<lambda>h. ''h''),
      se_append = ap, se_replace = rp\<rparr>"

abbreviation working_env :: store_env where
  "working_env \<equiv> demo_store_env (\<lambda>_. Appended) (\<lambda>_. Replaced)"

abbreviation empty_file :: journal_file where
  "empty_file \<equiv> \<lparr>jf_lines = [], jf_ended = True\<rparr>"

definition blank_store :: policy_store where
  "blank_store =
     \<lparr>as_manifest = \<lparr>mn_format = [], mn_schema_version = 0, mn_owner_user_ura = [], mn_created_at = [],
        mn_last_compacted_at = [], mn_head_hash = [], mn_record_profile = [], mn_hash_algorithm = []\<rparr>,
      as_view = empty_view, as_last_sequence = 0, as_head_hash = [],
      as_files = \<lparr>fl_manifest = None, fl_grants = empty_file,
        fl_requests = empty_file, fl_proofs = empty_file, fl_audit = empty_file\<rparr>,
      as_ticks = 0, as_writes = 0\<rparr>"

definition once_grant :: permission_grant where
  "once_grant =
     \<lparr>pg_grant_id = ''g1'', pg_owner_user_ura = ''user:a'', pg_principal_kind = PkToken, pg_principal_id = ''t'',
      pg_token_id = None, pg_token_class = None, pg_session_id = None, pg_session_expires_at = None,
      pg_callee_ura = Some ''user:a'', pg_subject_ura_pattern = Some ''user:a'', pg_ability_ura_pattern = Some ''chat'',
      pg_actions = [AInvoke], pg_constraints = None, pg_effect = EffAllow, pg_lifetime = GlOnce, pg_state = GsActive,
      pg_expires_at = None, pg_review_required_after = None, pg_last_reviewed_at = None, pg_last_used_at = None,
      pg_created_by = ''user:a'', pg_created_at = ''t0'', pg_updated_at = None, pg_revoked_at = None, pg_reason = None\<rparr>"

lemma demo_user_ok:
  "validate_runtime_identity_ura user_api ''user:a'' f = Inr ()"
  "validate_user_principal_ura user_api ''user:a'' f = Inr ()"
  by (simp_all add: validate_runtime_identity_ura_def validate_user_principal_ura_def validate_nonzero_user_id_def
      runtime_identity_parse_def demo_no_placeholder demo_proof_trims user_api_def)

lemma demo_store_env_fields:
  "se_api (demo_store_env ap rp) = user_api" "se_rfc (demo_store_env ap rp) ''t0'' = Some 0" "se_rfc (demo_store_env ap rp) ''t1'' = Some 10"
  "se_now (demo_store_env ap rp) n = 0" "se_fmt_millis (demo_store_env ap rp) t = ''t0''"
  "se_sha256_value (demo_store_env ap rp) h = ''h''" "se_append (demo_store_env ap rp) = ap" "se_replace (demo_store_env ap rp) = rp"
  by (simp_all add: demo_store_env_def)

lemma demo_manifest_ok:
  "validate_manifest user_api \<lparr>mn_format = STORE_FORMAT, mn_schema_version = SCHEMA_VERSION, mn_owner_user_ura = ''user:a'',
     mn_created_at = t, mn_last_compacted_at = t, mn_head_hash = h, mn_record_profile = RECORD_PROFILE,
     mn_hash_algorithm = ''sha256''\<rparr> ''user:a'' = Inr ()"
  by (simp add: validate_manifest_def demo_user_ok)

definition demo_manifest :: "string \<Rightarrow> manifest" where
  "demo_manifest h =
     \<lparr>mn_format = STORE_FORMAT, mn_schema_version = SCHEMA_VERSION, mn_owner_user_ura = ''user:a'', mn_created_at = ''t0'',
      mn_last_compacted_at = ''t0'', mn_head_hash = h, mn_record_profile = RECORD_PROFILE, mn_hash_algorithm = ''sha256''\<rparr>"

definition demo_opened :: policy_store where
  "demo_opened =
     \<lparr>as_manifest = demo_manifest ZERO_HASH, as_view = empty_view, as_last_sequence = 0, as_head_hash = ZERO_HASH,
      as_files = \<lparr>fl_manifest = Some (demo_manifest ZERO_HASH), fl_grants = empty_file,
        fl_requests = empty_file, fl_proofs = empty_file, fl_audit = empty_file\<rparr>,
      as_ticks = 1, as_writes = 2\<rparr>"

lemmas demo_eval = demo_user_ok demo_store_env_fields now_rfc3339_def now_instant_def write_manifest_def write_file_def
  append_jsonl_def append_line_def add_line_def put_manifest_def add_record_def Let_def empty_view_def demo_manifest_def

lemma demo_open:
  assumes "rp 0 = Replaced" "rp (Suc 0) = Replaced"
  shows "open_or_create_at (demo_store_env ap rp) ''user:a'' blank_store = (Inr (), demo_opened)"
  using assms
  by (simp add: open_or_create_at_def load_manifest_def replay_def blank_store_def demo_opened_def demo_manifest_ok demo_eval
      collect_records_def validate_all_resolution_authorities_def)

lemma demo_grant_ok: "validate_grant (demo_store_env ap rp) once_grant = Inr ()"
  by (simp add: validate_grant_def validate_grant_identity_def validate_grant_lifetime_def validate_session_fields_def
     validate_principal_id_for_kind_def placeholder_free_def reject_broad_pattern_def BROAD_PATTERNS_def
     reject_unenforceable_constraints_def rfc_or_absent_def once_grant_def demo_eval demo_no_placeholder trim_id
     trimmed_printable)

lemma once_grant_normal:
  "normalize_grant_for_create (demo_store_env ap rp) once_grant = Inr once_grant"
  "once_grant\<lparr>pg_state := GsActive\<rparr> = once_grant"
  by (simp_all add: normalize_grant_for_create_def once_grant_def)

lemma once_grant_fields:
  "pg_grant_id once_grant = ''g1''" "pg_lifetime once_grant = GlOnce" "pg_state once_grant = GsActive"
  "pg_last_used_at once_grant = None" "pg_owner_user_ura once_grant = ''user:a''" "pg_principal_id once_grant = ''t''"
  by (simp_all add: once_grant_def)

definition demo_created :: policy_store where
  "demo_created = snd (create_grant working_env once_grant ''user:a'' demo_opened)"

lemma demo_created_view:
  "vw_grants (as_view demo_created) = [(''g1'', once_grant)]" "vw_requests (as_view demo_created) = []"
  by (simp_all add: demo_created_def create_grant_def once_grant_normal demo_grant_ok find_equivalent_def demo_opened_def
      demo_eval audit_record_def commit_grant_def append_record_def put_grant_def put_audit_def once_grant_fields)

end
