(* ===== verification/AccessReplay.thy ===== *)
theory AccessReplay
  imports AccessChain AccessDemo
begin

text \<open>
  Restarting the policy store: when the directory a store leaves behind opens again, what comes back, and the
  histories after which it does not open.
\<close>

section \<open>What the directory says\<close>

definition writes_ok :: "store_env \<Rightarrow> bool" where
  "writes_ok env \<longleftrightarrow> (\<forall>n. se_append env n = Appended \<and> se_replace env n = Replaced)"

definition clock_ok :: "store_env \<Rightarrow> bool" where
  "clock_ok env \<longleftrightarrow> (\<forall>t. se_rfc env (se_fmt_millis env t) \<noteq> None)"

definition manifest_ok :: "store_env \<Rightarrow> string \<Rightarrow> policy_store \<Rightarrow> bool" where
  "manifest_ok env ow st \<longleftrightarrow>
     validate_manifest (se_api env) (as_manifest st) ow = Inr () \<and>
     (\<exists>m. fl_manifest (as_files st) = Some m \<and> validate_manifest (se_api env) m ow = Inr ())"

text \<open>Replaying the directory would give these maps.\<close>

definition logged :: "store_env \<Rightarrow> string \<Rightarrow> policy_view \<Rightarrow> policy_store \<Rightarrow> bool" where
  "logged env ow vw st \<longleftrightarrow>
     journal_ok env ow st \<and> manifest_ok env ow st \<and> apply_all env (journal st) empty_view = Inr vw"

definition view_ok :: "store_env \<Rightarrow> policy_view \<Rightarrow> bool" where
  "view_ok env vw \<longleftrightarrow>
     keyed vw \<and>
     (\<forall>k g. map_of (vw_grants vw) k = Some g \<longrightarrow>
        validate_grant env g = Inr () \<and> \<not> is_all_zero_principal_id (pg_principal_id g)) \<and>
     (\<forall>k p. map_of (vw_proofs vw) k = Some p \<longrightarrow> validate_authority_proof_identity (se_api env) p = Inr ())"

definition sound :: "store_env \<Rightarrow> string \<Rightarrow> policy_store \<Rightarrow> bool" where
  "sound env ow st \<longleftrightarrow> logged env ow (as_view st) st \<and> view_ok env (as_view st)"

lemma validate_manifest_stamps:
  "validate_manifest api (m\<lparr>mn_head_hash := h\<rparr>) ow = validate_manifest api m ow"
  "validate_manifest api (m\<lparr>mn_last_compacted_at := t\<rparr>) ow = validate_manifest api m ow"
  by (simp_all add: validate_manifest_def)

lemma append_refused:
  "\<not> actor_ok env actor \<Longrightarrow> \<exists>e. append_record env kind rid operation body actor st = (Inl e, st)"
  by (auto simp: append_record_def actor_ok_def split: sum.splits)

lemma append_logged:
  assumes "writes_ok env" "actor_ok env actor" "logged env ow vw st"
    and replays: "apply_record env (next_record env kind rid operation body actor st) vw = Inr vw'"
  obtains st' where "append_record env kind rid operation body actor st = (Inr (), st')" "as_view st' = as_view st"
    "logged env ow vw' st'" "as_last_sequence st' = as_last_sequence st + 1"
proof -
  obtain x st' where e: "append_record env kind rid operation body actor st = (x, st')" by fastforce
  then show ?thesis
  proof (cases rule: append_record_cases)
    case (written r)
    with assms(1) have x: "x = Inr ()" and f: "fl_manifest (as_files st') = Some (as_manifest st')"
      by (auto simp: writes_ok_def put_manifest_def)
    from assms(3) have "journal_ok env ow st" by (simp add: logged_def)
    from append_record_journal [OF e this] x written
    have "journal_ok env ow st'" "journal st' = journal st @ [next_record env kind rid operation body actor st]"
      by simp_all
    moreover from assms(3) written f have "manifest_ok env ow st'"
      by (auto simp: logged_def manifest_ok_def validate_manifest_stamps)
    ultimately have "logged env ow vw' st'"
      using assms(3) replays by (simp add: logged_def apply_all_snoc)
    with that e x written show ?thesis by blast
  qed (use assms in \<open>auto simp: writes_ok_def\<close>)
qed

lemma sound_contents: "sound env ow st \<Longrightarrow> same_contents st st' \<Longrightarrow> sound env ow st'"
  by (simp add: sound_def logged_def journal_ok_def journal_def manifest_ok_def same_contents_def)

lemma sound_check: "sound env ow st \<Longrightarrow> (\<And>x. c = Inr x \<Longrightarrow> sound env ow (snd (f x st))) \<Longrightarrow>
    sound env ow (snd (store_bind (c, st) f))"
  by (cases c) simp_all

lemma logged_view: "logged env ow vw (st\<lparr>as_view := v\<rparr>) = logged env ow vw st"
  by (simp add: logged_def journal_ok_def journal_def manifest_ok_def)

text \<open>The checks do not depend on the name of the field they report.\<close>

lemma runtime_identity_any_field:
  "validate_runtime_identity_ura api v f = Inr () \<Longrightarrow> validate_runtime_identity_ura api v f' = Inr ()"
  by (auto simp: validate_runtime_identity_ura_def result_simps split: sum.splits)

lemma user_principal_any_field:
  "validate_user_principal_ura api v f = Inr () \<Longrightarrow> validate_user_principal_ura api v f' = Inr ()"
  by (auto simp: validate_user_principal_ura_def validate_nonzero_user_id_def result_simps
      dest: runtime_identity_any_field split: sum.splits)

lemma validate_grant_owner:
  "validate_grant env g = Inr () \<Longrightarrow> validate_user_principal_ura (se_api env) (pg_owner_user_ura g) f = Inr ()"
  by (auto simp: validate_grant_def validate_grant_identity_def result_simps dest: user_principal_any_field)

section \<open>The operations keep the directory in step\<close>

definition replayable :: "store_env \<Rightarrow> policy_view \<Rightarrow> permission_grant \<Rightarrow> bool" where
  "replayable env vw g \<longleftrightarrow>
     validate_grant env g = Inr () \<and> \<not> is_all_zero_principal_id (pg_principal_id g) \<and>
     (case map_of (vw_grants vw) (pg_grant_id g) of
        None \<Rightarrow> True | Some e \<Rightarrow> \<not> (pg_state e = GsRevoked \<and> pg_state g = GsActive))"

definition audits :: "grant_audit \<Rightarrow> permission_grant \<Rightarrow> string \<Rightarrow> bool" where
  "audits a g actor \<longleftrightarrow>
     ga_owner_user_ura a = pg_owner_user_ura g \<and> ga_principal_id a = pg_principal_id g \<and> ga_actor_ura a = actor"

lemma audit_record_audits: "audit_record env g m actor h h' st = (a, st') \<Longrightarrow> audits a g actor"
  by (auto simp: audit_record_def audits_def Let_def split: prod.splits)

lemma apply_grant_record:
  assumes "replayable env vw g"
  shows "apply_record env (next_record env RkGrant rid operation (PGrant g) actor st) vw = Inr (put_grant g vw)"
  using assms by (auto simp: apply_record_def next_record_fields replayable_def split: option.splits)

lemma apply_audit_record:
  assumes "audits a g actor" "validate_grant env g = Inr ()" "\<not> is_all_zero_principal_id (pg_principal_id g)"
    "actor_ok env actor"
  shows "apply_record env (next_record env RkAudit rid operation (PAudit a) actor st) vw = Inr (put_audit a vw)"
  using assms validate_grant_owner [OF assms(2)] runtime_identity_any_field
  by (auto simp: apply_record_def next_record_fields audits_def actor_ok_def)

lemma apply_request_record:
  assumes "validate_request_transition env (map_of (vw_requests vw) (pr_request_id q)) q = Inr ()"
  shows "apply_record env (next_record env RkRequest rid operation (PRequest q) actor st) vw = Inr (put_request q vw)"
  using assms by (simp add: apply_record_def next_record_fields)

lemma view_ok_puts:
  "view_ok env vw \<Longrightarrow> replayable env vw g \<Longrightarrow> view_ok env (put_grant g vw)"
  "view_ok env vw \<Longrightarrow> view_ok env (put_audit a vw)"
  "view_ok env vw \<Longrightarrow> view_ok env (put_request q vw)"
  "view_ok env vw \<Longrightarrow> validate_authority_proof_identity (se_api env) p = Inr () \<Longrightarrow> view_ok env (put_proof p vw)"
  "view_ok env vw \<Longrightarrow> view_ok env (mark_consumed pid vw)"
  by (simp_all add: view_ok_def keyed_puts) (simp_all add: view_simps replayable_def)

lemma commit_grant_sound:
  assumes "writes_ok env" "sound env ow st" "replayable env (as_view st) g" "audits a g actor"
  shows "sound env ow (snd (commit_grant env g a operation actor st))"
proof (cases "actor_ok env actor")
  case False
  with append_refused [of env actor RkGrant "pg_grant_id g" operation "PGrant g" st] assms(2)
  show ?thesis by (auto simp: commit_grant_def)
next
  case True
  from assms(2) have "logged env ow (as_view st) st" by (simp add: sound_def)
  from append_logged [OF assms(1) True this apply_grant_record [OF assms(3)]]
  obtain st1 where 1: "append_record env RkGrant (pg_grant_id g) operation (PGrant g) actor st = (Inr (), st1)"
    "as_view st1 = as_view st" "logged env ow (put_grant g (as_view st)) st1" by blast
  from assms(3) have g: "validate_grant env g = Inr ()" "\<not> is_all_zero_principal_id (pg_principal_id g)"
    by (simp_all add: replayable_def)
  from append_logged [OF assms(1) True 1(3) apply_audit_record [OF assms(4) g True]]
  obtain st2 where 2: "append_record env RkAudit (ga_audit_record_id a) operation (PAudit a) actor st1 = (Inr (), st2)"
    "as_view st2 = as_view st1" "logged env ow (put_audit a (put_grant g (as_view st))) st2" by blast
  from 1 2 assms(2,3) show ?thesis
    by (simp add: commit_grant_def sound_def logged_view view_ok_puts)
qed

lemma normalize_grant_principal:
  "normalize_grant_for_create env g = Inr g' \<Longrightarrow> pg_principal_id g' = pg_principal_id g"
  by (auto simp: normalize_grant_for_create_def Let_def split: if_splits option.splits)

lemma audited_commit_sound:
  assumes "writes_ok env" "sound env ow st" "same_contents st st'" "replayable env (as_view st) g"
  shows "sound env ow (snd (case audit_record env g m actor h h' st' of (a, st) \<Rightarrow>
           store_bind (commit_grant env g a operation actor st) (\<lambda>_ st. (Inr (f a), st))))"
proof -
  obtain a st1 where a: "audit_record env g m actor h h' st' = (a, st1)" by fastforce
  from assms(3) audit_record_contents [OF a] have c: "same_contents st st1" by (simp add: same_contents_def)
  then have "as_view st1 = as_view st" by (simp add: same_contents_def)
  with commit_grant_sound [OF assms(1) sound_contents [OF assms(2) c] _ audit_record_audits [OF a], of operation] assms(4)
  have "sound env ow (snd (commit_grant env g a operation actor st1))" by simp
  moreover have "snd (store_bind r (\<lambda>_ st. (Inr (f a), st))) = snd r" for r :: "unit store_result"
    by (auto simp: store_bind_def split: prod.splits sum.splits)
  ultimately show ?thesis by (simp add: a)
qed

lemma create_grant_sound:
  assumes "writes_ok env" "sound env ow st" "\<not> is_all_zero_principal_id (pg_principal_id g)"
  shows "sound env ow (snd (create_grant env g actor st))"
  unfolding create_grant_def Let_def
proof (intro sound_check assms(2), goal_cases)
  case (1 g' u)
  then have g': "g'\<lparr>pg_state := GsActive\<rparr> = g'" using normalize_grant_state by fastforce
  have "replayable env (as_view st) g'" if "map_of (vw_grants (as_view st)) (pg_grant_id g') = None"
    using that 1 assms(3) by (simp add: replayable_def normalize_grant_principal)
  moreover have "same_contents st st" by (simp add: same_contents_def)
  ultimately show ?case
    unfolding g' using assms(1,2) by (auto intro!: audited_commit_sound split: option.split)
qed

lemma validate_grant_lifecycle:
  assumes "validate_grant env g = Inr ()" "state \<noteq> GsActive"
    "used = pg_last_used_at g \<or> rfc_or_absent (se_rfc env) used ''last_used_at'' = Inr ()"
  shows "validate_grant env (g\<lparr>pg_state := state, pg_last_used_at := used, pg_updated_at := u, pg_revoked_at := v,
           pg_reason := r\<rparr>) = Inr ()"
proof -
  let ?g = "g\<lparr>pg_state := state, pg_last_used_at := used, pg_updated_at := u, pg_revoked_at := v, pg_reason := r\<rparr>"
  have "validate_grant_identity env ?g = validate_grant_identity env g" by (simp add: validate_grant_identity_def)
  moreover have "validate_session_fields (se_rfc env) ?g t = validate_session_fields (se_rfc env) g t" for t
    by (simp add: validate_session_fields_def split: option.split)
  ultimately show ?thesis
    using assms by (auto simp: validate_grant_def validate_grant_lifetime_def result_simps split: option.splits)
qed

lemma grant_lifecycle_replayable:
  assumes "view_ok env vw" "map_of (vw_grants vw) gid = Some e" "state \<noteq> GsActive"
    "used = pg_last_used_at e \<or> rfc_or_absent (se_rfc env) used ''last_used_at'' = Inr ()"
  shows "replayable env vw (e\<lparr>pg_state := state, pg_last_used_at := used, pg_updated_at := u, pg_revoked_at := v,
           pg_reason := r\<rparr>)"
  using assms validate_grant_lifecycle [OF _ assms(3,4)] unfolding replayable_def view_ok_def keyed_def by simp

lemma revoke_grant_sound:
  assumes "writes_ok env" "sound env ow st"
  shows "sound env ow (snd (revoke_grant env gid ow' actor reason st))"
proof -
  have "replayable env (as_view st) (e\<lparr>pg_state := GsRevoked, pg_revoked_at := t, pg_updated_at := t, pg_reason := reason\<rparr>)"
    if "map_of (vw_grants (as_view st)) gid = Some e" for e t
    using grant_lifecycle_replayable [of env "as_view st" gid e GsRevoked "pg_last_used_at e" reason t t] that assms(2)
    by (cases e) (simp add: sound_def)
  moreover obtain now st1 where n: "now_rfc3339 env st = (now, st1)" by fastforce
  ultimately show ?thesis
    using assms now_rfc3339_contents [OF n]
    by (auto simp: revoke_grant_def Let_def n intro!: audited_commit_sound split: option.split)
qed

lemma consume_once_grant_sound:
  assumes "writes_ok env" "clock_ok env" "sound env ow st"
  shows "sound env ow (snd (consume_once_grant_if_applicable env gid actor st))"
proof -
  have "replayable env (as_view st) (e\<lparr>pg_state := GsExpired, pg_last_used_at := Some now, pg_updated_at := Some now\<rparr>)"
    if "map_of (vw_grants (as_view st)) gid = Some e" "now_rfc3339 env st = (now, st1)" for e now st1
  proof -
    from that(2) assms(2) have "rfc_or_absent (se_rfc env) (Some now) ''last_used_at'' = Inr ()"
      by (auto simp: now_rfc3339_def clock_ok_def rfc_or_absent_def ensure_def split: prod.splits)
    with grant_lifecycle_replayable [of env "as_view st" gid e GsExpired "Some now" "pg_reason e" "pg_revoked_at e" "Some now"]
      that(1) assms(3) show ?thesis by (cases e) (simp add: sound_def)
  qed
  moreover obtain now st1 where n: "now_rfc3339 env st = (now, st1)" by fastforce
  ultimately show ?thesis
    using assms now_rfc3339_contents [OF n]
    by (auto simp: consume_once_grant_if_applicable_def Let_def n intro!: audited_commit_sound split: option.split)
qed

lemma append_request_sound:
  assumes "writes_ok env" "sound env ow st"
    "validate_request_transition env (map_of (vw_requests (as_view st)) (pr_request_id q)) q = Inr ()"
  shows "sound env ow (snd (store_bind (append_record env RkRequest rid operation (PRequest q) actor st)
           (\<lambda>_ st. (Inr (f st), st\<lparr>as_view := put_request q (as_view st)\<rparr>))))"
proof (cases "actor_ok env actor")
  case False
  with append_refused [of env actor RkRequest rid operation "PRequest q" st] assms(2) show ?thesis by auto
next
  case True
  from assms(2) have "logged env ow (as_view st) st" by (simp add: sound_def)
  from append_logged [OF assms(1) True this apply_request_record [OF assms(3)], of rid operation]
  obtain st1 where "append_record env RkRequest rid operation (PRequest q) actor st = (Inr (), st1)"
    "as_view st1 = as_view st" "logged env ow (put_request q (as_view st)) st1" by blast
  with assms(2) show ?thesis by (simp add: sound_def logged_view view_ok_puts)
qed

lemma upsert_request_sound:
  assumes "writes_ok env" "sound env ow st" "map_of (vw_requests (as_view st)) (pr_request_id q) = None"
  shows "sound env ow (snd (upsert_permission_request env q actor st))"
  unfolding upsert_permission_request_def
proof (intro sound_check assms(2), goal_cases)
  case (1 u v)
  with assms show ?case by (auto intro!: append_request_sound split: option.split)
qed

lemma sound_pair:
  assumes "\<And>x st1. m = (x, st1) \<Longrightarrow> sound env ow (snd (f x st1))"
  shows "sound env ow (snd (case m of (x, st1) \<Rightarrow> f x st1))"
  using assms by (cases m) simp

lemma resolve_request_sound:
  assumes "writes_ok env" "sound env ow st"
  shows "sound env ow (snd (resolve_permission_request env q actor st))"
  unfolding resolve_permission_request_def Let_def
proof (intro sound_pair, goal_cases)
  case (1 q1 st1)
  then have "same_contents st st1"
    by (auto simp: same_contents_def dest!: normalize_terminal_contents split: if_splits)
  from sound_contents [OF assms(2) this] assms(1) show ?case by (intro sound_check append_request_sound) simp_all
qed

lemma with_grant_commit_sound:
  assumes "writes_ok env" "sound env ow st" "audits a g actor"
    "validate_request_transition env (map_of (vw_requests (as_view st)) (pr_request_id q)) q = Inr ()"
    "replayable env (as_view st) g"
  shows "sound env ow (snd (store_bind (append_record env RkRequest (pr_request_id q) operation (PRequest q) actor st) (\<lambda>_ st.
           store_bind (append_record env RkGrant (pg_grant_id g) OpCreated (PGrant g) actor st) (\<lambda>_ st.
           store_bind (append_record env RkAudit (ga_audit_record_id a) OpCreated (PAudit a) actor st) (\<lambda>_ st.
           (Inr y, st\<lparr>as_view := put_audit a (put_grant g (put_request q (as_view st)))\<rparr>))))))"
proof (cases "actor_ok env actor")
  case False
  with append_refused [of env actor RkRequest "pr_request_id q" operation "PRequest q" st] assms(2) show ?thesis by auto
next
  case True
  from assms(2) have "logged env ow (as_view st) st" by (simp add: sound_def)
  from append_logged [OF assms(1) True this apply_request_record [OF assms(4)], of "pr_request_id q" operation]
  obtain st1 where 1: "append_record env RkRequest (pr_request_id q) operation (PRequest q) actor st = (Inr (), st1)"
    "as_view st1 = as_view st" "logged env ow (put_request q (as_view st)) st1" by blast
  from assms(5) have g: "replayable env (put_request q (as_view st)) g" by (simp add: replayable_def put_request_def)
  from append_logged [OF assms(1) True 1(3) apply_grant_record [OF g], of "pg_grant_id g" OpCreated]
  obtain st2 where 2: "append_record env RkGrant (pg_grant_id g) OpCreated (PGrant g) actor st1 = (Inr (), st2)"
    "as_view st2 = as_view st1" "logged env ow (put_grant g (put_request q (as_view st))) st2" by blast
  from assms(5) have g': "validate_grant env g = Inr ()" "\<not> is_all_zero_principal_id (pg_principal_id g)"
    by (simp_all add: replayable_def)
  from append_logged [OF assms(1) True 2(3) apply_audit_record [OF assms(3) g' True], of "ga_audit_record_id a" OpCreated]
  obtain st3 where 3: "append_record env RkAudit (ga_audit_record_id a) OpCreated (PAudit a) actor st2 = (Inr (), st3)"
    "as_view st3 = as_view st2" "logged env ow (put_audit a (put_grant g (put_request q (as_view st)))) st3" by blast
  from 1 2 3 assms(2) g show ?thesis by (simp add: sound_def logged_view view_ok_puts)
qed

lemma resolve_with_grant_sound:
  assumes "writes_ok env" "sound env ow st" "\<not> is_all_zero_principal_id (pg_principal_id g)"
  shows "sound env ow (snd (resolve_permission_request_with_grant env q g actor st))"
  unfolding resolve_permission_request_with_grant_def
proof (intro sound_check assms(2) sound_pair, goal_cases)
  case (1 _ g1 _ _ _ q1 st1)
  then have s: "sound env ow st1" using sound_contents [OF assms(2)] normalize_terminal_contents by blast
  show ?case
    unfolding Let_def
  proof (intro sound_check s, goal_cases)
    case prems: (1 u v)
    show ?case
    proof (cases "find_equivalent env g1 (as_view st1)")
      case (Some e)
      with prems s assms(1) show ?thesis by (auto intro!: sound_check append_request_sound)
    next
      case None
      show ?thesis
      proof (cases "map_of (vw_grants (as_view st1)) (pg_grant_id g1) = None")
        case True
        with 1 prems assms(3) have g: "replayable env (as_view st1) g1"
          by (simp add: replayable_def normalize_grant_principal)
        obtain a st2 where a: "audit_record env g1 MutCreated actor ZERO_HASH (grant_hash env g1) st1 = (a, st2)"
          by fastforce
        note c = audit_record_contents [OF a]
        then have v: "as_view st2 = as_view st1" by (simp add: same_contents_def)
        from None True prems g show ?thesis
          by (simp add: a) (intro sound_check sound_contents [OF s c] with_grant_commit_sound assms(1)
              audit_record_audits [OF a]; simp add: v)
      qed (use None s in simp)
    qed
  qed
qed

lemma apply_new_proof_record:
  assumes "validate_authority_proof_identity (se_api env) p = Inr ()" "ap_proof_id p \<notin> vw_consumed vw"
  shows "apply_record env (next_record env RkProof rid OpCreated (PProof p) actor st) vw = Inr (put_proof p vw)"
  using assms by (simp add: apply_record_def apply_proof_def next_record_fields)

lemma with_proof_commit_sound:
  assumes "writes_ok env" "sound env ow st"
    "validate_request_transition env (map_of (vw_requests (as_view st)) (pr_request_id q)) q = Inr ()"
    "validate_authority_proof_identity (se_api env) p = Inr ()" "ap_proof_id p \<notin> vw_consumed (as_view st)"
  shows "sound env ow (snd (store_bind (append_record env RkRequest (pr_request_id q) operation (PRequest q) actor st) (\<lambda>_ st.
           store_bind (append_record env RkProof (ap_proof_id p) OpCreated (PProof p) actor st) (\<lambda>_ st.
           (Inr y, st\<lparr>as_view := put_proof p (put_request q (as_view st))\<rparr>)))))"
proof (cases "actor_ok env actor")
  case False
  with append_refused [of env actor RkRequest "pr_request_id q" operation "PRequest q" st] assms(2) show ?thesis by auto
next
  case True
  from assms(2) have "logged env ow (as_view st) st" by (simp add: sound_def)
  from append_logged [OF assms(1) True this apply_request_record [OF assms(3)], of "pr_request_id q" operation]
  obtain st1 where 1: "append_record env RkRequest (pr_request_id q) operation (PRequest q) actor st = (Inr (), st1)"
    "as_view st1 = as_view st" "logged env ow (put_request q (as_view st)) st1" by blast
  from assms(5) have "ap_proof_id p \<notin> vw_consumed (put_request q (as_view st))" by (simp add: put_request_def)
  from append_logged [OF assms(1) True 1(3) apply_new_proof_record [OF assms(4) this], of "ap_proof_id p"]
  obtain st2 where 2: "append_record env RkProof (ap_proof_id p) OpCreated (PProof p) actor st1 = (Inr (), st2)"
    "as_view st2 = as_view st1" "logged env ow (put_proof p (put_request q (as_view st))) st2" by blast
  from 1 2 assms(2,4) show ?thesis by (simp add: sound_def logged_view view_ok_puts)
qed

lemma resolve_with_proof_sound:
  assumes "writes_ok env" "sound env ow st"
  shows "sound env ow (snd (resolve_permission_request_with_authority_proof env q p actor st))"
  unfolding resolve_permission_request_with_authority_proof_def Let_def
proof (intro sound_check assms(2), rule sound_pair, goal_cases)
  case (1 _ _ _ _ _ q1 st1)
  then have s: "sound env ow st1" using sound_contents [OF assms(2)] normalize_terminal_contents by blast
  show ?case
  proof (intro sound_check s, goal_cases)
    case prems: (1 u v w operation)
    with 1 s assms(1) show ?case by (intro with_proof_commit_sound) (simp_all add: ensure_Inr_iff)
  qed
qed

lemma append_proof_sound:
  assumes "writes_ok env" "sound env ow st" "view_ok env (f (as_view st))"
    "\<And>st. apply_record env (next_record env RkProof rid operation (PProof p) actor st) (as_view st0) = Inr (f (as_view st0))"
    "as_view st0 = as_view st"
  shows "sound env ow (snd (store_bind (append_record env RkProof rid operation (PProof p) actor st)
           (\<lambda>_ st. (Inr p, st\<lparr>as_view := f (as_view st)\<rparr>))))"
proof (cases "actor_ok env actor")
  case False
  with append_refused [of env actor RkProof rid operation "PProof p" st] assms(2) show ?thesis by auto
next
  case True
  from assms(2,5) have "logged env ow (as_view st0) st" by (simp add: sound_def)
  from append_logged [OF assms(1) True this assms(4)]
  obtain st1 where "append_record env RkProof rid operation (PProof p) actor st = (Inr (), st1)"
    "as_view st1 = as_view st" "logged env ow (f (as_view st0)) st1" by blast
  with assms(3,5) show ?thesis by (simp add: sound_def logged_view)
qed

lemma put_authority_proof_sound:
  assumes "writes_ok env" "sound env ow st"
  shows "sound env ow (snd (put_authority_proof env p actor st))"
  unfolding put_authority_proof_def
proof (intro sound_check assms(2), goal_cases)
  case (1 u v w)
  with assms show ?case
    by (intro append_proof_sound [where st0 = st] apply_new_proof_record)
      (simp_all add: ensure_Inr_iff sound_def view_ok_puts)
qed

lemma consume_authority_proof_sound:
  assumes "writes_ok env" "sound env ow st"
  shows "sound env ow (snd (consume_authority_proof_once env pid actor st))"
proof (cases "map_of (vw_proofs (as_view st)) pid")
  case None
  with assms(2) show ?thesis by (simp add: consume_authority_proof_once_def)
next
  case (Some p)
  with assms(2) have p: "ap_proof_id p = pid" "validate_authority_proof_identity (se_api env) p = Inr ()"
    by (simp_all add: sound_def view_ok_def keyed_def)
  then have "apply_record env (next_record env RkProof pid OpConsumed (PProof p) actor st1) (as_view st) =
      Inr (mark_consumed pid (as_view st))" for st1
    using Some by (simp add: apply_record_def apply_proof_def next_record_fields)
  with assms Some show ?thesis
    by (auto simp: consume_authority_proof_once_def sound_def [of _ _ "st"]
        intro!: sound_check append_proof_sound [where st0 = st] view_ok_puts)
qed

lemma append_then_sound:
  assumes "writes_ok env" "sound env ow st"
    "apply_record env (next_record env kind rid operation body actor st) (as_view st) = Inr (as_view st)"
    "\<And>st'. sound env ow st' \<Longrightarrow> sound env ow (snd (f () st'))"
  shows "sound env ow (snd (store_bind (append_record env kind rid operation body actor st) f))"
proof (cases "actor_ok env actor")
  case False
  with append_refused [of env actor kind rid operation body st] assms(2) show ?thesis by auto
next
  case True
  from assms(2) have "logged env ow (as_view st) st" by (simp add: sound_def)
  from append_logged [OF assms(1) True this assms(3)]
  obtain st1 where "append_record env kind rid operation body actor st = (Inr (), st1)" "as_view st1 = as_view st"
    "logged env ow (as_view st) st1" by blast
  with assms(2,4) show ?thesis by (simp add: sound_def)
qed

lemma stamp_sound:
  assumes "sound env ow st"
  shows "sound env ow (snd (store_bind
           (write_manifest env (st\<lparr>as_manifest := (as_manifest st)\<lparr>mn_last_compacted_at := at\<rparr>\<rparr>)) (\<lambda>_ st. (Inr (f st), st))))"
proof -
  have "sound env ow (snd (write_manifest env (st\<lparr>as_manifest := (as_manifest st)\<lparr>mn_last_compacted_at := at\<rparr>\<rparr>)))"
    using assms by (auto simp: sound_def logged_def journal_ok_def journal_def manifest_ok_def
        write_manifest_contents put_manifest_def validate_manifest_stamps readable_files_def ended_files_def stored_records_def)
  moreover have "snd (store_bind r (\<lambda>_ st. (Inr (f st), st))) = snd r" for r :: "unit store_result"
    by (auto simp: store_bind_def split: prod.splits sum.splits)
  ultimately show ?thesis by simp
qed

lemma compact_sound:
  assumes "writes_ok env" "sound env ow st"
  shows "sound env ow (snd (compact env policy actor st))"
  unfolding compact_def Let_def
proof (intro sound_check assms(2), rule sound_pair, goal_cases)
  case (1 u now st1)
  then have "same_contents st st1" by (auto simp: now_instant_def same_contents_def)
  with assms(2) have s: "sound env ow st1" by (rule sound_contents)
  show ?case
    by (rule append_then_sound [OF assms(1) s _ stamp_sound]) (use 1 in \<open>simp_all add: apply_record_def next_record_fields\<close>)
qed

text \<open>Steps that keep the directory replayable: grants name a principal other than the placeholder, and a
  request is created under a new id.\<close>

inductive safe_step :: "store_env \<Rightarrow> policy_store \<Rightarrow> policy_store \<Rightarrow> bool" for env where
  create: "\<not> is_all_zero_principal_id (pg_principal_id g) \<Longrightarrow> safe_step env st (snd (create_grant env g actor st))"
| revoke: "safe_step env st (snd (revoke_grant env gid ow actor reason st))"
| consume_grant: "safe_step env st (snd (consume_once_grant_if_applicable env gid actor st))"
| upsert: "map_of (vw_requests (as_view st)) (pr_request_id q) = None \<Longrightarrow>
           safe_step env st (snd (upsert_permission_request env q actor st))"
| resolve: "safe_step env st (snd (resolve_permission_request env q actor st))"
| resolve_grant: "\<not> is_all_zero_principal_id (pg_principal_id g) \<Longrightarrow>
           safe_step env st (snd (resolve_permission_request_with_grant env q g actor st))"
| resolve_proof: "safe_step env st (snd (resolve_permission_request_with_authority_proof env q p actor st))"
| put_proof: "safe_step env st (snd (put_authority_proof env p actor st))"
| consume_proof: "safe_step env st (snd (consume_authority_proof_once env pid actor st))"
| compacting: "safe_step env st (snd (compact env policy actor st))"

lemma safe_step_sound:
  assumes "safe_step env st st'" "writes_ok env" "clock_ok env" "sound env ow st"
  shows "sound env ow st'"
  using assms
  by (cases rule: safe_step.cases)
    (simp_all add: create_grant_sound revoke_grant_sound consume_once_grant_sound upsert_request_sound
      resolve_request_sound resolve_with_grant_sound resolve_with_proof_sound put_authority_proof_sound
      consume_authority_proof_sound compact_sound)

lemma safe_run_sound:
  "(safe_step env)\<^sup>*\<^sup>* st st' \<Longrightarrow> writes_ok env \<Longrightarrow> clock_ok env \<Longrightarrow> sound env ow st \<Longrightarrow> sound env ow st'"
  by (induction rule: rtranclp_induct) (blast intro: safe_step_sound)+

section \<open>Opening again\<close>

lemma replay_records_succeed:
  assumes "chained env ow (as_head_hash st) rs" "apply_all env rs (as_view st) = Inr vw"
    "distinct (map jr_sequence rs)" "seen \<inter> jr_sequence ` set rs = {}" "mn_owner_user_ura (as_manifest st) = ow"
    "validate_user_principal_ura (se_api env) ow f = Inr ()"
  shows "\<exists>st'. replay_records env rs seen st = (Inr (), st') \<and> as_view st' = vw \<and>
     as_head_hash st' = chain_end (as_head_hash st) rs \<and> as_files st' = as_files st \<and> as_manifest st' = as_manifest st"
  using assms
proof (induction rs arbitrary: seen st)
  case Nil
  then show ?case by (simp add: chain_end_def)
next
  case (Cons r rs)
  from Cons.prems obtain vw1 where a: "apply_record env r (as_view st) = Inr vw1" "apply_all env rs vw1 = Inr vw"
    by (auto simp: result_simps)
  let ?st1 = "st\<lparr>as_last_sequence := max (as_last_sequence st) (jr_sequence r), as_head_hash := jr_record_hash r,
    as_view := vw1\<rparr>"
  from Cons.prems a user_principal_any_field [OF Cons.prems(6)] have r: "replay_record env r seen st = (Inr (), ?st1)"
    by (simp add: replay_record_def actor_ok_def Let_def ensure_def)
  have "\<exists>st'. replay_records env rs (insert (jr_sequence r) seen) ?st1 = (Inr (), st') \<and> as_view st' = vw \<and>
      as_head_hash st' = chain_end (as_head_hash ?st1) rs \<and> as_files st' = as_files ?st1 \<and>
      as_manifest st' = as_manifest ?st1"
    using Cons.prems a by (intro Cons.IH) auto
  with r show ?case by (auto simp: chain_end_def)
qed

text \<open>Whether a directory opens depends, once it is in step, only on the authority behind the approvals.\<close>

lemma open_sound:
  assumes "writes_ok env" "sound env ow st"
  shows "\<exists>st'. open_or_create_at env ow st =
     (and_then (validate_all_resolution_authorities env (as_view st)) (\<lambda>_. Inr ()), st') \<and>
     as_view st' = as_view st \<and> as_head_hash st' = as_head_hash st"
proof -
  from assms(2) obtain m where m: "fl_manifest (as_files st) = Some m" "validate_manifest (se_api env) m ow = Inr ()"
    by (auto simp: sound_def logged_def manifest_ok_def)
  then have ow: "validate_user_principal_ura (se_api env) ow f = Inr ()" "mn_owner_user_ura m = ow" for f
    by (auto simp: validate_manifest_def result_simps dest: user_principal_any_field)
  let ?st0 = "st\<lparr>as_manifest := m, as_view := empty_view, as_last_sequence := 0, as_head_hash := ZERO_HASH\<rparr>"
  from assms(2) have c: "collect_records (as_files st) = Inr (stored_records (as_files st))"
    by (simp add: sound_def logged_def journal_ok_def collect_records_eq)
  from assms(2) have j: "chained env ow ZERO_HASH (journal st)" "chain_end ZERO_HASH (journal st) = as_head_hash st"
    "sorted_wrt (<) (map jr_sequence (journal st))" "apply_all env (journal st) empty_view = Inr (as_view st)"
    by (simp_all add: sound_def logged_def journal_ok_def)
  have "distinct (map jr_sequence (journal st))" using j(3) by (simp add: strict_sorted_iff)
  then obtain st1 where r: "replay_records env (journal st) {} ?st0 = (Inr (), st1)" "as_view st1 = as_view st"
    "as_head_hash st1 = as_head_hash st"
    using replay_records_succeed [of env ow ?st0 "journal st" "as_view st" "{}"] j ow by auto
  show ?thesis
    using r c m ow assms(1)
    by (cases "validate_all_resolution_authorities env (as_view st)")
      (auto simp: open_or_create_at_def load_manifest_def replay_def journal_def write_manifest_def write_file_def Let_def
        writes_ok_def)
qed

lemma apply_record_valid:
  assumes "apply_record env r vw = Inr vw'"
    "\<forall>k g. map_of (vw_grants vw) k = Some g \<longrightarrow> validate_grant env g = Inr ()"
    "\<forall>k p. map_of (vw_proofs vw) k = Some p \<longrightarrow> validate_authority_proof_identity (se_api env) p = Inr ()"
  shows "\<forall>k g. map_of (vw_grants vw') k = Some g \<longrightarrow> validate_grant env g = Inr ()"
    "\<forall>k p. map_of (vw_proofs vw') k = Some p \<longrightarrow> validate_authority_proof_identity (se_api env) p = Inr ()"
  using assms by (auto simp: apply_record_def apply_proof_def result_simps view_simps
      split: record_kind.splits payload.splits record_operation.splits if_splits)

lemma apply_all_valid:
  assumes "apply_all env rs vw = Inr vw'"
    "\<forall>k g. map_of (vw_grants vw) k = Some g \<longrightarrow> validate_grant env g = Inr ()"
    "\<forall>k p. map_of (vw_proofs vw) k = Some p \<longrightarrow> validate_authority_proof_identity (se_api env) p = Inr ()"
  shows "(\<forall>k g. map_of (vw_grants vw') k = Some g \<longrightarrow> validate_grant env g = Inr ()) \<and>
     (\<forall>k p. map_of (vw_proofs vw') k = Some p \<longrightarrow> validate_authority_proof_identity (se_api env) p = Inr ())"
  using assms
proof (induction rs arbitrary: vw)
  case (Cons r rs)
  then obtain vw1 where "apply_record env r vw = Inr vw1" "apply_all env rs vw1 = Inr vw'" by (auto simp: result_simps)
  with Cons.IH apply_record_valid [of env r vw vw1] Cons.prems show ?case by blast
qed simp

lemma open_manifest_ok:
  assumes "open_or_create_at env ow st0 = (Inr (), st)"
  shows "manifest_ok env ow st"
proof -
  from assms obtain m st1 st2 v rs where m: "validate_manifest (se_api env) m ow = Inr ()"
    and r: "replay_records env rs {}
       (st1\<lparr>as_manifest := m, as_view := empty_view, as_last_sequence := 0, as_head_hash := ZERO_HASH\<rparr>) = (Inr v, st2)"
    and w: "write_manifest env (st2\<lparr>as_manifest := (as_manifest st2)\<lparr>mn_head_hash := as_head_hash st2\<rparr>\<rparr>) = (Inr (), st)"
    by (auto simp: open_or_create_at_def replay_def store_simps result_simps)
  from replay_records_Inr [OF r] w m show ?thesis
    by (auto simp: write_manifest_def write_file_def manifest_ok_def put_manifest_def validate_manifest_stamps split: if_splits)
qed

text \<open>Grants of these maps name a principal other than the placeholder.\<close>

definition real_principals :: "policy_view \<Rightarrow> bool" where
  "real_principals vw \<longleftrightarrow> (\<forall>(k, g) \<in> set (vw_grants vw). \<not> is_all_zero_principal_id (pg_principal_id g))"

lemma open_any_sound:
  assumes "open_or_create_at env ow st0 = (Inr (), st)" "ended_files (as_files st0)" "real_principals (as_view st)"
  shows "sound env ow st"
proof -
  note o = open_Inr [OF assms(1)]
  from apply_all_valid [OF o(3)] have
    "\<forall>k g. map_of (vw_grants (as_view st)) k = Some g \<longrightarrow> validate_grant env g = Inr ()"
    "\<forall>k p. map_of (vw_proofs (as_view st)) k = Some p \<longrightarrow> validate_authority_proof_identity (se_api env) p = Inr ()"
    by (simp_all add: empty_view_def)
  moreover have "\<not> is_all_zero_principal_id (pg_principal_id g)" if "map_of (vw_grants (as_view st)) k = Some g" for k g
    using map_of_SomeD [OF that] assms(3) by (auto simp: real_principals_def)
  ultimately have "view_ok env (as_view st)" using o(4) by (simp add: view_ok_def)
  with o(3) o(8) [OF assms(2)] open_manifest_ok [OF assms(1)] show ?thesis by (simp add: sound_def logged_def)
qed

section \<open>Properties\<close>



text \<open>C5: Revocation is final. After a successful revoke every later state of the store, whatever operations follow
  and whatever writes fail, still has exactly the revoked grant under that id, and it is active at no time.\<close>

theorem revocation_final:
  assumes "live_store env ow st" "revoke_grant env gid ow' actor reason st = (Inr g, st1)" "(store_step env)\<^sup>*\<^sup>* st1 st2"
  shows "map_of (vw_grants (as_view st2)) gid = Some g \<and> pg_state g = GsRevoked \<and> \<not> active_at (se_rfc env) g now"
proof -
  from assms(1) have k: "keyed (as_view st)" by (rule live_store_keyed)
  have "store_step env st st1" using store_step.revoke [of env st gid ow' actor reason] assms(2) by simp
  with k have k1: "keyed (as_view st1)" by (rule store_step_keyed [rotated])
  have "map_of (vw_grants (as_view st1)) gid = Some g \<and> pg_state g = GsRevoked"
    using assms(2) k
    by (auto simp: revoke_grant_def commit_grant_def store_simps Let_def put_grant_def put_audit_def map_of_btree_insert
        keyed_def split: option.splits if_splits prod.splits)
  moreover have "grants_ahead (as_view st1) (as_view st2)" using lives.run_R [OF assms(3) k1] by simp
  moreover have "g' = g" if "grant_ahead g g'" "pg_state g = GsRevoked" for g'
    using that by (cases "pg_state g'") (auto simp: grant_ahead_def)
  ultimately show ?thesis by (fastforce simp: grants_ahead_def active_at_def)
qed

text \<open>C6: Once means once. After a once grant or a one-time proof was consumed, no later state of the store, whatever
  operations follow and whatever writes fail, lets it be consumed again.\<close>

theorem single_use:
  assumes "live_store env ow st" "(store_step env)\<^sup>*\<^sup>* st1 st2"
  shows "(consume_once_grant_if_applicable env gid actor st = (Inr (Some g), st1) \<longrightarrow>
       fst (consume_once_grant_if_applicable env gid actor' st2) = Inl (UsageFault OnceNotActive)) \<and>
     (consume_authority_proof_once env pid actor st = (Inr p, st1) \<longrightarrow>
       fst (consume_authority_proof_once env pid actor' st2) = Inl (UsageFault ProofAlreadyConsumed))"
proof (intro conjI impI)
  from assms(1) have k: "keyed (as_view st)" by (rule live_store_keyed)
  show "fst (consume_once_grant_if_applicable env gid actor' st2) = Inl (UsageFault OnceNotActive)"
    if c: "consume_once_grant_if_applicable env gid actor st = (Inr (Some g), st1)"
  proof -
    have "store_step env st st1" using store_step.consume_grant [of env st gid actor] c by simp
    with k have k1: "keyed (as_view st1)" by (rule store_step_keyed [rotated])
    have "map_of (vw_grants (as_view st1)) gid = Some g \<and> pg_state g = GsExpired \<and> pg_lifetime g = GlOnce"
      using c k by (auto simp: consume_once_grant_if_applicable_def commit_grant_def store_simps Let_def put_grant_def
          put_audit_def map_of_btree_insert keyed_def split: option.splits if_splits prod.splits)
    moreover have "grants_ahead (as_view st1) (as_view st2)" using lives.run_R [OF assms(2) k1] by simp
    moreover have "pg_state g' \<noteq> GsActive \<and> pg_lifetime g' = pg_lifetime g" if "grant_ahead g g'" "pg_state g = GsExpired" for g'
    proof -
      have "pg_lifetime (grant_terms h) = pg_lifetime h" for h by (simp add: grant_terms_def)
      with that show ?thesis by (metis grant_ahead_def grant_state.distinct(1) not_less_zero state_rank.simps(1))
    qed
    ultimately show ?thesis by (fastforce simp: grants_ahead_def consume_once_grant_if_applicable_def)
  qed
  show "fst (consume_authority_proof_once env pid actor' st2) = Inl (UsageFault ProofAlreadyConsumed)"
    if c: "consume_authority_proof_once env pid actor st = (Inr p, st1)"
  proof -
    have "store_step env st st1" using store_step.consume_proof [of env st pid actor] c by simp
    with k have k1: "keyed (as_view st1)" by (rule store_step_keyed [rotated])
    have "map_of (vw_proofs (as_view st1)) pid = Some p \<and> pid \<in> vw_consumed (as_view st1) \<and> is_one_time_authority_proof p"
      using c by (auto simp: consume_authority_proof_once_def store_simps mark_consumed_def ensure_Inr_iff
          dest: append_record_view split: option.splits)
    moreover have "proofs_ahead (as_view st1) (as_view st2)" using uses.run_R [OF assms(2) k1] by simp
    ultimately have "map_of (vw_proofs (as_view st2)) pid = Some p" "pid \<in> vw_consumed (as_view st2)"
        "is_one_time_authority_proof p"
      by (auto simp: proofs_ahead_def map_le_def dom_def)
    then show ?thesis by (simp add: consume_authority_proof_once_def)
  qed
qed

text \<open>C8: The head pins the journal. Two chained journals of an owner that end in the same head are equal, as long as
  the hash separates their records and gives none of them the zero hash: no record can be changed, dropped,
  inserted or reordered without changing the head.\<close>

theorem head_pins_journal:
  assumes "chained env ow ZERO_HASH js" "chained env ow ZERO_HASH js'"
    and "chain_end ZERO_HASH js = chain_end ZERO_HASH js'"
    and "inj_on (se_sha256_value env) (HRecord ` (\<lambda>r. r\<lparr>jr_record_hash := []\<rparr>) ` (set js \<union> set js'))"
    and "\<forall>r \<in> set js \<union> set js'. jr_record_hash r \<noteq> ZERO_HASH"
  shows "js = js'"
  using assms
proof (induction js arbitrary: js' rule: rev_induct)
  case Nil
  show ?case
    by (cases js' rule: rev_cases) (use Nil.prems(3,5) in \<open>auto simp: chain_end_def\<close>)
next
  case (snoc r rs)
  obtain rs' r' where js': "js' = rs' @ [r']"
    by (cases js' rule: rev_cases) (use snoc.prems(3,5) in \<open>auto simp: chain_end_def\<close>)
  with snoc.prems(3) have h: "jr_record_hash r = jr_record_hash r'" by (simp add: chain_end_def)
  from snoc.prems(1,2) js' have c: "compute_record_hash env r = compute_record_hash env r'"
    by (simp add: chained_snoc h)
  have "HRecord (r\<lparr>jr_record_hash := []\<rparr>) = HRecord (r'\<lparr>jr_record_hash := []\<rparr>)"
    by (rule inj_onD [OF snoc.prems(4)]) (use c js' in \<open>auto simp: compute_record_hash_def\<close>)
  with h have r: "r = r'" by (cases r; cases r') simp
  moreover have "rs = rs'"
  proof (rule snoc.IH)
    show "inj_on (se_sha256_value env) (HRecord ` (\<lambda>r. r\<lparr>jr_record_hash := []\<rparr>) ` (set rs \<union> set rs'))"
      by (rule inj_on_subset [OF snoc.prems(4)]) (auto simp: js')
  qed (use snoc.prems(1-3,5) js' r in \<open>auto simp: chained_snoc\<close>)
  ultimately show ?case by (simp add: js')
qed

section \<open>Examples\<close>

lemma demo_writes_ok: "writes_ok working_env" "clock_ok (demo_store_env ap rp)"
  by (simp_all add: writes_ok_def clock_ok_def demo_store_env_def)

lemma demo_nonzero: "\<not> is_all_zero_principal_id ''t''"
  by (simp add: is_all_zero_principal_id_def ALL_ZERO_PRINCIPAL_ID_def eq_ignore_ascii_case_def to_ascii_lowercase_def
      trim_id trimmed_printable)

lemma demo_created_safe: "(safe_step working_env)\<^sup>*\<^sup>* demo_opened demo_created"
  unfolding demo_created_def
  by (rule r_into_rtranclp, rule safe_step.create) (simp add: once_grant_fields demo_nonzero)

lemma demo_created_live: "live_store working_env ''user:a'' demo_created"
  unfolding demo_created_def
  by (rule live_store.stepped [OF live_store.opened [OF demo_open] store_step.create]) simp_all



theorem revocation_final_witness:
  "\<exists>g st1. revoke_grant working_env ''g1'' ''user:a'' ''user:a'' None demo_created = (Inr g, st1) \<and>
     map_of (vw_grants (as_view st1)) ''g1'' = Some g \<and> \<not> active_at (se_rfc working_env) g 5"
proof -
  obtain g st1 where r: "revoke_grant working_env ''g1'' ''user:a'' ''user:a'' None demo_created = (Inr g, st1)"
    by (simp add: revoke_grant_def demo_created_view once_grant_fields demo_eval audit_record_def commit_grant_def
        append_record_def)
  with revocation_final [OF demo_created_live r rtranclp.rtrancl_refl, of 5] show ?thesis by blast
qed

theorem single_use_witness:
  "\<exists>g st1. consume_once_grant_if_applicable working_env ''g1'' ''user:a'' demo_created = (Inr (Some g), st1) \<and>
     fst (consume_once_grant_if_applicable working_env ''g1'' ''user:a'' st1) = Inl (UsageFault OnceNotActive)"
proof -
  obtain g st1 where c: "consume_once_grant_if_applicable working_env ''g1'' ''user:a'' demo_created =
      (Inr (Some g), st1)"
    by (simp add: consume_once_grant_if_applicable_def demo_created_view once_grant_fields demo_eval audit_record_def
        commit_grant_def append_record_def)
  with single_use [OF demo_created_live rtranclp.rtrancl_refl] show ?thesis by blast
qed

definition demo_record :: journal_record where
  "demo_record = next_record working_env RkGrant ''g1'' OpCreated (PGrant once_grant) ''user:a'' demo_opened"

theorem head_pins_journal_witness:
  "chained working_env ''user:a'' ZERO_HASH [demo_record] \<and> jr_record_hash demo_record \<noteq> ZERO_HASH \<and>
     [demo_record] = [demo_record\<lparr>jr_record_hash := compute_record_hash working_env demo_record\<rparr>]"
proof -
  let ?env = "working_env"
  let ?r = "demo_record\<lparr>jr_record_hash := compute_record_hash ?env demo_record\<rparr>"
  have c: "chained ?env ''user:a'' ZERO_HASH [demo_record]"
    by (simp add: demo_record_def next_record_fields demo_opened_def demo_manifest_def actor_ok_def demo_eval)
  have c': "chained ?env ''user:a'' ZERO_HASH [?r]" using c by (simp add: compute_record_hash_def)
  have z: "jr_record_hash demo_record \<noteq> ZERO_HASH" "jr_record_hash ?r \<noteq> ZERO_HASH"
    by (simp_all add: demo_record_def next_record_def compute_record_hash_def demo_eval ZERO_HASH_def)
  have "[demo_record] = [?r]"
    by (rule head_pins_journal [OF c c']) (use c z in \<open>simp_all add: chain_end_def inj_on_def\<close>)
  with c z show ?thesis by blast
qed

end
