(* ===== verification/AccessFaults.thy ===== *)
theory AccessFaults
  imports AccessReplay
begin

text \<open>
  Histories of the policy store that its own checks accept and its replay refuses, and a grant request that is
  answered with the grant of another session.
\<close>

section \<open>Refused directories\<close>

definition refuses_to_open :: "store_env \<Rightarrow> string \<Rightarrow> policy_store \<Rightarrow> bool" where
  "refuses_to_open env ow st \<longleftrightarrow> (case open_or_create_at env ow st of (Inl _, _) \<Rightarrow> True | (Inr _, _) \<Rightarrow> False)"

lemma refuses_unreplayable:
  assumes "apply_all env (journal st) empty_view = Inl e"
  shows "refuses_to_open env ow st"
proof (rule ccontr)
  assume "\<not> refuses_to_open env ow st"
  then obtain u st' where o: "open_or_create_at env ow st = (Inr u, st')"
    by (auto simp: refuses_to_open_def split: prod.splits sum.splits)
  from open_Inr(3,7) [OF o] assms show False by simp
qed

lemma refuses_unauthorized:
  assumes "writes_ok env" "sound env ow st" "map_of (vw_requests (as_view st)) k = Some q"
    "validate_resolution_authority env (as_view st) q \<noteq> Inr ()"
  shows "refuses_to_open env ow st"
proof -
  have "(k, q) \<in> set (vw_requests (as_view st))" using assms(3) by (rule map_of_SomeD)
  with assms(4) have "validate_all_resolution_authorities env (as_view st) \<noteq> Inr ()"
    by (auto simp: validate_all_resolution_authorities_def result_simps list_all2_conv_all_nth in_set_conv_nth)
  then obtain e where "validate_all_resolution_authorities env (as_view st) = Inl e"
    by (cases "validate_all_resolution_authorities env (as_view st)") auto
  with open_sound [OF assms(1,2)] show ?thesis by (auto simp: refuses_to_open_def split: sum.splits)
qed

section \<open>Revoking the grant of an approval\<close>

lemma store_bindE:
  assumes "store_bind r f = (Inr y, st')"
  obtains x st1 where "r = (Inr x, st1)" "f x st1 = (Inr y, st')"
  using assms by (auto simp: store_simps)

lemma store_checkE:
  assumes "store_bind (c, st) f = (Inr y, st')"
  obtains x where "c = Inr x" "f x st = (Inr y, st')"
  using assms by (auto simp: store_simps)

lemma normalize_terminal_fields:
  assumes "normalize_terminal_resolution_fields env q actor st = (q', st')"
  shows "pr_created_grant_id q' = pr_created_grant_id q" "pr_authority_proof_id q' = pr_authority_proof_id q"
  using assms by (auto simp: normalize_terminal_resolution_fields_def Let_def split: prod.splits if_splits)

lemma resolve_with_grant_Inr:
  assumes "resolve_permission_request_with_grant env q g actor st = (Inr res, st1)"
  obtains g1 where "rr_created_grant res = Some g1" "pr_status (rr_request res) = RqApproved"
    "pr_created_grant_id (rr_request res) = Some (pg_grant_id g1)" "pr_authority_proof_id (rr_request res) = None"
    "map_of (vw_requests (as_view st1)) (pr_request_id (rr_request res)) = Some (rr_request res)"
  using assms unfolding resolve_permission_request_with_grant_def
proof (elim store_checkE, goal_cases)
  case (1 u1 g' u2 u3 u4)
  obtain q1 st' where n: "normalize_terminal_resolution_fields env
      (q\<lparr>pr_created_grant_id := Some (pg_grant_id g'), pr_authority_proof_id := None\<rparr>) actor st = (q1, st')"
    by fastforce
  from 1 have q: "pr_status q = RqApproved" by (simp add: ensure_Inr_iff)
  have "rr_request res = q1 \<and> map_of (vw_requests (as_view st1)) (pr_request_id q1) = Some q1 \<and>
      (\<exists>e. rr_created_grant res = Some e \<and> pr_created_grant_id q1 = Some (pg_grant_id e))"
  proof (cases "find_equivalent env g' (as_view st')")
    case (Some e)
    from 1(7) show ?thesis
      by (auto simp: n Some Let_def ensure_Inr_iff put_request_def map_of_btree_insert elim!: store_bindE)
  next
    case None
    from 1(7) show ?thesis
      by (auto simp: n None Let_def put_request_def put_grant_def put_audit_def map_of_btree_insert
          normalize_terminal_fields [OF n] elim!: store_bindE split: if_splits prod.splits)
  qed
  with 1(1) q normalize_terminal_fields [OF n] normalize_terminal_status [OF n] show ?case by auto
qed

lemma revoke_grant_view:
  assumes "revoke_grant env gid ow actor reason st = (Inr g, st')" "keyed (as_view st)"
  shows "vw_requests (as_view st') = vw_requests (as_view st)" "map_of (vw_grants (as_view st')) gid = Some g"
    "pg_state g = GsRevoked"
  using assms
  by (auto simp: revoke_grant_def commit_grant_def store_simps Let_def put_grant_def put_audit_def map_of_btree_insert
      keyed_def same_contents_def dest!: append_record_view now_rfc3339_contents audit_record_contents
      split: option.splits if_splits prod.splits)

text \<open>A request is approved with a grant and the grant is then revoked, both successfully: the directory no longer
  opens, because replay wants the grant of every approved request to be active still.\<close>

theorem revoked_approval_refuses_to_open:
  assumes "writes_ok env" "sound env ow st" "\<not> is_all_zero_principal_id (pg_principal_id g)"
    and "resolve_permission_request_with_grant env q g actor st = (Inr res, st1)" "rr_created_grant res = Some g1"
    and "revoke_grant env (pg_grant_id g1) ow' actor' reason st1 = (Inr g2, st2)"
  shows "refuses_to_open env ow st2"
proof -
  have s1: "sound env ow st1" using resolve_with_grant_sound [OF assms(1-3), of q actor] assms(4) by simp
  have s2: "sound env ow st2"
    using revoke_grant_sound [OF assms(1) s1, of "pg_grant_id g1" ow' actor' reason] assms(6) by simp
  have k: "keyed (as_view st1)" using s1 by (simp add: sound_def view_ok_def)
  from resolve_with_grant_Inr [OF assms(4)] assms(5)
  have q: "pr_status (rr_request res) = RqApproved" "pr_created_grant_id (rr_request res) = Some (pg_grant_id g1)"
    "pr_authority_proof_id (rr_request res) = None"
    "map_of (vw_requests (as_view st1)) (pr_request_id (rr_request res)) = Some (rr_request res)"
    by (metis option.inject)+
  note v = revoke_grant_view [OF assms(6) k]
  have "validate_resolution_authority env (as_view st2) (rr_request res) \<noteq> Inr ()"
    using q v by (auto simp: validate_resolution_authority_def validate_grant_resolves_request_def result_simps)
  with refuses_unauthorized [OF assms(1) s2] v(1) q(4) show ?thesis by simp
qed

section \<open>Creating a request under the id of a closed one\<close>

lemma unlogged_append:
  assumes "logged env ow vw st" "append_record env kind rid operation body actor st = (Inr (), st')"
    and "apply_record env (next_record env kind rid operation body actor st) vw = Inl e"
  shows "apply_all env (journal st') empty_view = Inl e"
proof -
  from assms(1) have "journal_ok env ow st" "apply_all env (journal st) empty_view = Inr vw"
    by (simp_all add: logged_def)
  with append_record_journal(2) [OF assms(2)] assms(3) show ?thesis by (simp add: apply_all_snoc)
qed

text \<open>Creating a request under the id of one that was already decided is accepted: the decided request becomes
  pending again, and the directory no longer opens.\<close>

theorem closed_request_reopens:
  assumes "writes_ok env" "sound env ow st"
    and "map_of (vw_requests (as_view st)) (pr_request_id q) = Some old" "status_is_terminal (pr_status old)"
    and "upsert_permission_request env q actor st = (Inr q, st1)" "as_files st1 \<noteq> as_files st"
  shows "map_of (vw_requests (as_view st1)) (pr_request_id q) = Some q \<and> pr_status q = RqPending \<and>
     refuses_to_open env ow st1"
proof -
  from assms(5,6) obtain st2 where p: "pr_status q = RqPending"
    and a: "append_record env RkRequest (pr_request_id q) OpCreated (PRequest q) actor st = (Inr (), st2)"
    and st1: "st1 = st2\<lparr>as_view := put_request q (as_view st2)\<rparr>"
    by (auto simp: upsert_permission_request_def store_simps ensure_Inr_iff split: option.splits)
  have "request_transition_operation (Some old) q = Inl (RequestFault (RequestTerminal (pr_status old) RqPending))"
    using assms(4) p by (auto simp: request_transition_operation_def)
  then have "validate_request_transition env (Some old) q \<noteq> Inr u" for u
    by (auto simp: validate_request_transition_def result_simps)
  then obtain e where "validate_request_transition env (Some old) q = Inl e"
    by (cases "validate_request_transition env (Some old) q") auto
  then have "apply_record env (next_record env RkRequest (pr_request_id q) OpCreated (PRequest q) actor st) (as_view st) = Inl e"
    using assms(3) by (simp add: apply_record_def next_record_fields)
  from unlogged_append [OF _ a this] assms(2) have "apply_all env (journal st1) empty_view = Inl e"
    by (auto simp: sound_def st1 journal_def)
  with refuses_unreplayable p show ?thesis by (simp add: st1 put_request_def map_of_btree_insert)
qed

section \<open>A placeholder as token principal\<close>

text \<open>A grant for a principal that is neither user nor agent may name the all-zero placeholder. It is stored, and
  the directory no longer opens, because replay refuses the placeholder in the grant's audit record.\<close>

theorem placeholder_principal_refuses_to_open:
  assumes "writes_ok env" "sound env ow st" "is_all_zero_principal_id (pg_principal_id g)"
    and "create_grant env g actor st = (Inr res, st1)" "\<not> gr_idempotent_replay res"
  shows "refuses_to_open env ow st1"
  using assms(4) unfolding create_grant_def Let_def
proof (elim store_checkE, goal_cases)
  case (1 g' u)
  then have g': "g'\<lparr>pg_state := GsActive\<rparr> = g'" using normalize_grant_state by fastforce
  have zero: "is_all_zero_principal_id (pg_principal_id g')" using 1 assms(3) by (simp add: normalize_grant_principal)
  obtain a st2 where a: "audit_record env g' MutCreated actor ZERO_HASH (grant_hash env g') st = (a, st2)" by fastforce
  from 1(3) assms(5) obtain v where fresh: "map_of (vw_grants (as_view st)) (pg_grant_id g') = None"
    and c: "commit_grant env g' a OpCreated actor st2 = (Inr v, st1)"
    by (auto simp: g' a store_simps split: option.splits if_splits)
  from sound_contents [OF assms(2) audit_record_contents [OF a]] audit_record_contents [OF a]
  have l: "logged env ow (as_view st) st2" by (simp add: sound_def same_contents_def)
  from c obtain w x st3 st4 where 1: "append_record env RkGrant (pg_grant_id g') OpCreated (PGrant g') actor st2 = (Inr w, st3)"
    and 2: "append_record env RkAudit (ga_audit_record_id a) OpCreated (PAudit a) actor st3 = (Inr x, st4)"
    and st1: "as_files st1 = as_files st4"
    unfolding commit_grant_def by (auto simp: store_simps)
  have "actor_ok env actor" using 1 append_refused [of env actor RkGrant "pg_grant_id g'" OpCreated "PGrant g'" st2] by fastforce
  moreover have "apply_record env (next_record env RkGrant (pg_grant_id g') OpCreated (PGrant g') actor st2) (as_view st) =
      Inr (put_grant g' (as_view st))"
    using fresh \<open>validate_grant env g' = Inr u\<close> by (simp add: apply_record_def next_record_fields)
  ultimately have "logged env ow (put_grant g' (as_view st)) st3"
    using append_logged [OF assms(1) _ l] 1 by (metis Pair_inject)
  moreover have "\<exists>e. apply_record env (next_record env RkAudit (ga_audit_record_id a) OpCreated (PAudit a) actor st3) vw = Inl e" for vw
    using zero audit_record_audits [OF a]
    by (cases "validate_user_principal_ura (se_api env) (ga_owner_user_ura a) ''policy audit owner_user_id''")
      (auto simp: apply_record_def next_record_fields audits_def)
  ultimately obtain e where "apply_all env (journal st4) empty_view = Inl e"
    using unlogged_append 2 by (metis (full_types) old.unit.exhaust)
  then show ?case by (intro refuses_unreplayable) (simp add: journal_def st1)
qed

section \<open>Appends that fail half way\<close>

lemma append_line_garbled:
  assumes "Garbled \<in> set (jf_lines f) \<or> outcome = Torn \<or> \<not> jf_ended f \<and> outcome \<noteq> NotAppended"
  shows "Garbled \<in> set (jf_lines (append_line r outcome f))"
  using assms by (auto simp: append_line_def add_line_def split: append_outcome.splits)

lemma add_record_garbled:
  assumes "\<not> readable_files fs \<or> outcome = Torn \<or> \<not> jf_ended (file_of kind fs) \<and> outcome \<noteq> NotAppended"
  shows "\<not> readable_files (add_record kind r outcome fs)"
  using assms append_line_garbled [of _ outcome r]
  by (cases kind) (auto simp: readable_files_def add_record_def)

lemma refuses_forked:
  assumes "\<not> readable_files (as_files st) \<or> (\<exists>js r r'. journal st = js @ [r, r'] \<and> jr_previous_record_hash r' \<noteq> jr_record_hash r)"
  shows "refuses_to_open env ow st"
proof (rule ccontr)
  assume "\<not> refuses_to_open env ow st"
  then obtain u st' where o: "open_or_create_at env ow st = (Inr u, st')"
    by (auto simp: refuses_to_open_def split: prod.splits sum.splits)
  have "\<not> chained env ow h (js @ [r, r'])" if "jr_previous_record_hash r' \<noteq> jr_record_hash r" for h js r r'
    using that chained_snoc [of env ow h "js @ [r]" r'] by (simp add: chain_end_def)
  with open_Inr(1,6,7) [OF o] assms show False by auto
qed

text \<open>C40: A failed append is not taken back. Let the append of a record to an intact journal fail half way: the record is
  cut short, its newline is missing or the sync fails. The operation reports the error, and the line or a part of it
  stays in the file. The head stays where it was, and the next record that is stored continues from the old head or runs into
  the unfinished line. Unless the lost record has the hash of the old head, the directory no longer opens.\<close>

theorem failed_append_refuses_to_open:
  assumes "journal_ok env ow st" "se_append env (as_writes st) \<notin> {Appended, NotAppended}"
    and "actor_ok env actor" "append_record env kind rid operation body actor st = (x, st1)"
    and "jr_record_hash (next_record env kind rid operation body actor st) \<noteq> as_head_hash st"
    and "append_record env kind' rid' operation' body' actor' st1 = (Inr (), st2)"
  shows "x = Inl WriteFailed \<and> as_head_hash st1 = as_head_hash st \<and> refuses_to_open env ow st2"
  using assms(4)
proof (cases rule: append_record_cases)
  case (unwritten r)
  let ?o = "se_append env (as_writes st)"
  from assms(1) have ended: "ended_files (as_files st)" by (simp add: journal_ok_def)
  from assms(6) have "\<not> readable_files (as_files st2) \<or>
      (\<exists>js r r'. journal st2 = js @ [r, r'] \<and> jr_previous_record_hash r' \<noteq> jr_record_hash r)"
  proof (cases rule: append_record_cases)
    case (written r')
    have files: "readable_files (as_files st2) = readable_files (add_record kind' r' Appended (as_files st1))"
      using written by simp
    show ?thesis
    proof (cases "?o = Torn \<or> \<not> jf_ended (file_of kind' (as_files st1))")
      case True
      then show ?thesis using unwritten add_record_garbled files by (metis append_outcome.distinct(1))
    next
      case False
      with assms(2) have o: "?o \<in> {Appended, Unterminated, Unsynced}" by (cases ?o) simp_all
      have 1: "journal st1 = journal st @ [r]"
        by (rule journal_append [OF _ _ ended_file_of [OF ended] o, where kind = kind])
          (use next_record_newest [OF assms(1)] unwritten in simp_all)
      have "\<forall>r' \<in> set (journal st1). jr_sequence r' \<le> as_last_sequence st + 1"
        using assms(1) unwritten by (auto simp: 1 journal_ok_def next_record_fields le_SucI)
      then have 2: "journal st2 = journal st1 @ [r']"
        using written unwritten False
        by (intro journal_append [where outcome = Appended and kind = kind']) (auto simp: next_record_fields)
      show ?thesis
        using 1 2 written unwritten assms(5) by (auto simp: next_record_fields)
    qed
  qed simp_all
  with unwritten refuses_forked show ?thesis by simp
qed (use assms(2,3) in simp_all)

text \<open>The sync of the grant's record fails, and the caller tries again.\<close>

theorem failed_append_refuses_to_open_witness:
  "let env = demo_store_env (\<lambda>n. if n = 2 then Unsynced else Appended) (\<lambda>_. Replaced);
       st1 = snd (append_record env RkGrant ''g1'' OpCreated (PGrant once_grant) ''user:a'' demo_opened);
       st2 = snd (append_record env RkGrant ''g1'' OpCreated (PGrant once_grant) ''user:a'' st1)
   in refuses_to_open env ''user:a'' st2"
proof -
  let ?env = "demo_store_env (\<lambda>n. if n = 2 then Unsynced else Appended) (\<lambda>_. Replaced)"
  let ?st1 = "snd (append_record ?env RkGrant ''g1'' OpCreated (PGrant once_grant) ''user:a'' demo_opened)"
  let ?st2 = "snd (append_record ?env RkGrant ''g1'' OpCreated (PGrant once_grant) ''user:a'' ?st1)"
  have o: "open_or_create_at ?env ''user:a'' blank_store = (Inr (), demo_opened)" by (rule demo_open) simp_all
  have j: "journal_ok ?env ''user:a'' demo_opened"
    by (rule open_Inr(8) [OF o]) (simp add: ended_files_def blank_store_def)
  have 1: "append_record ?env RkGrant ''g1'' OpCreated (PGrant once_grant) ''user:a'' demo_opened = (Inl WriteFailed, ?st1)"
    and 2: "append_record ?env RkGrant ''g1'' OpCreated (PGrant once_grant) ''user:a'' ?st1 = (Inr (), ?st2)"
    by (simp_all add: append_record_def demo_opened_def demo_eval)
  have h: "jr_record_hash (next_record ?env RkGrant ''g1'' OpCreated (PGrant once_grant) ''user:a'' demo_opened) \<noteq>
      as_head_hash demo_opened"
    by (simp add: next_record_def compute_record_hash_def demo_opened_def demo_eval ZERO_HASH_def)
  have "actor_ok ?env ''user:a''" by (simp add: actor_ok_def demo_eval)
  from failed_append_refuses_to_open [OF j _ this 1 h 2] show ?thesis by (simp add: demo_eval demo_opened_def Let_def)
qed

section \<open>Grants of another session\<close>

text \<open>The idempotency key leaves out the session. A session grant is answered with the stored grant of an earlier
  session that agrees with it on everything in the key, and nothing is stored for the new session.\<close>

theorem session_grant_not_renewed:
  assumes "map_of (vw_grants (as_view st)) gid = Some e" "pg_state e = GsActive" "pg_lifetime e = GlSession"
    and "g = e\<lparr>pg_grant_id := gid', pg_session_id := sid, pg_session_expires_at := expiry, pg_created_at := t\<rparr>"
    and "validate_grant env g = Inr ()"
  shows "\<exists>res. create_grant env g actor st = (Inr res, st) \<and> gr_idempotent_replay res \<and>
     gr_grant res \<in> snd ` set (vw_grants (as_view st))"
proof -
  have active: "g\<lparr>pg_state := GsActive\<rparr> = g" using assms(2,4) by simp
  have l: "pg_lifetime g = GlSession" using assms(3,4) by simp
  have n: "normalize_grant_for_create env g = Inr g"
    by (simp add: normalize_grant_for_create_def active l)
  have "(gid, e) \<in> set (vw_grants (as_view st))" using assms(1) by (rule map_of_SomeD)
  moreover have "grant_idempotency_key env e = grant_idempotency_key env g"
    using assms(4) by (simp add: grant_idempotency_key_def)
  ultimately have "find_equivalent env g (as_view st) \<noteq> None"
    using assms(2) unfolding find_equivalent_def find_None_iff by (auto intro!: bexI [of _ "(gid, e)"])
  then obtain e' where f: "find_equivalent env g (as_view st) = Some e'" by blast
  then have "e' \<in> snd ` set (vw_grants (as_view st))"
    unfolding find_equivalent_def by (auto simp: find_Some_iff)
  then show ?thesis
    using n f assms(5) active by (auto simp: create_grant_def)
qed

end
