(* ===== verification/CarrierFrame.thy ===== *)
theory CarrierFrame
  imports Prelude "HOL-Library.Word"
begin

text \<open>
  The carrier envelope of a remote bidi input frame (\<open>src/daemon/invocation/bidi/session_wire.rs\<close>): a
  sixteen-byte header with magic, flags, content-type length and call id, then the content type and the
  payload. Bytes are \<open>8 word\<close>, lengths and ids are machine words in network order.
\<close>

unbundle bit_operations_syntax

type_synonym byte = "8 word"

section \<open>Network byte order\<close>

definition be_step :: "'a::len word \<Rightarrow> byte \<Rightarrow> 'a word" where
  "be_step acc b = push_bit 8 acc OR ucast b"

definition be16 :: "16 word \<Rightarrow> byte list" where
  "be16 w = [ucast (drop_bit 8 w), ucast w]"

definition of_be16 :: "byte list \<Rightarrow> 16 word" where
  "of_be16 bs = foldl be_step 0 bs"

definition be64 :: "64 word \<Rightarrow> byte list" where
  "be64 w = map (\<lambda>i. ucast (drop_bit (8 * i) w)) [7, 6, 5, 4, 3, 2, 1, 0]"

definition of_be64 :: "byte list \<Rightarrow> 64 word" where
  "of_be64 bs = foldl be_step 0 bs"

lemma be_step_low:
  fixes v :: "'a::len word"
  assumes "8 \<le> LENGTH('a)"
  shows "be_step (drop_bit 8 v) (ucast v) = v"
  using assms by (intro bit_word_eqI) (auto simp: be_step_def bit_or_iff bit_push_bit_iff bit_drop_bit_eq bit_ucast_iff)

lemma be_step_drop:
  fixes v :: "'a::len word"
  assumes "8 \<le> LENGTH('a)"
  shows "be_step (drop_bit (n + 8) v) (ucast (drop_bit n v)) = drop_bit n v"
  using be_step_low [OF assms, of "drop_bit n v"] by (simp add: add.commute)

lemma drop_all: "drop_bit LENGTH('a) (v :: 'a::len word) = 0"
  by (rule bit_word_eqI) (simp add: bit_drop_bit_eq)

lemma of_be16_be16: "of_be16 (be16 w) = w"
  using be_step_drop [of 8 w] be_step_low [of w] drop_all [of w] by (simp add: of_be16_def be16_def)

lemma of_be64_be64: "of_be64 (be64 w) = w"
  using be_step_drop [of 56 w] be_step_drop [of 48 w] be_step_drop [of 40 w] be_step_drop [of 32 w]
    be_step_drop [of 24 w] be_step_drop [of 16 w] be_step_drop [of 8 w] be_step_low [of w] drop_all [of w]
  by (simp add: of_be64_def be64_def)

text \<open>Both directions: a word is its bytes, and any eight (two) bytes are those of one word.\<close>

lemma left_inverse_surj:
  fixes to :: "'a::finite \<Rightarrow> byte list"
  assumes "\<And>w. of_list (to w) = w" "\<And>w. length (to w) = n" "CARD('a) = 256 ^ n" "length bs = n"
  shows "to (of_list bs) = bs"
proof -
  let ?lists = "{bs :: byte list. set bs \<subseteq> UNIV \<and> length bs = n}"
  have "inj to" by (rule inj_on_inverseI [of _ of_list]) (simp add: assms(1))
  then have 1: "card (range to) = 256 ^ n" using assms(3) by (simp add: card_image)
  have "card ?lists = CARD(byte) ^ n" by (rule card_lists_length_eq) simp
  then have 2: "card ?lists = 256 ^ n" by (simp add: card_word)
  have 3: "range to \<subseteq> ?lists" using assms(2) by auto
  have "finite ?lists" by (rule finite_lists_length_eq) simp
  then have "range to = ?lists" using 3 by (rule card_subset_eq) (simp only: 1 2)
  with assms(4) obtain w where "bs = to w" by blast
  with assms(1) show ?thesis by simp
qed

lemma length_be: "length (be16 v) = 2" "length (be64 w) = 8"
  by (simp_all add: be16_def be64_def)

lemma be16_of_be16: "length bs = 2 \<Longrightarrow> be16 (of_be16 bs) = bs"
  by (rule left_inverse_surj [OF of_be16_be16 length_be(1)]) (simp_all add: card_word)

lemma be64_of_be64: "length bs = 8 \<Longrightarrow> be64 (of_be64 bs) = bs"
  by (rule left_inverse_surj [OF of_be64_be64 length_be(2)]) (simp_all add: card_word)

section \<open>UTF-8\<close>

definition utf8_tail :: "byte \<Rightarrow> bool" where
  "utf8_tail b \<longleftrightarrow> 0x80 \<le> b \<and> b \<le> 0xBF"

text \<open>\<open>std::str::from_utf8\<close>: the well-formed byte sequences of the Unicode standard.\<close>

fun utf8_valid :: "byte list \<Rightarrow> bool" where
  "utf8_valid [] = True"
| "utf8_valid (b # bs) =
     (if b < 0x80 then utf8_valid bs
      else if 0xC2 \<le> b \<and> b \<le> 0xDF then
        (case bs of c # bs \<Rightarrow> utf8_tail c \<and> utf8_valid bs | _ \<Rightarrow> False)
      else if 0xE0 \<le> b \<and> b \<le> 0xEF then
        (case bs of
           c # d # bs \<Rightarrow>
             utf8_tail c \<and> utf8_tail d \<and> (b = 0xE0 \<longrightarrow> 0xA0 \<le> c) \<and> (b = 0xED \<longrightarrow> c \<le> 0x9F) \<and> utf8_valid bs
         | _ \<Rightarrow> False)
      else if 0xF0 \<le> b \<and> b \<le> 0xF4 then
        (case bs of
           c # d # e # bs \<Rightarrow>
             utf8_tail c \<and> utf8_tail d \<and> utf8_tail e \<and> (b = 0xF0 \<longrightarrow> 0x90 \<le> c) \<and> (b = 0xF4 \<longrightarrow> c \<le> 0x8F) \<and>
             utf8_valid bs
         | _ \<Rightarrow> False)
      else False)"

section \<open>The envelope\<close>

definition CARRIER_BIDI_INPUT_MAGIC :: "byte list" where
  "CARRIER_BIDI_INPUT_MAGIC = [0x45, 0x42, 0x49, 0x31]"

definition CARRIER_BIDI_INPUT_HEADER_BYTES :: nat where
  "CARRIER_BIDI_INPUT_HEADER_BYTES = 16"

definition CARRIER_BIDI_INPUT_EOF :: byte where
  "CARRIER_BIDI_INPUT_EOF = 1"

definition MAX_CARRIER_BIDI_CONTENT_TYPE_BYTES :: nat where
  "MAX_CARRIER_BIDI_CONTENT_TYPE_BYTES = 1024"

record carrier_input =
  ci_call_id :: "64 word"
  ci_content_type :: "byte list"
  ci_payload :: "byte list"
  ci_eof :: bool

record carrier_metadata =
  cm_call_id :: "64 word"
  cm_content_type :: "byte list"
  cm_payload_offset :: nat
  cm_eof :: bool

datatype carrier_error =
    ContentTypeTooLong | ContentTypeOverflow | FrameTruncated | UnsupportedFlags | InvalidContentType | ContentTypeNotUtf8

definition is_carrier_bidi_input :: "byte list \<Rightarrow> bool" where
  "is_carrier_bidi_input frame \<longleftrightarrow> take (length CARRIER_BIDI_INPUT_MAGIC) frame = CARRIER_BIDI_INPUT_MAGIC"

definition encode_carrier_bidi_input ::
  "64 word \<Rightarrow> byte list \<Rightarrow> byte list \<Rightarrow> bool \<Rightarrow> carrier_error + byte list" where
  "encode_carrier_bidi_input call_id content_type body eof =
     and_then (ensure (length content_type \<le> MAX_CARRIER_BIDI_CONTENT_TYPE_BYTES) ContentTypeTooLong) (\<lambda>_.
     and_then (ensure (length content_type < 2 ^ 16) ContentTypeOverflow) (\<lambda>_.
     Inr (CARRIER_BIDI_INPUT_MAGIC @ [if eof then CARRIER_BIDI_INPUT_EOF else 0] @ [0] @
          be16 (of_nat (length content_type)) @ be64 call_id @ content_type @ body)))"

definition decode_carrier_bidi_input_metadata :: "byte list \<Rightarrow> carrier_error + carrier_metadata option" where
  "decode_carrier_bidi_input_metadata frame =
     (if \<not> is_carrier_bidi_input frame then Inr None
      else
        and_then (ensure (CARRIER_BIDI_INPUT_HEADER_BYTES \<le> length frame) FrameTruncated) (\<lambda>_.
        let flags = frame ! 4 in
        and_then (ensure (flags AND NOT CARRIER_BIDI_INPUT_EOF = 0 \<and> frame ! 5 = 0) UnsupportedFlags) (\<lambda>_.
        let content_len = unat (of_be16 [frame ! 6, frame ! 7]) in
        and_then (ensure (content_len \<le> MAX_CARRIER_BIDI_CONTENT_TYPE_BYTES \<and>
                          CARRIER_BIDI_INPUT_HEADER_BYTES + content_len \<le> length frame) InvalidContentType) (\<lambda>_.
        let call_id = of_be64 (take 8 (drop 8 frame));
            content_end = CARRIER_BIDI_INPUT_HEADER_BYTES + content_len;
            content_type = take content_len (drop CARRIER_BIDI_INPUT_HEADER_BYTES frame) in
        and_then (ensure (utf8_valid content_type) ContentTypeNotUtf8) (\<lambda>_.
        Inr (Some \<lparr>cm_call_id = call_id, cm_content_type = content_type, cm_payload_offset = content_end,
                   cm_eof = (flags AND CARRIER_BIDI_INPUT_EOF \<noteq> 0)\<rparr>))))))"

definition decode_carrier_bidi_input :: "byte list \<Rightarrow> carrier_error + carrier_input option" where
  "decode_carrier_bidi_input frame =
     and_then (decode_carrier_bidi_input_metadata frame) (\<lambda>metadata.
     case metadata of
       None \<Rightarrow> Inr None
     | Some m \<Rightarrow>
         Inr (Some \<lparr>ci_call_id = cm_call_id m, ci_content_type = cm_content_type m,
                    ci_payload = drop (cm_payload_offset m) frame, ci_eof = cm_eof m\<rparr>))"

section \<open>Round trip\<close>

lemma flag_byte:
  fixes b :: byte
  shows "b AND NOT 1 = 0 \<longleftrightarrow> b = (if b AND 1 \<noteq> 0 then 1 else 0)"
proof
  assume "b AND NOT 1 = 0"
  then have "b = b AND 1" by (metis and.right_neutral bit.conj_disj_distrib bit.disj_cancel_right or.right_neutral)
  then have "b = of_bool (odd b)" by (simp add: and_one_eq mod_2_eq_odd)
  then have "b = 0 \<or> b = 1" by (metis of_bool_eq(1) of_bool_eq(2))
  then show "b = (if b AND 1 \<noteq> 0 then 1 else 0)" by auto
next
  assume "b = (if b AND 1 \<noteq> 0 then 1 else 0)"
  then have "b = 0 \<or> b = 1" by (metis (full_types))
  then show "b AND NOT 1 = 0" by auto
qed

lemma header_split:
  assumes "16 \<le> length frame"
  shows "frame = take 4 frame @ [frame ! 4] @ [frame ! 5] @ [frame ! 6, frame ! 7] @ take 8 (drop 8 frame) @ drop 16 frame"
proof -
  have "drop 4 frame = frame ! 4 # frame ! 5 # frame ! 6 # frame ! 7 # drop 8 frame"
    using assms by (simp add: Cons_nth_drop_Suc [symmetric] numeral_eq_Suc)
  then show ?thesis by (metis append_Cons append_Nil append_take_drop_id drop_drop numeral_Bit0)
qed

lemma length_magic: "length CARRIER_BIDI_INPUT_MAGIC = 4"
  by (simp add: CARRIER_BIDI_INPUT_MAGIC_def)

lemma decode_Inr_Some:
  "decode_carrier_bidi_input frame = Inr (Some i) \<longleftrightarrow>
     is_carrier_bidi_input frame \<and> 16 \<le> length frame \<and> frame ! 4 AND NOT 1 = 0 \<and> frame ! 5 = 0 \<and>
     (let n = unat (of_be16 [frame ! 6, frame ! 7]) in
      n \<le> 1024 \<and> 16 + n \<le> length frame \<and> utf8_valid (take n (drop 16 frame)) \<and>
      i = \<lparr>ci_call_id = of_be64 (take 8 (drop 8 frame)), ci_content_type = take n (drop 16 frame),
           ci_payload = drop (16 + n) frame, ci_eof = (frame ! 4 AND 1 \<noteq> 0)\<rparr>)"
  by (auto simp: decode_carrier_bidi_input_def decode_carrier_bidi_input_metadata_def result_simps Let_def
      CARRIER_BIDI_INPUT_HEADER_BYTES_def MAX_CARRIER_BIDI_CONTENT_TYPE_BYTES_def CARRIER_BIDI_INPUT_EOF_def
      split: if_splits option.splits)

lemma encode_Inr:
  "encode_carrier_bidi_input c ct body eof = Inr frame \<longleftrightarrow>
     length ct \<le> 1024 \<and>
     frame = CARRIER_BIDI_INPUT_MAGIC @ [if eof then 1 else 0] @ [0] @ be16 (of_nat (length ct)) @ be64 c @ ct @ body"
  by (auto simp: encode_carrier_bidi_input_def result_simps MAX_CARRIER_BIDI_CONTENT_TYPE_BYTES_def
      CARRIER_BIDI_INPUT_EOF_def)

text \<open>C25: The carrier codec is exact. A frame decodes to an input exactly when it is the encoding of that input and the
  content type is UTF-8: what is sent is read back with the same call id, content type, payload and end mark, and
  every frame that decodes is the only encoding of what it decodes to.\<close>

theorem carrier_codec_exact:
  "decode_carrier_bidi_input frame = Inr (Some i) \<longleftrightarrow>
     utf8_valid (ci_content_type i) \<and>
     encode_carrier_bidi_input (ci_call_id i) (ci_content_type i) (ci_payload i) (ci_eof i) = Inr frame"
  (is "?decodes \<longleftrightarrow> ?encodes")
proof
  assume d: ?decodes
  let ?n = "unat (of_be16 [frame ! 6, frame ! 7])"
  from d have len: "16 \<le> length frame" and magic: "take 4 frame = CARRIER_BIDI_INPUT_MAGIC"
    and flags: "frame ! 4 AND NOT 1 = 0" "frame ! 5 = 0" and n: "?n \<le> 1024" "16 + ?n \<le> length frame"
    and utf8: "utf8_valid (take ?n (drop 16 frame))"
    and i: "i = \<lparr>ci_call_id = of_be64 (take 8 (drop 8 frame)), ci_content_type = take ?n (drop 16 frame),
      ci_payload = drop (16 + ?n) frame, ci_eof = (frame ! 4 AND 1 \<noteq> 0)\<rparr>"
    by (auto simp: decode_Inr_Some Let_def is_carrier_bidi_input_def length_magic)
  define eof where "eof \<longleftrightarrow> frame ! 4 AND 1 \<noteq> 0"
  then have eof: "(frame ! 4 AND 1 \<noteq> 0) = eof" by (rule sym)
  have f4: "frame ! 4 = (if eof then 1 else 0)" using flags(1) by (simp only: flag_byte eof)
  have ct: "length (take ?n (drop 16 frame)) = ?n" using n by simp
  have b16: "be16 (of_nat ?n) = [frame ! 6, frame ! 7]" by (simp add: be16_of_be16)
  have b64: "be64 (of_be64 (take 8 (drop 8 frame))) = take 8 (drop 8 frame)" using len by (intro be64_of_be64) simp
  have rest: "take ?n (drop 16 frame) @ drop (16 + ?n) frame = drop 16 frame"
    using append_take_drop_id [of ?n "drop 16 frame"] by (simp only: drop_drop add.commute)
  have "frame = take 4 frame @ [frame ! 4] @ [frame ! 5] @ [frame ! 6, frame ! 7] @ take 8 (drop 8 frame) @ drop 16 frame"
    by (rule header_split [OF len])
  also have "\<dots> = CARRIER_BIDI_INPUT_MAGIC @ [if eof then 1 else 0] @ [0] @ be16 (of_nat ?n) @
      be64 (of_be64 (take 8 (drop 8 frame))) @ take ?n (drop 16 frame) @ drop (16 + ?n) frame"
    by (simp only: magic flags(2) f4 b16 b64 rest)
  finally show ?encodes
    using n(1) utf8 unfolding i encode_Inr eof by (simp only: carrier_input.simps ct)
next
  assume e: ?encodes
  let ?ct = "ci_content_type i"
  from e have len: "length ?ct \<le> 1024" and u: "utf8_valid ?ct"
    and f: "frame = CARRIER_BIDI_INPUT_MAGIC @ [if ci_eof i then 1 else 0] @ [0] @ be16 (of_nat (length ?ct)) @
      be64 (ci_call_id i) @ ?ct @ ci_payload i" by (simp_all add: encode_Inr)
  obtain a b where ab: "be16 (of_nat (length ?ct)) = [a, b]" by (simp add: be16_def)
  have n: "unat (of_be16 [a, b]) = length ?ct"
    using len by (simp add: ab [symmetric] of_be16_be16 unat_of_nat)
  have nth: "frame ! 4 = (if ci_eof i then 1 else 0)" "frame ! 5 = 0" "frame ! 6 = a" "frame ! 7 = b"
    "drop 8 frame = be64 (ci_call_id i) @ ?ct @ ci_payload i" "take 4 frame = CARRIER_BIDI_INPUT_MAGIC"
    by (simp_all add: f ab CARRIER_BIDI_INPUT_MAGIC_def)
  have "drop 16 frame = drop 8 (drop 8 frame)" by simp
  also have "\<dots> = ?ct @ ci_payload i" by (simp only: nth) (simp add: length_be)
  finally have d16: "drop 16 frame = ?ct @ ci_payload i" .
  have l: "length frame = 16 + length ?ct + length (ci_payload i)"
    by (simp add: f ab length_be CARRIER_BIDI_INPUT_MAGIC_def)
  have "drop (16 + length ?ct) frame = ci_payload i"
    by (metis add.commute append_eq_conv_conj d16 drop_drop)
  then show ?decodes
    using u len l by (simp add: decode_Inr_Some Let_def is_carrier_bidi_input_def nth n d16 length_be of_be64_be64
        length_magic)
qed

end
