(* ===== verification/FrameScheduler.thy ===== *)
theory FrameScheduler
  imports CarrierFrame
begin

text \<open>
  The fair scheduler of a session (\<open>src/daemon/invocation/bidi/session_initiator/frame_scheduler.rs\<close>): frames from
  the hub are admitted against a per-call and a session budget, queue in a bounded channel, and an actor hands them
  to the dispatcher with at most one frame of a call in flight.

  The protobuf frame is a type of its own; \<open>chunk\<close> reads its binary payload, \<open>dispatch\<close> is the dispatcher's answer
  to a frame handled inline. A frame that is queued, waiting or in flight holds its permit. Reserving and releasing
  a permit are single steps. Two logs record the frames the scheduler accepted and those it handed to the
  dispatcher; no operation reads them. The states of a session are those until the scheduler is dropped: dropping it
  aborts the actor, and every frame that is queued, waiting or in flight is lost with its permit.
\<close>

type_synonym call_id = "64 word"

definition DISPATCH_CHANNEL_CAPACITY :: nat where
  "DISPATCH_CHANNEL_CAPACITY = 256"

definition BIDI_FRAMES_PER_CALL :: nat where
  "BIDI_FRAMES_PER_CALL = 64"

datatype 'e schedule_error =
    DispatchError 'e
  | CallSaturated call_id nat
  | SessionSaturated call_id nat
  | SchedulerClosed call_id

record 'd scheduled_frame =
  sf_call_id :: call_id
  sf_frame :: 'd

record 'd frame_scheduler =
  bs_global :: nat
  bs_per_call :: "call_id \<rightharpoonup> nat"
  bs_channel :: "'d scheduled_frame list"
  bs_receiver_gone :: bool
  bs_sender_gone :: bool
  bs_pending :: "call_id \<rightharpoonup> 'd scheduled_frame list"
  bs_active :: "call_id set"
  bs_in_flight :: "'d scheduled_frame list"
  bs_completed :: "call_id option"
  bs_input_closed :: bool
  bs_accepted :: "'d scheduled_frame list"
  bs_started :: "'d scheduled_frame list"

section \<open>Admission\<close>

definition bidi_input_call_id :: "('d \<Rightarrow> byte list option) \<Rightarrow> 'd \<Rightarrow> call_id option" where
  "bidi_input_call_id chunk frame =
     (case chunk frame of
        None \<Rightarrow> None
      | Some data \<Rightarrow>
          (case decode_carrier_bidi_input data of
             Inl _ \<Rightarrow> None
           | Inr input \<Rightarrow> map_option ci_call_id input))"

definition spawn :: "'d frame_scheduler" where
  "spawn =
     \<lparr>bs_global = DISPATCH_CHANNEL_CAPACITY, bs_per_call = Map.empty, bs_channel = [], bs_receiver_gone = False,
      bs_sender_gone = False, bs_pending = Map.empty, bs_active = {}, bs_in_flight = [], bs_completed = None,
      bs_input_closed = False, bs_accepted = [], bs_started = []\<rparr>"

definition budget_reserve :: "call_id \<Rightarrow> 'd frame_scheduler \<Rightarrow> 'e schedule_error + 'd frame_scheduler" where
  "budget_reserve c st =
     (if bs_global st = 0 then Inl (SessionSaturated c DISPATCH_CHANNEL_CAPACITY)
      else
        let retained = (case bs_per_call st c of None \<Rightarrow> 0 | Some n \<Rightarrow> n) in
        if retained \<ge> BIDI_FRAMES_PER_CALL then Inl (CallSaturated c BIDI_FRAMES_PER_CALL)
        else Inr (st\<lparr>bs_global := bs_global st - 1, bs_per_call := (bs_per_call st)(c \<mapsto> retained + 1)\<rparr>))"

definition release_call :: "call_id \<Rightarrow> 'd frame_scheduler \<Rightarrow> 'd frame_scheduler" where
  "release_call c st =
     (case bs_per_call st c of
        None \<Rightarrow> st
      | Some n \<Rightarrow> st\<lparr>bs_per_call := (bs_per_call st)(c := if n - 1 = 0 then None else Some (n - 1))\<rparr>)"

text \<open>Dropping a permit releases its call, then its share of the session.\<close>

definition drop_permit :: "call_id \<Rightarrow> 'd frame_scheduler \<Rightarrow> 'd frame_scheduler" where
  "drop_permit c st = (let st = release_call c st in st\<lparr>bs_global := bs_global st + 1\<rparr>)"

definition route ::
  "('d \<Rightarrow> byte list option) \<Rightarrow> ('d \<Rightarrow> 'e + unit) \<Rightarrow> 'd \<Rightarrow> 'd frame_scheduler \<Rightarrow>
     ('e schedule_error + unit) \<times> 'd frame_scheduler" where
  "route chunk dispatch frame st =
     (case bidi_input_call_id chunk frame of
        None \<Rightarrow> ((case dispatch frame of Inl e \<Rightarrow> Inl (DispatchError e) | Inr _ \<Rightarrow> Inr ()), st)
      | Some c \<Rightarrow>
          (case budget_reserve c st of
             Inl e \<Rightarrow> (Inl e, st)
           | Inr st \<Rightarrow>
               let scheduled = \<lparr>sf_call_id = c, sf_frame = frame\<rparr> in
               if bs_receiver_gone st then (Inl (SchedulerClosed c), drop_permit c st)
               else if length (bs_channel st) \<ge> DISPATCH_CHANNEL_CAPACITY then
                 (Inl (SessionSaturated c DISPATCH_CHANNEL_CAPACITY), drop_permit c st)
               else
                 (Inr (), st\<lparr>bs_channel := bs_channel st @ [scheduled], bs_accepted := bs_accepted st @ [scheduled]\<rparr>)))"

section \<open>The actor\<close>

definition dispatch_bidi_frame :: "'d scheduled_frame \<Rightarrow> 'd frame_scheduler \<Rightarrow> 'd frame_scheduler" where
  "dispatch_bidi_frame f st =
     st\<lparr>bs_in_flight := bs_in_flight st @ [f], bs_started := bs_started st @ [f]\<rparr>"

definition on_received :: "'d scheduled_frame option \<Rightarrow> 'd frame_scheduler \<Rightarrow> 'd frame_scheduler" where
  "on_received maybe_scheduled st =
     (case maybe_scheduled of
        Some f \<Rightarrow>
          (if sf_call_id f \<notin> bs_active st then
             dispatch_bidi_frame f (st\<lparr>bs_active := insert (sf_call_id f) (bs_active st)\<rparr>)
           else
             let queue = (case bs_pending st (sf_call_id f) of None \<Rightarrow> [] | Some q \<Rightarrow> q) in
             st\<lparr>bs_pending := (bs_pending st)(sf_call_id f \<mapsto> queue @ [f])\<rparr>)
      | None \<Rightarrow> st\<lparr>bs_input_closed := True\<rparr>)"

text \<open>The dispatcher's future is done: the permit is dropped, then the actor sees the completion.\<close>

definition finish_frame :: "'d scheduled_frame \<Rightarrow> 'd frame_scheduler \<Rightarrow> 'd frame_scheduler" where
  "finish_frame f st =
     (drop_permit (sf_call_id f) (st\<lparr>bs_in_flight := remove1 f (bs_in_flight st)\<rparr>))
       \<lparr>bs_completed := Some (sf_call_id f)\<rparr>"

definition on_completed :: "call_id \<Rightarrow> 'd frame_scheduler \<Rightarrow> 'd frame_scheduler" where
  "on_completed c st =
     (let next = (case bs_pending st c of Some (f # q) \<Rightarrow> Some f | _ \<Rightarrow> None);
          rest = (case bs_pending st c of Some (f # q) \<Rightarrow> Some q | p \<Rightarrow> p);
          pending = (bs_pending st)(c := if rest = Some [] then None else rest);
          st = st\<lparr>bs_pending := pending, bs_completed := None\<rparr>
      in case next of
           Some f \<Rightarrow> dispatch_bidi_frame f st
         | None \<Rightarrow> st\<lparr>bs_active := bs_active st - {c}\<rparr>)"

text \<open>The steps of the actor, with completions of the calls outside \<open>stalled\<close> only.\<close>

inductive actor_step :: "call_id set \<Rightarrow> 'd frame_scheduler \<Rightarrow> 'd frame_scheduler \<Rightarrow> bool" for stalled where
  recv: "bs_completed st = None \<Longrightarrow> \<not> bs_input_closed st \<Longrightarrow> bs_channel st = f # rest \<Longrightarrow>
         actor_step stalled st (on_received (Some f) (st\<lparr>bs_channel := rest\<rparr>))"
| hang_up: "bs_completed st = None \<Longrightarrow> \<not> bs_input_closed st \<Longrightarrow> bs_channel st = [] \<Longrightarrow> bs_sender_gone st \<Longrightarrow>
         actor_step stalled st (on_received None st)"
| finished: "bs_completed st = None \<Longrightarrow> f \<in> set (bs_in_flight st) \<Longrightarrow> sf_call_id f \<notin> stalled \<Longrightarrow>
         actor_step stalled st (finish_frame f st)"
| completed: "bs_completed st = Some c \<Longrightarrow> actor_step stalled st (on_completed c st)"

inductive session_state :: "('d \<Rightarrow> byte list option) \<Rightarrow> ('d \<Rightarrow> 'e + unit) \<Rightarrow> 'd frame_scheduler \<Rightarrow> bool"
  for chunk dispatch where
  spawned: "session_state chunk dispatch spawn"
| routed: "session_state chunk dispatch st \<Longrightarrow> \<not> bs_sender_gone st \<Longrightarrow>
         session_state chunk dispatch (snd (route chunk dispatch frame st))"
| acted: "session_state chunk dispatch st \<Longrightarrow> actor_step stalled st st' \<Longrightarrow> session_state chunk dispatch st'"
| dropped_sender: "session_state chunk dispatch st \<Longrightarrow> session_state chunk dispatch (st\<lparr>bs_sender_gone := True\<rparr>)"
| dropped_receiver: "session_state chunk dispatch st \<Longrightarrow> session_state chunk dispatch (st\<lparr>bs_receiver_gone := True\<rparr>)"

section \<open>Invariant\<close>

abbreviation of_call :: "call_id \<Rightarrow> 'd scheduled_frame list \<Rightarrow> 'd scheduled_frame list" where
  "of_call c fs \<equiv> filter (\<lambda>f. sf_call_id f = c) fs"

definition waiting :: "'d frame_scheduler \<Rightarrow> call_id \<Rightarrow> 'd scheduled_frame list" where
  "waiting st c = (case bs_pending st c of None \<Rightarrow> [] | Some q \<Rightarrow> q)"

text \<open>The frames of a call that hold a permit.\<close>

definition held :: "'d frame_scheduler \<Rightarrow> call_id \<Rightarrow> nat" where
  "held st c =
     length (of_call c (bs_channel st)) + length (waiting st c) + length (of_call c (bs_in_flight st))"

text \<open>Dropping the scheduler aborts the actor: its channel, its lanes and the futures it polls are dropped, and with each
  frame its permit.\<close>

definition drop_scheduler :: "'d frame_scheduler \<Rightarrow> 'd frame_scheduler" where
  "drop_scheduler st =
     st\<lparr>bs_global := bs_global st + (\<Sum>c\<in>UNIV. held st c),
        bs_per_call := (\<lambda>c. case bs_per_call st c of
           None \<Rightarrow> None | Some n \<Rightarrow> if n - held st c = 0 then None else Some (n - held st c)),
        bs_channel := [], bs_receiver_gone := True, bs_sender_gone := True, bs_pending := Map.empty,
        bs_active := {}, bs_in_flight := [], bs_completed := None, bs_input_closed := True\<rparr>"

definition fifo_ok :: "'d frame_scheduler \<Rightarrow> bool" where
  "fifo_ok st \<longleftrightarrow>
     (\<forall>c. of_call c (bs_accepted st) = of_call c (bs_started st) @ waiting st c @ of_call c (bs_channel st))"

definition lanes_ok :: "'d frame_scheduler \<Rightarrow> bool" where
  "lanes_ok st \<longleftrightarrow>
     bs_active st = sf_call_id ` set (bs_in_flight st) \<union> set_option (bs_completed st) \<and>
     distinct (map sf_call_id (bs_in_flight st)) \<and> set_option (bs_completed st) \<inter> sf_call_id ` set (bs_in_flight st) = {} \<and>
     (\<forall>c q. bs_pending st c = Some q \<longrightarrow> q \<noteq> [] \<and> c \<in> bs_active st \<and> (\<forall>f \<in> set q. sf_call_id f = c))"

definition budget_ok :: "'d frame_scheduler \<Rightarrow> bool" where
  "budget_ok st \<longleftrightarrow>
     bs_global st + (\<Sum>c\<in>UNIV. held st c) = DISPATCH_CHANNEL_CAPACITY \<and>
     (\<forall>c. bs_per_call st c = (if held st c = 0 then None else Some (held st c))) \<and>
     (\<forall>c. held st c \<le> BIDI_FRAMES_PER_CALL)"

lemma sum_bump: "(\<Sum>c\<in>UNIV. (h :: call_id \<Rightarrow> nat) c + (if c = d then 1 else 0)) = (\<Sum>c\<in>UNIV. h c) + 1"
  by (simp add: sum.distrib)

lemma channel_le_held: "length (bs_channel st) \<le> (\<Sum>c\<in>UNIV. held st c)"
proof -
  have "length fs = (\<Sum>c\<in>UNIV. length (of_call c fs))" for fs :: "'d scheduled_frame list"
  proof (induction fs)
    case (Cons f fs)
    have "(\<Sum>c\<in>UNIV. length (of_call c (f # fs))) = (\<Sum>c\<in>UNIV. length (of_call c fs) + (if c = sf_call_id f then 1 else 0))"
      by (rule sum.cong) auto
    with Cons.IH show ?case by (simp only: sum_bump) simp
  qed simp
  from this [of "bs_channel st"] show ?thesis
    by (simp add: held_def sum.distrib)
qed

lemma held_in_channel: "f \<in> set (bs_channel st) \<Longrightarrow> 0 < held st (sf_call_id f)"
  by (auto simp: held_def filter_empty_conv)

lemma budget_reserve_ok:
  assumes "budget_ok st" "budget_reserve c st = Inr st1"
  shows "length (bs_channel st1) < DISPATCH_CHANNEL_CAPACITY" "held st c < BIDI_FRAMES_PER_CALL"
    "st1 = st\<lparr>bs_global := bs_global st - 1, bs_per_call := (bs_per_call st)(c \<mapsto> held st c + 1)\<rparr>" "0 < bs_global st"
proof -
  have pc: "(case bs_per_call st c of None \<Rightarrow> 0 | Some n \<Rightarrow> n) = held st c" using assms(1) by (simp add: budget_ok_def)
  show st1: "st1 = st\<lparr>bs_global := bs_global st - 1, bs_per_call := (bs_per_call st)(c \<mapsto> held st c + 1)\<rparr>"
    and "held st c < BIDI_FRAMES_PER_CALL" and g: "0 < bs_global st"
    using assms(2) unfolding budget_reserve_def pc by (auto simp: Let_def split: if_splits)
  from g assms(1) channel_le_held [of st] show "length (bs_channel st1) < DISPATCH_CHANNEL_CAPACITY"
    by (simp add: st1 budget_ok_def)
qed

lemma drop_reserved:
  assumes "budget_ok st" "budget_reserve c st = Inr st1"
  shows "drop_permit c st1 = st"
proof -
  note r = budget_reserve_ok [OF assms]
  define h where "h = held st c"
  have "(bs_per_call st)(c := if h = 0 then None else Some h) = bs_per_call st"
    using assms(1) by (simp add: budget_ok_def h_def fun_eq_iff)
  with r(3,4) show ?thesis
    unfolding h_def [symmetric] by (cases st) (simp add: drop_permit_def release_call_def split: if_splits)
qed

lemma budget_add:
  assumes "budget_ok st" "budget_reserve d st = Inr st1"
    and "\<And>c. held st2 c = held st c + (if c = d then 1 else 0)" "bs_global st2 = bs_global st1" "bs_per_call st2 = bs_per_call st1"
  shows "budget_ok st2"
  using assms(1) budget_reserve_ok [OF assms(1,2)] assms(3-5)
  by (auto simp: budget_ok_def sum_bump [of "held st" d, simplified])

lemma release_call_other [simp]:
  "bs_channel (release_call c st) = bs_channel st" "bs_pending (release_call c st) = bs_pending st"
  "bs_active (release_call c st) = bs_active st" "bs_in_flight (release_call c st) = bs_in_flight st"
  "bs_completed (release_call c st) = bs_completed st" "bs_input_closed (release_call c st) = bs_input_closed st"
  "bs_accepted (release_call c st) = bs_accepted st" "bs_started (release_call c st) = bs_started st"
  "bs_global (release_call c st) = bs_global st" "bs_sender_gone (release_call c st) = bs_sender_gone st"
  by (simp_all add: release_call_def split: option.split)

lemma waiting_cong: "bs_pending st = bs_pending st' \<Longrightarrow> waiting st = waiting st'"
  by (simp add: waiting_def fun_eq_iff)

lemma held_cong:
  "bs_pending st = bs_pending st' \<Longrightarrow> bs_channel st = bs_channel st' \<Longrightarrow> bs_in_flight st = bs_in_flight st' \<Longrightarrow> held st = held st'"
  by (simp add: held_def waiting_def fun_eq_iff)

lemma route_cases:
  assumes "budget_ok st"
  obtains "snd (route chunk dispatch frame st) = st" "\<And>c. bidi_input_call_id chunk frame = Some c \<Longrightarrow> fst (route chunk dispatch frame st) \<noteq> Inr ()"
    | "snd (route chunk dispatch frame st) = st" "bidi_input_call_id chunk frame = None"
    | c where "bidi_input_call_id chunk frame = Some c" "fst (route chunk dispatch frame st) = Inr ()" "\<not> bs_receiver_gone st"
        "budget_reserve c st = (Inr (st\<lparr>bs_global := bs_global st - 1, bs_per_call := (bs_per_call st)(c \<mapsto> held st c + 1)\<rparr>) :: 'e schedule_error + _)"
        "snd (route chunk (dispatch :: _ \<Rightarrow> 'e + unit) frame st) =
           st\<lparr>bs_global := bs_global st - 1, bs_per_call := (bs_per_call st)(c \<mapsto> held st c + 1),
              bs_channel := bs_channel st @ [\<lparr>sf_call_id = c, sf_frame = frame\<rparr>], bs_accepted := bs_accepted st @ [\<lparr>sf_call_id = c, sf_frame = frame\<rparr>]\<rparr>"
proof (cases "bidi_input_call_id chunk frame")
  case None
  then show thesis by (intro that(2)) (simp_all add: route_def)
next
  case (Some c)
  show thesis
  proof (cases "budget_reserve c st :: 'e schedule_error + _")
    case (Inl e)
    with Some show thesis by (intro that(1)) (simp_all add: route_def)
  next
    case (Inr st1)
    note r = budget_reserve_ok [OF assms Inr] and d = drop_reserved [OF assms Inr]
    show thesis
    proof (cases "bs_receiver_gone st")
      case True
      with Some Inr r d show thesis by (intro that(1)) (simp_all add: route_def)
    next
      case False
      with Some Inr r show thesis by (intro that(3)) (simp_all add: route_def Let_def)
    qed
  qed
qed

lemma route_fifo: "fifo_ok st \<Longrightarrow> budget_ok st \<Longrightarrow> fifo_ok (snd (route chunk dispatch frame st))"
  by (rule route_cases [of st chunk dispatch frame]) (auto simp: fifo_ok_def waiting_def)

lemma route_lanes: "lanes_ok st \<Longrightarrow> budget_ok st \<Longrightarrow> lanes_ok (snd (route chunk dispatch frame st))"
  by (rule route_cases [of st chunk dispatch frame]) (auto simp: lanes_ok_def)

lemma route_budget: "budget_ok st \<Longrightarrow> budget_ok (snd (route chunk dispatch frame st))"
proof (rule route_cases [of st chunk dispatch frame], simp_all)
  fix c assume *: "budget_ok st" "budget_reserve c st = (Inr (st\<lparr>bs_global := bs_global st - Suc 0, bs_per_call := (bs_per_call st)(c \<mapsto> Suc (held st c))\<rparr>) :: 'b schedule_error + _)"
  show "budget_ok
     (st\<lparr>bs_global := bs_global st - Suc 0, bs_per_call := (bs_per_call st)(c \<mapsto> Suc (held st c)), bs_channel := bs_channel st @ [\<lparr>sf_call_id = c, sf_frame = frame\<rparr>],
          bs_accepted := bs_accepted st @ [\<lparr>sf_call_id = c, sf_frame = frame\<rparr>]\<rparr>)"
    by (rule budget_add [OF *]) (auto simp: held_def waiting_def)
qed

text \<open>The frames, lanes and budget through a step of the actor.\<close>

lemma idle_call_waits_for_nothing: "lanes_ok st \<Longrightarrow> c \<notin> bs_active st \<Longrightarrow> bs_pending st c = None"
  by (cases "bs_pending st c") (auto simp: lanes_ok_def)

lemma lane_free:
  "lanes_ok st \<Longrightarrow> bs_completed st = None \<Longrightarrow> c \<notin> bs_active st \<Longrightarrow> of_call c (bs_in_flight st) = []"
  by (auto simp: lanes_ok_def filter_empty_conv)

lemma recv_fifo:
  assumes "fifo_ok st" "lanes_ok st" "bs_channel st = f # rest"
  shows "fifo_ok (on_received (Some f) (st\<lparr>bs_channel := rest\<rparr>))"
proof (cases "sf_call_id f \<in> bs_active st")
  case True
  with assms show ?thesis by (auto simp: fifo_ok_def on_received_def waiting_def Let_def split: option.splits)
next
  case False
  with assms idle_call_waits_for_nothing [OF assms(2) False] show ?thesis
    by (auto simp: fifo_ok_def on_received_def waiting_def dispatch_bidi_frame_def)
qed

lemma recv_lanes:
  assumes "lanes_ok st" "bs_completed st = None"
  shows "lanes_ok (on_received (Some f) (st\<lparr>bs_channel := rest\<rparr>))"
proof (cases "sf_call_id f \<in> bs_active st")
  case True
  with assms show ?thesis
    by (cases "bs_pending st (sf_call_id f)") (auto simp: lanes_ok_def on_received_def)
next
  case False
  with assms show ?thesis by (auto simp: lanes_ok_def on_received_def dispatch_bidi_frame_def)
qed

lemma recv_held:
  assumes "bs_channel st = f # rest" "lanes_ok st"
  shows "held (on_received (Some f) (st\<lparr>bs_channel := rest\<rparr>)) = held st"
  using assms by (auto simp: fun_eq_iff held_def on_received_def waiting_def dispatch_bidi_frame_def Let_def split: option.split)

lemma recv_budget:
  assumes "budget_ok st" "bs_channel st = f # rest" "lanes_ok st"
  shows "budget_ok (on_received (Some f) (st\<lparr>bs_channel := rest\<rparr>))"
  unfolding budget_ok_def recv_held [OF assms(2,3)]
  using assms(1) by (auto simp: budget_ok_def on_received_def dispatch_bidi_frame_def Let_def)

lemma distinct_map_remove1:
  "distinct (map g xs) \<Longrightarrow> x \<in> set xs \<Longrightarrow>
     g x \<notin> g ` set (remove1 x xs) \<and> distinct (map g (remove1 x xs)) \<and> g ` set xs = insert (g x) (g ` set (remove1 x xs))"
  by (induction xs) auto

lemma finish_lanes:
  assumes "lanes_ok st" "bs_completed st = None" "f \<in> set (bs_in_flight st)"
  shows "lanes_ok (finish_frame f st)"
  using assms distinct_map_remove1 [of sf_call_id "bs_in_flight st" f]
  by (simp add: lanes_ok_def finish_frame_def drop_permit_def Let_def) blast

lemma finish_held:
  assumes "f \<in> set (bs_in_flight st)"
  shows "held st c = held (finish_frame f st) c + (if c = sf_call_id f then 1 else 0)"
proof -
  define k where "k = length (of_call c (bs_in_flight st))"
  have "length (of_call c (remove1 f (bs_in_flight st))) = (if c = sf_call_id f then k - 1 else k)"
    using assms by (auto simp: filter_remove1 length_remove1 k_def)
  moreover have "c = sf_call_id f \<Longrightarrow> 0 < k" using assms by (auto simp: k_def filter_empty_conv)
  moreover have "waiting (finish_frame f st) c = waiting st c"
    by (simp add: waiting_def finish_frame_def drop_permit_def Let_def)
  ultimately show ?thesis
    by (simp add: held_def finish_frame_def drop_permit_def Let_def k_def [symmetric])
qed

lemma finish_budget:
  assumes "budget_ok st" "f \<in> set (bs_in_flight st)"
  shows "budget_ok (finish_frame f st)"
proof -
  define d where "d = sf_call_id f"
  define h where "h = held (finish_frame f st)"
  have held: "held st = (\<lambda>c. h c + (if c = d then 1 else 0))" using finish_held [OF assms(2)] by (auto simp: h_def d_def)
  have sum: "bs_global st + ((\<Sum>c\<in>UNIV. h c) + 1) = DISPATCH_CHANNEL_CAPACITY"
    using assms(1) unfolding budget_ok_def held sum_bump by simp
  have calls: "bs_per_call st c = (if h c + (if c = d then 1 else 0) = 0 then None else Some (h c + (if c = d then 1 else 0)))" for c
    using assms(1) unfolding budget_ok_def held by blast
  have le: "h c \<le> BIDI_FRAMES_PER_CALL" for c using assms(1) unfolding budget_ok_def held by (blast dest: add_leD1)
  have "bs_global (finish_frame f st) = bs_global st + 1" by (simp add: finish_frame_def drop_permit_def Let_def)
  moreover have "bs_per_call (finish_frame f st) = (bs_per_call st)(d := if h d = 0 then None else Some (h d))"
    using calls [of d] by (simp add: finish_frame_def drop_permit_def release_call_def Let_def d_def [symmetric])
  ultimately show ?thesis
    unfolding budget_ok_def h_def [symmetric] using sum calls le by (auto simp: fun_eq_iff)
qed

text \<open>The head of the lane of a completed call.\<close>

lemma on_completed_cases:
  assumes "lanes_ok st" "bs_completed st = Some c"
  obtains "bs_pending st c = None" "on_completed c st = st\<lparr>bs_completed := None, bs_active := bs_active st - {c}\<rparr>"
    | f q where "bs_pending st c = Some (f # q)" "sf_call_id f = c" "\<forall>g \<in> set q. sf_call_id g = c"
        "on_completed c st =
           st\<lparr>bs_pending := (bs_pending st)(c := if q = [] then None else Some q), bs_completed := None,
              bs_in_flight := bs_in_flight st @ [f], bs_started := bs_started st @ [f]\<rparr>"
proof (cases "bs_pending st c")
  case None
  then have "(bs_pending st)(c := None) = bs_pending st" by auto
  with None show thesis by (intro that(1)) (simp_all add: on_completed_def Let_def)
next
  case (Some p)
  with assms(1) have p: "p \<noteq> []" "\<forall>f \<in> set p. sf_call_id f = c" by (auto simp: lanes_ok_def)
  then obtain f q where "p = f # q" by (cases p) auto
  with Some p show thesis by (intro that(2) [of f q]) (simp_all add: on_completed_def dispatch_bidi_frame_def Let_def)
qed

lemma completed_fifo:
  assumes "fifo_ok st" "lanes_ok st" "bs_completed st = Some c"
  shows "fifo_ok (on_completed c st)"
  by (rule on_completed_cases [OF assms(2,3)]) (use assms(1) in \<open>auto simp: fifo_ok_def waiting_def\<close>)

lemma completed_lanes:
  assumes "lanes_ok st" "bs_completed st = Some c"
  shows "lanes_ok (on_completed c st)"
proof (rule on_completed_cases [OF assms])
  assume "bs_pending st c = None" "on_completed c st = st\<lparr>bs_completed := None, bs_active := bs_active st - {c}\<rparr>"
  moreover from this(1) assms(1)
  have "\<forall>d p. bs_pending st d = Some p \<longrightarrow> p \<noteq> [] \<and> d \<in> bs_active st - {c} \<and> (\<forall>g \<in> set p. sf_call_id g = d)"
    by (auto simp: lanes_ok_def)
  moreover have "bs_active st = insert c (sf_call_id ` set (bs_in_flight st))" "c \<notin> sf_call_id ` set (bs_in_flight st)"
    "distinct (map sf_call_id (bs_in_flight st))"
    using assms by (auto simp: lanes_ok_def)
  ultimately show ?thesis by (simp add: lanes_ok_def)
next
  fix f q
  assume q: "bs_pending st c = Some (f # q)" "sf_call_id f = c" "\<forall>g \<in> set q. sf_call_id g = c"
    and upd: "on_completed c st = st\<lparr>bs_pending := (bs_pending st)(c := if q = [] then None else Some q), bs_completed := None,
       bs_in_flight := bs_in_flight st @ [f], bs_started := bs_started st @ [f]\<rparr>"
  have active: "bs_active st = insert c (sf_call_id ` set (bs_in_flight st))" "c \<notin> sf_call_id ` set (bs_in_flight st)"
    "distinct (map sf_call_id (bs_in_flight st))"
    using assms by (auto simp: lanes_ok_def)
  have lane: "p \<noteq> [] \<and> d \<in> bs_active st \<and> (\<forall>g \<in> set p. sf_call_id g = d)" if "bs_pending (on_completed c st) d = Some p" for d p
  proof (cases "d = c")
    case True
    with that upd have "p = q" "q \<noteq> []" by (simp_all split: if_splits)
    with True q(3) active(1) show ?thesis by blast
  next
    case False
    with that upd have "bs_pending st d = Some p" by simp
    with assms(1) show ?thesis unfolding lanes_ok_def by blast
  qed
  have "bs_active (on_completed c st) = bs_active st" using upd by simp
  with lane have pend: "\<forall>d p. bs_pending (on_completed c st) d = Some p \<longrightarrow>
      p \<noteq> [] \<and> d \<in> bs_active (on_completed c st) \<and> (\<forall>g \<in> set p. sf_call_id g = d)" by simp
  show ?thesis
    unfolding lanes_ok_def by (intro conjI pend) (use active q(2) in \<open>simp_all add: upd\<close>)
qed

lemma completed_held:
  assumes "lanes_ok st" "bs_completed st = Some c"
  shows "held (on_completed c st) = held st"
  by (rule on_completed_cases [OF assms]) (auto simp: fun_eq_iff held_def waiting_def)

lemma completed_budget:
  assumes "budget_ok st" "lanes_ok st" "bs_completed st = Some c"
  shows "budget_ok (on_completed c st)"
  unfolding budget_ok_def completed_held [OF assms(2,3)]
  by (rule on_completed_cases [OF assms(2,3)]) (use assms(1) in \<open>simp_all add: budget_ok_def\<close>)

text \<open>Every state of a session satisfies the three invariants; a closed input has nothing left in its channel.\<close>

definition closed_ok :: "'d frame_scheduler \<Rightarrow> bool" where
  "closed_ok st \<longleftrightarrow> (bs_input_closed st \<longrightarrow> bs_sender_gone st \<and> bs_channel st = [])"

definition scheduler_inv :: "'d frame_scheduler \<Rightarrow> bool" where
  "scheduler_inv st \<longleftrightarrow> fifo_ok st \<and> lanes_ok st \<and> budget_ok st \<and> closed_ok st"

lemma actor_inv:
  assumes "actor_step stalled st st'" "scheduler_inv st"
  shows "scheduler_inv st'"
  using assms
proof cases
  case (recv f rest)
  with assms(2) have "closed_ok st'"
    by (simp add: scheduler_inv_def closed_ok_def on_received_def dispatch_bidi_frame_def Let_def)
  with recv assms(2) show ?thesis by (simp add: scheduler_inv_def recv_fifo recv_lanes recv_budget)
next
  case hang_up
  with assms(2) show ?thesis
    by (auto simp: scheduler_inv_def closed_ok_def fifo_ok_def lanes_ok_def budget_ok_def on_received_def held_def waiting_def)
next
  case (finished f)
  with assms(2) have "fifo_ok st'" "closed_ok st'"
    by (simp_all add: scheduler_inv_def closed_ok_def fifo_ok_def waiting_def finish_frame_def drop_permit_def Let_def)
  with finished assms(2) show ?thesis by (simp add: scheduler_inv_def finish_lanes finish_budget)
next
  case (completed c)
  with assms(2) have "closed_ok st'"
    by (simp add: scheduler_inv_def closed_ok_def on_completed_def dispatch_bidi_frame_def Let_def split: option.split)
  with completed assms(2) show ?thesis by (simp add: scheduler_inv_def completed_fifo completed_lanes completed_budget)
qed

lemma spawn_inv: "scheduler_inv spawn"
  by (simp add: scheduler_inv_def closed_ok_def fifo_ok_def lanes_ok_def budget_ok_def spawn_def held_def waiting_def)

lemma session_inv: "session_state chunk dispatch st \<Longrightarrow> scheduler_inv st"
proof (induction rule: session_state.induct)
  case (routed st frame)
  have "closed_ok (snd (route chunk dispatch frame st))"
    by (rule route_cases [of st chunk dispatch frame]) (use routed in \<open>simp_all add: scheduler_inv_def closed_ok_def\<close>)
  with routed show ?case by (simp add: scheduler_inv_def route_fifo route_lanes route_budget)
next
  case (acted st stalled st')
  then show ?case by (blast intro: actor_inv)
next
  case spawned
  show ?case by (rule spawn_inv)
qed (auto simp: scheduler_inv_def closed_ok_def fifo_ok_def lanes_ok_def budget_ok_def held_def waiting_def)

text \<open>Dropping the scheduler in any state of a session returns the whole budget and leaves the actor nothing to do.\<close>

lemma drop_scheduler_returns_budget:
  assumes "session_state chunk dispatch st"
  shows "bs_global (drop_scheduler st) = DISPATCH_CHANNEL_CAPACITY \<and> bs_per_call (drop_scheduler st) = Map.empty \<and>
    \<not> actor_step stalled (drop_scheduler st) st'"
proof -
  from session_inv [OF assms] have "budget_ok st" by (simp add: scheduler_inv_def)
  then have "bs_global (drop_scheduler st) = DISPATCH_CHANNEL_CAPACITY" "bs_per_call (drop_scheduler st) = Map.empty"
    by (auto simp: budget_ok_def drop_scheduler_def fun_eq_iff)
  moreover have "\<not> actor_step stalled (drop_scheduler st) st'"
    by (auto simp: drop_scheduler_def elim: actor_step.cases)
  ultimately show ?thesis by blast
qed

section \<open>Progress\<close>

definition queued :: "'d frame_scheduler \<Rightarrow> nat" where
  "queued st = (\<Sum>c\<in>UNIV. length (waiting st c))"

definition work :: "'d frame_scheduler \<Rightarrow> nat" where
  "work st =
     4 * length (bs_channel st) + 3 * queued st + 2 * length (bs_in_flight st) +
     (if bs_completed st = None then 0 else 1) + (if bs_input_closed st then 0 else 1)"

lemma queued_cong: "bs_pending st = bs_pending st' \<Longrightarrow> queued st = queued st'"
  by (simp add: queued_def waiting_def)

lemma queued_bump:
  assumes "\<And>c. length (waiting st' c) = length (waiting st c) + (if c = d then 1 else 0)"
  shows "queued st' = queued st + 1"
  unfolding queued_def assms by (rule sum_bump)

lemma actor_works:
  assumes "actor_step stalled st st'" "scheduler_inv st"
  shows "work st' < work st \<and> bs_accepted st' = bs_accepted st"
  using assms(1)
proof cases
  case (recv f rest)
  show ?thesis
  proof (cases "sf_call_id f \<in> bs_active st")
    case True
    with recv have "queued st' = queued st + 1"
      by (intro queued_bump [of _ _ "sf_call_id f"]) (simp add: on_received_def waiting_def Let_def split: option.split)
    with True recv show ?thesis by (simp add: work_def on_received_def Let_def)
  next
    case False
    with recv have "queued st' = queued st" by (intro queued_cong) (simp add: on_received_def dispatch_bidi_frame_def)
    with False recv show ?thesis by (simp add: work_def on_received_def dispatch_bidi_frame_def)
  qed
next
  case hang_up
  then have "queued st' = queued st" by (intro queued_cong) (simp add: on_received_def)
  with hang_up show ?thesis by (simp add: work_def on_received_def)
next
  case (finished f)
  then have "queued st' = queued st" by (intro queued_cong) (simp add: finish_frame_def drop_permit_def Let_def)
  moreover obtain k where "length (bs_in_flight st) = Suc k" using finished by (cases "bs_in_flight st") auto
  ultimately show ?thesis using finished
    by (simp add: work_def finish_frame_def drop_permit_def Let_def length_remove1)
next
  case (completed c)
  have lanes: "lanes_ok st" using assms(2) by (simp add: scheduler_inv_def)
  show ?thesis
  proof (rule on_completed_cases [OF lanes completed(2)])
    assume *: "on_completed c st = st\<lparr>bs_completed := None, bs_active := bs_active st - {c}\<rparr>"
    then have "queued (on_completed c st) = queued st" by (intro queued_cong) simp
    with * completed show ?thesis by (simp add: work_def)
  next
    fix f q
    assume *: "bs_pending st c = Some (f # q)"
      "on_completed c st =
         st\<lparr>bs_pending := (bs_pending st)(c := if q = [] then None else Some q), bs_completed := None,
            bs_in_flight := bs_in_flight st @ [f], bs_started := bs_started st @ [f]\<rparr>"
    then have "queued st = queued (on_completed c st) + 1" by (intro queued_bump [of _ _ c]) (simp add: waiting_def)
    with * completed show ?thesis by (simp add: work_def)
  qed
qed

lemma run_works:
  assumes "(actor_step stalled ^^ n) st st'" "scheduler_inv st"
  shows "n + work st' \<le> work st \<and> scheduler_inv st' \<and> bs_accepted st' = bs_accepted st"
  using assms
proof (induction n arbitrary: st')
  case (Suc n)
  then obtain mid where mid: "(actor_step stalled ^^ n) st mid" "actor_step stalled mid st'" by auto
  with Suc show ?case using actor_works [OF mid(2)] actor_inv [OF mid(2)] by force
qed simp

lemma run_session:
  "(actor_step stalled ^^ n) st st' \<Longrightarrow> session_state chunk dispatch st \<Longrightarrow> session_state chunk dispatch st'"
  by (induction n arbitrary: st') (auto intro: acted)

lemma actor_stuck:
  assumes "scheduler_inv st" "\<nexists>st'. actor_step stalled st st'" "c \<notin> stalled"
  shows "of_call c (bs_started st) = of_call c (bs_accepted st) \<and> held st c = 0"
proof -
  have completed: "bs_completed st = None"
    using assms(2) by (cases "bs_completed st") (auto intro: actor_step.completed)
  have "bs_channel st = []"
  proof (cases "bs_input_closed st")
    case True
    with assms(1) show ?thesis by (simp add: scheduler_inv_def closed_ok_def)
  next
    case False
    with assms(2) completed show ?thesis by (cases "bs_channel st") (blast intro: recv)+
  qed
  moreover have idle: "f \<notin> set (bs_in_flight st)" if "sf_call_id f = c" for f
    using assms(2,3) completed that by (blast intro: finished)
  moreover have "bs_pending st c = None"
    using assms(1) idle completed by (intro idle_call_waits_for_nothing) (auto simp: scheduler_inv_def lanes_ok_def)
  moreover have "of_call c (bs_accepted st) = of_call c (bs_started st) @ waiting st c @ of_call c (bs_channel st)"
    using assms(1) by (simp add: scheduler_inv_def fifo_ok_def)
  ultimately show ?thesis by (auto simp: held_def waiting_def filter_empty_conv)
qed

section \<open>Properties\<close>

text \<open>C22: a stalled call holds up no other call. Whatever set of calls never completes a frame again, the actor makes
  at most \<open>work st\<close> steps from a state of a session, and when it can make no further one, every frame it accepted
  for a call outside the set has been handed to the dispatcher and no such frame holds a permit.\<close>

theorem stalled_call_does_not_block:
  assumes "session_state chunk dispatch st" "(actor_step stalled ^^ n) st st'"
  shows "n \<le> work st \<and> bs_accepted st' = bs_accepted st \<and>
    ((\<nexists>next. actor_step stalled st' next) \<longrightarrow>
       (\<forall>c. c \<notin> stalled \<longrightarrow> of_call c (bs_started st') = of_call c (bs_accepted st) \<and> held st' c = 0))"
  using run_works [OF assms(2) session_inv [OF assms(1)]] actor_stuck [of st' stalled] by auto

text \<open>C23: the frames of a call keep their order and none is lost: in every state of a session the accepted frames of
  a call are those started, then those waiting in its lane, then those in the channel, and at most one frame of a
  call is with the dispatcher.\<close>

theorem scheduler_fifo:
  assumes "session_state chunk dispatch st"
  shows "of_call c (bs_accepted st) = of_call c (bs_started st) @ waiting st c @ of_call c (bs_channel st) \<and>
    length (of_call c (bs_in_flight st)) \<le> 1"
proof -
  have "length (of_call c fs) \<le> 1" if "distinct (map sf_call_id fs)" for fs :: "'a scheduled_frame list"
    using that by (induction fs) (auto simp: filter_empty_conv, metis imageI)
  with session_inv [OF assms] show ?thesis by (simp add: scheduler_inv_def fifo_ok_def lanes_ok_def)
qed

text \<open>C24: admission is exact. A call never holds more than 64 frames and the session never more than 256; a carrier
  frame is refused because the session is full, the call is full or the actor is gone, in this order, and is
  accepted otherwise. A refused frame leaves the scheduler as it was.\<close>

theorem scheduler_budget:
  assumes "session_state chunk dispatch st" "bidi_input_call_id chunk frame = Some c"
  shows "held st c \<le> 64 \<and> (\<Sum>d\<in>UNIV. held st d) \<le> 256 \<and>
    fst (route chunk dispatch frame st) =
      (if (\<Sum>d\<in>UNIV. held st d) = 256 then Inl (SessionSaturated c 256)
       else if held st c = 64 then Inl (CallSaturated c 64)
       else if bs_receiver_gone st then Inl (SchedulerClosed c)
       else Inr ()) \<and>
    (fst (route chunk dispatch frame st) \<noteq> Inr () \<longrightarrow> snd (route chunk dispatch frame st) = st)"
proof -
  have ok: "budget_ok st" using session_inv [OF assms(1)] by (simp add: scheduler_inv_def)
  then have sum: "bs_global st + (\<Sum>d\<in>UNIV. held st d) = 256" and le: "held st c \<le> 64"
    and calls: "(case bs_per_call st c of None \<Rightarrow> 0 | Some n \<Rightarrow> n) = held st c"
    by (simp_all add: budget_ok_def DISPATCH_CHANNEL_CAPACITY_def BIDI_FRAMES_PER_CALL_def)
  from sum have full: "bs_global st = 0 \<longleftrightarrow> (\<Sum>d\<in>UNIV. held st d) = 256" and room: "(\<Sum>d\<in>UNIV. held st d) \<le> 256" by auto
  from channel_le_held [of st] sum have ch: "(\<Sum>d\<in>UNIV. held st d) \<noteq> 256 \<Longrightarrow> \<not> 256 \<le> length (bs_channel st)" by simp
  have reserve: "budget_reserve c st =
    (if (\<Sum>d\<in>UNIV. held st d) = 256 then Inl (SessionSaturated c 256)
     else if held st c = 64 then Inl (CallSaturated c 64)
     else Inr (st\<lparr>bs_global := bs_global st - 1, bs_per_call := (bs_per_call st)(c \<mapsto> held st c + 1)\<rparr>) :: 'b schedule_error + _)"
    unfolding budget_reserve_def calls full using le
    by (simp add: DISPATCH_CHANNEL_CAPACITY_def BIDI_FRAMES_PER_CALL_def)
  have "fst (route chunk dispatch frame st) =
      (if (\<Sum>d\<in>UNIV. held st d) = 256 then Inl (SessionSaturated c 256)
       else if held st c = 64 then Inl (CallSaturated c 64)
       else if bs_receiver_gone st then Inl (SchedulerClosed c)
       else Inr ())"
    using assms(2) reserve ch by (simp add: route_def Let_def DISPATCH_CHANNEL_CAPACITY_def)
  moreover have "fst (route chunk dispatch frame st) \<noteq> Inr () \<longrightarrow> snd (route chunk dispatch frame st) = st"
    by (rule route_cases [OF ok, of chunk dispatch frame]) (use assms(2) in simp_all)
  ultimately show ?thesis using le room by simp
qed

section \<open>A session with a stalled call\<close>

text \<open>Two frames of call 1, then one of call 2. Call 1 never completes.\<close>

definition demo_frame :: "call_id \<Rightarrow> byte list \<Rightarrow> byte list" where
  "demo_frame c body = CARRIER_BIDI_INPUT_MAGIC @ [0, 0, 0, 0] @ be64 c @ body"

lemma demo_frame_call: "bidi_input_call_id Some (demo_frame c body) = Some c"
proof -
  have n: "unat (of_be16 [0, 0]) = 0" by (simp add: of_be16_def be_step_def)
  have "decode_carrier_bidi_input (demo_frame c body) =
      Inr (Some \<lparr>ci_call_id = c, ci_content_type = [], ci_payload = body, ci_eof = False\<rparr>)"
    unfolding decode_Inr_Some
    by (simp add: demo_frame_def is_carrier_bidi_input_def CARRIER_BIDI_INPUT_MAGIC_def length_be n of_be64_be64 numeral_eq_Suc)
  then show ?thesis by (simp add: bidi_input_call_id_def)
qed

abbreviation demo_dispatch :: "byte list \<Rightarrow> unit + unit" where
  "demo_dispatch \<equiv> \<lambda>_. Inr ()"

definition scheduled :: "call_id \<Rightarrow> byte list \<Rightarrow> byte list scheduled_frame" where
  "scheduled c body = \<lparr>sf_call_id = c, sf_frame = demo_frame c body\<rparr>"

definition demo_session :: "byte list frame_scheduler" where
  "demo_session =
     spawn\<lparr>bs_global := 253, bs_per_call := [1 \<mapsto> 2, 2 \<mapsto> 1], bs_channel := [scheduled 1 [7], scheduled 1 [8], scheduled 2 [9]],
           bs_accepted := [scheduled 1 [7], scheduled 1 [8], scheduled 2 [9]]\<rparr>"

lemma demo_session_state: "session_state Some demo_dispatch demo_session"
proof -
  let ?r = "\<lambda>c body st. snd (route Some demo_dispatch (demo_frame c body) st)"
  have "?r 2 [9] (?r 1 [8] (?r 1 [7] spawn)) = demo_session"
    by (simp add: route_def demo_frame_call budget_reserve_def spawn_def DISPATCH_CHANNEL_CAPACITY_def
        BIDI_FRAMES_PER_CALL_def demo_session_def scheduled_def Let_def numeral_2_eq_2)
  moreover have "session_state Some demo_dispatch (?r 2 [9] (?r 1 [8] (?r 1 [7] spawn)))"
    by (intro routed spawned)
      (simp_all add: route_def demo_frame_call budget_reserve_def spawn_def DISPATCH_CHANNEL_CAPACITY_def BIDI_FRAMES_PER_CALL_def Let_def)
  ultimately show ?thesis by simp
qed

text \<open>The actor takes in the three frames, the dispatcher answers the one of call 2, and the actor stands still.\<close>

definition demo_stopped :: "byte list frame_scheduler" where
  "demo_stopped =
     demo_session\<lparr>bs_global := 254, bs_per_call := [1 \<mapsto> 2], bs_channel := [], bs_pending := [1 \<mapsto> [scheduled 1 [8]]], bs_active := {1},
       bs_in_flight := [scheduled 1 [7]], bs_started := [scheduled 1 [7], scheduled 2 [9]]\<rparr>"

lemmas demo_steps = demo_session_def demo_stopped_def scheduled_def spawn_def on_received_def dispatch_bidi_frame_def
  finish_frame_def drop_permit_def release_call_def on_completed_def Let_def

lemma demo_schedule: "(actor_step {1} ^^ 5) demo_session demo_stopped"
proof -
  let ?s1 = "on_received (Some (scheduled 1 [7])) (demo_session\<lparr>bs_channel := [scheduled 1 [8], scheduled 2 [9]]\<rparr>)"
  let ?s2 = "on_received (Some (scheduled 1 [8])) (?s1\<lparr>bs_channel := [scheduled 2 [9]]\<rparr>)"
  let ?s3 = "on_received (Some (scheduled 2 [9])) (?s2\<lparr>bs_channel := []\<rparr>)"
  let ?s4 = "finish_frame (scheduled 2 [9]) ?s3"
  have "actor_step {1} demo_session ?s1" "actor_step {1} ?s1 ?s2" "actor_step {1} ?s2 ?s3"
    by (rule recv; simp add: demo_steps)+
  moreover have "actor_step {1} ?s3 ?s4" by (rule finished) (simp_all add: demo_steps)
  moreover have "actor_step {1} ?s4 (on_completed 2 ?s4)" by (rule completed) (simp add: demo_steps)
  moreover have "on_completed 2 ?s4 = demo_stopped" by (simp add: demo_steps insert_Diff_if fun_eq_iff)
  ultimately show ?thesis by (simp add: numeral_eq_Suc) blast
qed

lemma demo_stops: "\<nexists>st. actor_step {1} demo_stopped st"
  by (auto simp: demo_steps elim!: actor_step.cases)

lemma demo_work: "queued demo_session = 0" "length (bs_channel demo_session) = 3"
  by (simp_all add: queued_def waiting_def demo_session_def spawn_def)

theorem stalled_call_does_not_block_witness:
  "session_state Some demo_dispatch demo_session \<and> (actor_step {1} ^^ 5) demo_session demo_stopped \<and> 5 \<le> work demo_session \<and>
   of_call 2 (bs_started demo_stopped) = [scheduled 2 [9]] \<and> held demo_stopped 2 = 0 \<and> held demo_stopped 1 = 2"
proof -
  have accepted: "of_call 2 (bs_accepted demo_session) = [scheduled 2 [9]]" by (simp add: demo_steps)
  have "(2 :: call_id) \<notin> {1}" by simp
  with stalled_call_does_not_block [OF demo_session_state demo_schedule] demo_stops
  have "5 \<le> work demo_session" "of_call 2 (bs_started demo_stopped) = of_call 2 (bs_accepted demo_session)" "held demo_stopped 2 = 0"
    by blast+
  moreover have "held demo_stopped 1 = 2" by (simp add: held_def waiting_def demo_steps)
  ultimately show ?thesis using demo_session_state demo_schedule accepted by simp
qed

theorem scheduler_fifo_witness:
  "of_call 1 (bs_accepted demo_stopped) = [scheduled 1 [7]] @ [scheduled 1 [8]] \<and> length (of_call 1 (bs_in_flight demo_stopped)) \<le> 1"
proof -
  have "session_state Some demo_dispatch demo_stopped"
    by (rule run_session [OF demo_schedule demo_session_state])
  from scheduler_fifo [OF this, of 1] show ?thesis by (simp add: waiting_def demo_steps)
qed

theorem scheduler_budget_witness:
  "held demo_session 1 \<le> 64 \<and> (\<Sum>d\<in>UNIV. held demo_session d) \<le> 256 \<and>
   bidi_input_call_id Some (demo_frame 1 [4]) = Some 1"
  using scheduler_budget [OF demo_session_state demo_frame_call [of 1 "[4]"]] demo_frame_call [of 1 "[4]"] by simp

end
