(* ===== verification/UsageQuota.thy ===== *)
theory UsageQuota
  imports Prelude "HOL-Library.Word" "HOL-Library.AList"
begin

text \<open>
  The usage quota of unary invocations (\<open>src/daemon/invocation/admission/usage_quota.rs\<close>, the policy of
  \<open>src/daemon/persistence/daemon_config.rs\<close> and the exemptions of \<open>quota_meter.rs\<close>).

  \<open>i64\<close> and \<open>i32\<close> values are integers with the saturating operations of the code; reservation ids are 64-bit words
  that wrap. The hash map of windows is an association list, the digest \<open>sha256\<close> a parameter. A reservation that is
  still able to finish carries \<open>qr_store\<close>; \<open>commit\<close> and \<open>Drop\<close> both take it. The gate's operations are single steps:
  the code reads the policy under one lock and reserves under another, and likewise replaces the policy and then
  clears the store, so a policy change can fall between the two. The runs of a gate below keep one policy.
\<close>

section \<open>Saturating arithmetic\<close>

definition I32_MAX :: int where
  "I32_MAX = 2147483647"

definition I64_MAX :: int where
  "I64_MAX = 9223372036854775807"

definition sat64 :: "int \<Rightarrow> int" where
  "sat64 x = max (- I64_MAX - 1) (min I64_MAX x)"

definition sat32 :: "int \<Rightarrow> int" where
  "sat32 x = max (- I32_MAX - 1) (min I32_MAX x)"

text \<open>\<open>i32::try_from(x).unwrap_or(i32::MAX)\<close>.\<close>

definition i32_or_max :: "int \<Rightarrow> int" where
  "i32_or_max x = (if - I32_MAX - 1 \<le> x \<and> x \<le> I32_MAX then x else I32_MAX)"

section \<open>Policy\<close>

record quota_config =
  qc_default_cap_per_window :: int
  qc_window_ms :: int
  qc_per_consumer :: "(string \<times> int) list"

definition DEFAULT_WINDOW_MS :: int where
  "DEFAULT_WINDOW_MS = 60000"

definition quota_config_new :: "int \<Rightarrow> int \<Rightarrow> (string \<times> int) list \<Rightarrow> quota_config" where
  "quota_config_new default_cap window_ms per_consumer =
     \<lparr>qc_default_cap_per_window = default_cap,
      qc_window_ms = (if window_ms > 0 then window_ms else DEFAULT_WINDOW_MS),
      qc_per_consumer = per_consumer\<rparr>"

definition cap_for :: "quota_config \<Rightarrow> string \<Rightarrow> int" where
  "cap_for config consumer_ura =
     (case map_of (qc_per_consumer config) consumer_ura of
        None \<Rightarrow> qc_default_cap_per_window config
      | Some cap \<Rightarrow> cap)"

definition is_quota_exempt_system_ability :: "string \<Rightarrow> bool" where
  "is_quota_exempt_system_ability function \<longleftrightarrow>
     function \<in> {''federation.join'', ''federation.advertise_agent'', ''federation.advertise_abilities'',
       ''federation.heartbeat'', ''federation.resolve'', ''namespace.resolve'', ''namespace.proxy_resolve'',
       ''federation.resolve_key'', ''federation.discover'', ''federation.list_user_devices'',
       ''federation.proxy_list_user_devices'', ''federation.status'', ''federation.revoke'',
       ''federation.subscribe_directory_v2'', ''identity.register_pubkey'', ''identity.revoke_user_pubkey'',
       ''identity.list_user_pubkeys'', ''session.open'', ''runtime.bootstrap_self_identity''}"

definition quota_meters_function :: "string \<Rightarrow> bool" where
  "quota_meters_function function \<longleftrightarrow> \<not> is_quota_exempt_system_ability function"

section \<open>Windows\<close>

definition MAX_QUOTA_TRACKED_KEYS :: nat where
  "MAX_QUOTA_TRACKED_KEYS = 16 * 1024"

definition MAX_QUOTA_CONSUMER_URA_BYTES :: nat where
  "MAX_QUOTA_CONSUMER_URA_BYTES = 512"

definition MAX_QUOTA_ABILITY_NAME_BYTES :: nat where
  "MAX_QUOTA_ABILITY_NAME_BYTES = 256"

datatype quota_deny_reason = BudgetExhausted | StoreSaturated | KeyTooLarge

record quota_decision =
  qd_allowed :: bool
  qd_quota_remaining :: int
  qd_quota_limit :: int
  qd_reset_at_unix_ms :: int
  qd_retry_after_ms :: int
  qd_deny_reason :: "quota_deny_reason option"

definition unmetered :: quota_decision where
  "unmetered =
     \<lparr>qd_allowed = True, qd_quota_remaining = 0, qd_quota_limit = 0, qd_reset_at_unix_ms = 0, qd_retry_after_ms = 0,
      qd_deny_reason = None\<rparr>"

record window_state =
  ws_window_start_ms :: int
  ws_committed :: int
  ws_pending :: "64 word set"

type_synonym quota_key = string

text \<open>\<open>(n as u64).to_le_bytes()\<close>.\<close>

definition le64 :: "nat \<Rightarrow> string" where
  "le64 n = map (\<lambda>i. char_of (n div 256 ^ i)) [0, 1, 2, 3, 4, 5, 6, 7]"

definition quota_key_material :: "string \<Rightarrow> string \<Rightarrow> string" where
  "quota_key_material consumer_ura ability =
     le64 (length consumer_ura) @ consumer_ura @ le64 (length ability) @ ability"

definition quota_key_new :: "(string \<Rightarrow> quota_key) \<Rightarrow> string \<Rightarrow> string \<Rightarrow> quota_deny_reason + quota_key" where
  "quota_key_new sha256 consumer_ura ability =
     (if length consumer_ura > MAX_QUOTA_CONSUMER_URA_BYTES \<or> length ability > MAX_QUOTA_ABILITY_NAME_BYTES
      then Inl KeyTooLarge
      else Inr (sha256 (quota_key_material consumer_ura ability)))"

record quota_store =
  qs_windows :: "(quota_key \<times> window_state) list"
  qs_next_reservation_id :: "64 word"

record quota_reservation =
  qr_store :: bool
  qr_key :: quota_key
  qr_window_start_ms :: int
  qr_reservation_id :: "64 word"
  qr_decision :: quota_decision

definition inactive :: "quota_decision \<Rightarrow> quota_reservation" where
  "inactive decision =
     \<lparr>qr_store = False, qr_key = replicate 32 (char_of (0 :: nat)), qr_window_start_ms = 0, qr_reservation_id = 0,
      qr_decision = decision\<rparr>"

definition quota_store_new :: quota_store where
  "quota_store_new = \<lparr>qs_windows = [], qs_next_reservation_id = 1\<rparr>"

definition prune_expired_windows ::
  "int \<Rightarrow> int \<Rightarrow> (quota_key \<times> window_state) list \<Rightarrow> (quota_key \<times> window_state) list" where
  "prune_expired_windows now_ms window_ms ws =
     filter (\<lambda>(_, state). sat64 (now_ms - ws_window_start_ms state) < window_ms) ws"

text \<open>The window a request runs in: a new one for a new key, the old one opened again when it has expired.\<close>

definition window_entry ::
  "int \<Rightarrow> int \<Rightarrow> window_state option \<Rightarrow> window_state" where
  "window_entry now_ms window_ms entry =
     (let state =
        (case entry of
           None \<Rightarrow> \<lparr>ws_window_start_ms = now_ms, ws_committed = 0, ws_pending = {}\<rparr>
         | Some state \<Rightarrow> state)
      in if sat64 (now_ms - ws_window_start_ms state) \<ge> window_ms
         then state\<lparr>ws_window_start_ms := now_ms, ws_committed := 0, ws_pending := {}\<rparr>
         else state)"

definition window_used :: "window_state \<Rightarrow> int" where
  "window_used state = sat32 (ws_committed state + i32_or_max (int (card (ws_pending state))))"

definition store_reserve ::
  "(string \<Rightarrow> quota_key) \<Rightarrow> string \<Rightarrow> string \<Rightarrow> int \<Rightarrow> int \<Rightarrow> int \<Rightarrow> quota_store \<Rightarrow> quota_reservation \<times> quota_store" where
  "store_reserve sha256 consumer_ura ability cap window_ms now_ms st =
     (if cap \<le> 0 then (inactive unmetered, st)
      else
        let window_ms = max window_ms 1 in
        case quota_key_new sha256 consumer_ura ability of
          Inl reason \<Rightarrow>
            (inactive \<lparr>qd_allowed = False, qd_quota_remaining = 0, qd_quota_limit = cap,
               qd_reset_at_unix_ms = sat64 (now_ms + window_ms), qd_retry_after_ms = 0, qd_deny_reason = Some reason\<rparr>, st)
        | Inr key \<Rightarrow>
            (let full = (map_of (qs_windows st) key = None \<and> length (qs_windows st) \<ge> MAX_QUOTA_TRACKED_KEYS);
                 guard = (if full then prune_expired_windows now_ms window_ms (qs_windows st) else qs_windows st)
             in
               if full \<and> length guard \<ge> MAX_QUOTA_TRACKED_KEYS then
                 (inactive \<lparr>qd_allowed = False, qd_quota_remaining = 0, qd_quota_limit = cap,
                    qd_reset_at_unix_ms = sat64 (now_ms + window_ms), qd_retry_after_ms = i32_or_max window_ms,
                    qd_deny_reason = Some StoreSaturated\<rparr>, st\<lparr>qs_windows := guard\<rparr>)
               else
                 let state = window_entry now_ms window_ms (map_of guard key);
                     reset_at = sat64 (ws_window_start_ms state + window_ms);
                     used = window_used state
                 in
                   if used \<ge> cap then
                     (inactive \<lparr>qd_allowed = False, qd_quota_remaining = 0, qd_quota_limit = cap,
                        qd_reset_at_unix_ms = reset_at, qd_retry_after_ms = i32_or_max (max (sat64 (reset_at - now_ms)) 0),
                        qd_deny_reason = Some BudgetExhausted\<rparr>, st\<lparr>qs_windows := AList.update key state guard\<rparr>)
                   else
                     let reservation_id = qs_next_reservation_id st in
                     (\<lparr>qr_store = True, qr_key = key, qr_window_start_ms = ws_window_start_ms state,
                       qr_reservation_id = reservation_id,
                       qr_decision = \<lparr>qd_allowed = True, qd_quota_remaining = cap - used - 1, qd_quota_limit = cap,
                         qd_reset_at_unix_ms = reset_at, qd_retry_after_ms = 0, qd_deny_reason = None\<rparr>\<rparr>,
                      st\<lparr>qs_windows := AList.update key (state\<lparr>ws_pending := insert reservation_id (ws_pending state)\<rparr>) guard,
                         qs_next_reservation_id := reservation_id + 1\<rparr>)))"

definition finish_reservation :: "quota_key \<Rightarrow> int \<Rightarrow> 64 word \<Rightarrow> bool \<Rightarrow> quota_store \<Rightarrow> quota_store" where
  "finish_reservation key window_start_ms reservation_id commit st =
     (case map_of (qs_windows st) key of
        None \<Rightarrow> st
      | Some state \<Rightarrow>
          if ws_window_start_ms state \<noteq> window_start_ms \<or> reservation_id \<notin> ws_pending state then st
          else
            let state = state\<lparr>ws_pending := ws_pending state - {reservation_id}\<rparr> in
            if commit then
              st\<lparr>qs_windows := AList.update key (state\<lparr>ws_committed := sat32 (ws_committed state + 1)\<rparr>) (qs_windows st)\<rparr>
            else if ws_committed state = 0 \<and> ws_pending state = {} then
              st\<lparr>qs_windows := AList.delete key (qs_windows st)\<rparr>
            else st\<lparr>qs_windows := AList.update key state (qs_windows st)\<rparr>)"

definition commit_reservation :: "quota_reservation \<Rightarrow> quota_store \<Rightarrow> quota_store" where
  "commit_reservation r st =
     (if qr_store r then finish_reservation (qr_key r) (qr_window_start_ms r) (qr_reservation_id r) True st else st)"

definition drop_reservation :: "quota_reservation \<Rightarrow> quota_store \<Rightarrow> quota_store" where
  "drop_reservation r st =
     (if qr_store r then finish_reservation (qr_key r) (qr_window_start_ms r) (qr_reservation_id r) False st else st)"

definition store_check_and_record ::
  "(string \<Rightarrow> quota_key) \<Rightarrow> string \<Rightarrow> string \<Rightarrow> int \<Rightarrow> int \<Rightarrow> int \<Rightarrow> quota_store \<Rightarrow> quota_decision \<times> quota_store" where
  "store_check_and_record sha256 consumer_ura ability cap window_ms now_ms st =
     (let (reservation, st) = store_reserve sha256 consumer_ura ability cap window_ms now_ms st
      in (qr_decision reservation, commit_reservation reservation st))"

definition store_clear :: "quota_store \<Rightarrow> quota_store" where
  "store_clear st = st\<lparr>qs_windows := []\<rparr>"

definition store_len :: "quota_store \<Rightarrow> nat" where
  "store_len st = length (qs_windows st)"

section \<open>Gate\<close>

record quota_gate =
  qg_policy :: "quota_config option"
  qg_store :: quota_store

definition from_policy :: "quota_config option \<Rightarrow> quota_gate" where
  "from_policy policy = \<lparr>qg_policy = policy, qg_store = quota_store_new\<rparr>"

definition replace_policy :: "quota_config option \<Rightarrow> quota_gate \<Rightarrow> quota_gate" where
  "replace_policy next gate =
     (let gate = gate\<lparr>qg_policy := next\<rparr>
      in if next = None then gate\<lparr>qg_store := store_clear (qg_store gate)\<rparr> else gate)"

definition gate_reserve ::
  "(string \<Rightarrow> quota_key) \<Rightarrow> string \<Rightarrow> string \<Rightarrow> int \<Rightarrow> quota_gate \<Rightarrow> quota_reservation option \<times> quota_gate" where
  "gate_reserve sha256 consumer_ura ability now_ms gate =
     (case qg_policy gate of
        None \<Rightarrow> (None, gate)
      | Some policy \<Rightarrow>
          let cap = cap_for policy consumer_ura; window_ms = qc_window_ms policy in
          if cap \<le> 0 then (None, gate)
          else
            let (reservation, st) = store_reserve sha256 consumer_ura ability cap window_ms now_ms (qg_store gate)
            in (Some reservation, gate\<lparr>qg_store := st\<rparr>))"

definition gate_check_and_record ::
  "(string \<Rightarrow> quota_key) \<Rightarrow> string \<Rightarrow> string \<Rightarrow> int \<Rightarrow> quota_gate \<Rightarrow> quota_decision option \<times> quota_gate" where
  "gate_check_and_record sha256 consumer_ura ability now_ms gate =
     (case gate_reserve sha256 consumer_ura ability now_ms gate of
        (None, gate) \<Rightarrow> (None, gate)
      | (Some reservation, gate) \<Rightarrow>
          (Some (qr_decision reservation), gate\<lparr>qg_store := commit_reservation reservation (qg_store gate)\<rparr>))"

section \<open>Invariant\<close>

lemma length_update: "length (AList.update k v al) = length al + (if k \<in> fst ` set al then 0 else 1)"
  by (induction al) auto

lemma map_of_filter_values:
  "distinct (map fst al) \<Longrightarrow>
     map_of (filter (\<lambda>(_, v). P v) al) k = (case map_of al k of None \<Rightarrow> None | Some v \<Rightarrow> if P v then Some v else None)"
proof (induction al)
  case (Cons a al)
  then have "fst a \<notin> dom (map_of al)" by (simp add: dom_map_of_conv_image_fst)
  with Cons show ?case by (cases a) (auto split: option.split)
qed simp

lemma distinct_filter_keys: "distinct (map fst al) \<Longrightarrow> distinct (map fst (filter P al))"
  by (induction al) auto

definition window_ok :: "64 word \<Rightarrow> window_state \<Rightarrow> bool" where
  "window_ok next w \<longleftrightarrow>
     0 \<le> ws_committed w \<and> (ws_committed w \<noteq> 0 \<or> ws_pending w \<noteq> {}) \<and>
     ws_committed w + int (card (ws_pending w)) \<le> I32_MAX \<and> (\<forall>i \<in> ws_pending w. i < next)"

definition store_ok :: "quota_store \<Rightarrow> bool" where
  "store_ok st \<longleftrightarrow>
     distinct (map fst (qs_windows st)) \<and> length (qs_windows st) \<le> MAX_QUOTA_TRACKED_KEYS \<and>
     (\<forall>k w. map_of (qs_windows st) k = Some w \<longrightarrow> window_ok (qs_next_reservation_id st) w)"

text \<open>The usage of one key.\<close>

definition capped :: "int \<Rightarrow> quota_key \<Rightarrow> quota_store \<Rightarrow> bool" where
  "capped n k st \<longleftrightarrow>
     (case map_of (qs_windows st) k of
        None \<Rightarrow> True
      | Some w \<Rightarrow> ws_committed w + int (card (ws_pending w)) \<le> n)"

text \<open>The windows that have not expired.\<close>

definition live_view :: "int \<Rightarrow> int \<Rightarrow> quota_store \<Rightarrow> quota_key \<rightharpoonup> window_state" where
  "live_view now_ms window_ms st = map_of (prune_expired_windows now_ms window_ms (qs_windows st))"

lemma live_view_eq:
  assumes "store_ok st"
  shows "live_view now window st k =
    (case map_of (qs_windows st) k of
       None \<Rightarrow> None
     | Some w \<Rightarrow> if sat64 (now - ws_window_start_ms w) < window then Some w else None)"
  using assms unfolding live_view_def prune_expired_windows_def store_ok_def
  by (intro map_of_filter_values [where P = "\<lambda>w. sat64 (now - ws_window_start_ms w) < window"]) simp

lemma card_live_view:
  assumes "store_ok st"
  shows "card (dom (live_view now window st)) = length (prune_expired_windows now window (qs_windows st))"
proof -
  have "distinct (map fst (prune_expired_windows now window (qs_windows st)))"
    using assms by (simp add: store_ok_def prune_expired_windows_def distinct_filter_keys)
  then show ?thesis
    unfolding live_view_def dom_map_of_conv_image_fst by (metis distinct_card length_map list.set_map)
qed

lemma window_used_exact: "window_ok n w \<Longrightarrow> window_used w = ws_committed w + int (card (ws_pending w))"
  by (simp add: window_ok_def window_used_def i32_or_max_def sat32_def I32_MAX_def)

lemma sat64_zero [simp]: "sat64 0 = 0"
  by (simp add: sat64_def I64_MAX_def)

definition fresh_window :: "int \<Rightarrow> window_state" where
  "fresh_window now = \<lparr>ws_window_start_ms = now, ws_committed = 0, ws_pending = {}\<rparr>"

lemma window_entry_eq:
  assumes "1 \<le> window"
  shows "window_entry now window entry =
    (case entry of
       None \<Rightarrow> fresh_window now
     | Some w \<Rightarrow> if sat64 (now - ws_window_start_ms w) < window then w else fresh_window now)"
  using assms by (auto simp: window_entry_def fresh_window_def split: option.split)

lemma fresh_unused [simp]: "window_used (fresh_window now) = 0"
  by (simp add: fresh_window_def window_used_def i32_or_max_def sat32_def I32_MAX_def)

lemma fresh_window_fields [simp]:
  "ws_window_start_ms (fresh_window now) = now" "ws_committed (fresh_window now) = 0" "ws_pending (fresh_window now) = {}"
  by (simp_all add: fresh_window_def)

text \<open>The specification of a reservation reads and changes nothing but the live windows.\<close>

definition spec_decision ::
  "int \<Rightarrow> int \<Rightarrow> int \<Rightarrow> quota_key \<Rightarrow> (quota_key \<rightharpoonup> window_state) \<Rightarrow> quota_decision" where
  "spec_decision cap window now key live =
     (if live key = None \<and> card (dom live) \<ge> MAX_QUOTA_TRACKED_KEYS then
        \<lparr>qd_allowed = False, qd_quota_remaining = 0, qd_quota_limit = cap, qd_reset_at_unix_ms = sat64 (now + window),
         qd_retry_after_ms = i32_or_max window, qd_deny_reason = Some StoreSaturated\<rparr>
      else
        let w = (case live key of None \<Rightarrow> fresh_window now | Some w \<Rightarrow> w);
            used = ws_committed w + int (card (ws_pending w));
            reset_at = sat64 (ws_window_start_ms w + window)
        in if used \<ge> cap
           then \<lparr>qd_allowed = False, qd_quota_remaining = 0, qd_quota_limit = cap, qd_reset_at_unix_ms = reset_at,
                 qd_retry_after_ms = i32_or_max (max (sat64 (reset_at - now)) 0), qd_deny_reason = Some BudgetExhausted\<rparr>
           else \<lparr>qd_allowed = True, qd_quota_remaining = cap - used - 1, qd_quota_limit = cap, qd_reset_at_unix_ms = reset_at,
                 qd_retry_after_ms = 0, qd_deny_reason = None\<rparr>)"

definition spec_reserve ::
  "int \<Rightarrow> int \<Rightarrow> int \<Rightarrow> quota_key \<Rightarrow> 64 word \<Rightarrow> (quota_key \<rightharpoonup> window_state) \<Rightarrow> quota_key \<rightharpoonup> window_state" where
  "spec_reserve cap window now key rid live =
     (if qd_allowed (spec_decision cap window now key live)
      then let w = (case live key of None \<Rightarrow> fresh_window now | Some w \<Rightarrow> w)
           in live(key \<mapsto> w\<lparr>ws_pending := insert rid (ws_pending w)\<rparr>)
      else live)"

text \<open>The window list a reservation works on, and the window it runs in.\<close>

definition reserve_guard :: "int \<Rightarrow> int \<Rightarrow> quota_key \<Rightarrow> quota_store \<Rightarrow> (quota_key \<times> window_state) list" where
  "reserve_guard now window key st =
     (if map_of (qs_windows st) key = None \<and> length (qs_windows st) \<ge> MAX_QUOTA_TRACKED_KEYS
      then prune_expired_windows now window (qs_windows st) else qs_windows st)"

definition reserve_window :: "int \<Rightarrow> int \<Rightarrow> quota_key \<Rightarrow> quota_store \<Rightarrow> window_state" where
  "reserve_window now window key st =
     (case live_view now window st key of None \<Rightarrow> fresh_window now | Some w \<Rightarrow> w)"

definition saturated :: "int \<Rightarrow> int \<Rightarrow> quota_key \<Rightarrow> quota_store \<Rightarrow> bool" where
  "saturated now window key st \<longleftrightarrow>
     live_view now window st key = None \<and> card (dom (live_view now window st)) \<ge> MAX_QUOTA_TRACKED_KEYS"

lemma saturated_iff:
  assumes "store_ok st"
  shows "saturated now window key st \<longleftrightarrow>
    (map_of (qs_windows st) key = None \<and> length (qs_windows st) \<ge> MAX_QUOTA_TRACKED_KEYS) \<and>
    length (reserve_guard now window key st) \<ge> MAX_QUOTA_TRACKED_KEYS"
    (is "?sat \<longleftrightarrow> ?full \<and> ?guard")
proof
  assume sat: ?sat
  then have len: "MAX_QUOTA_TRACKED_KEYS \<le> length (prune_expired_windows now window (qs_windows st))"
    by (simp add: saturated_def card_live_view [OF assms])
  moreover have le: "length (prune_expired_windows now window (qs_windows st)) \<le> length (qs_windows st)"
    by (simp add: prune_expired_windows_def)
  moreover have max: "length (qs_windows st) \<le> MAX_QUOTA_TRACKED_KEYS" using assms by (simp add: store_ok_def)
  ultimately have "length (prune_expired_windows now window (qs_windows st)) = length (qs_windows st)" by simp
  then have "prune_expired_windows now window (qs_windows st) = qs_windows st"
    unfolding prune_expired_windows_def by (metis filter_id_conv filter_True length_filter_less nat_less_le)
  then have "map_of (qs_windows st) key = None" using sat by (simp add: saturated_def live_view_def)
  with len le show "?full \<and> ?guard" by (simp add: reserve_guard_def)
next
  assume "?full \<and> ?guard"
  then show ?sat
    using live_view_eq [OF assms] by (auto simp: saturated_def card_live_view [OF assms] reserve_guard_def split: if_splits)
qed

lemma guard_live:
  assumes "store_ok st"
  shows "map_of (prune_expired_windows now window (reserve_guard now window key st)) = live_view now window st"
  by (simp add: reserve_guard_def live_view_def prune_expired_windows_def)

lemma guard_map:
  assumes "store_ok st" "map_of (reserve_guard now window key st) k = Some w"
  shows "map_of (qs_windows st) k = Some w"
  using assms live_view_eq [OF assms(1), of now window k]
  by (auto simp: reserve_guard_def live_view_def split: if_splits option.splits)

lemma guard_ok:
  assumes "store_ok st"
  shows "distinct (map fst (reserve_guard now window key st))" "length (reserve_guard now window key st) \<le> MAX_QUOTA_TRACKED_KEYS"
  using assms order_trans [OF length_filter_le]
  by (auto simp: reserve_guard_def store_ok_def prune_expired_windows_def distinct_filter_keys)

lemma entry_window:
  assumes "store_ok st" "1 \<le> window"
  shows "window_entry now window (map_of (reserve_guard now window key st) key) = reserve_window now window key st"
  using live_view_eq [OF assms(1), of now window key] unfolding window_entry_eq [OF assms(2)] reserve_window_def reserve_guard_def
  by (auto simp: live_view_def split: option.splits)

lemma reserve_window_ok:
  assumes "store_ok st"
  shows "reserve_window now window key st = fresh_window now \<and> live_view now window st key = None \<or>
    live_view now window st key = Some (reserve_window now window key st) \<and>
    map_of (qs_windows st) key = Some (reserve_window now window key st) \<and>
    window_ok (qs_next_reservation_id st) (reserve_window now window key st)"
  using assms live_view_eq [OF assms, of now window key]
  by (auto simp: reserve_window_def store_ok_def split: option.splits if_splits)

lemma reserve_window_used:
  "store_ok st \<Longrightarrow> window_used (reserve_window now window key st) =
     ws_committed (reserve_window now window key st) + int (card (ws_pending (reserve_window now window key st)))"
  using reserve_window_ok [of st now window key] by (auto simp: window_used_exact)

lemma store_reserve_eq:
  assumes "store_ok st" "0 < cap" "quota_key_new sha256 c a = Inr key"
  shows "store_reserve sha256 c a cap window now st =
    (let W = max window 1; w = reserve_window now W key st; d = spec_decision cap W now key (live_view now W st);
         guard = reserve_guard now W key st; rid = qs_next_reservation_id st
     in if saturated now W key st then (inactive d, st\<lparr>qs_windows := guard\<rparr>)
        else if window_used w \<ge> cap then (inactive d, st\<lparr>qs_windows := AList.update key w guard\<rparr>)
        else (\<lparr>qr_store = True, qr_key = key, qr_window_start_ms = ws_window_start_ms w, qr_reservation_id = rid, qr_decision = d\<rparr>,
              st\<lparr>qs_windows := AList.update key (w\<lparr>ws_pending := insert rid (ws_pending w)\<rparr>) guard, qs_next_reservation_id := rid + 1\<rparr>))"
proof -
  define W where "W = max window 1"
  have W: "1 \<le> W" by (simp add: W_def)
  note sat = saturated_iff [OF assms(1), of now W key]
  show ?thesis
  proof (cases "saturated now W key st")
    case True
    then have "spec_decision cap W now key (live_view now W st) =
        \<lparr>qd_allowed = False, qd_quota_remaining = 0, qd_quota_limit = cap, qd_reset_at_unix_ms = sat64 (now + W),
         qd_retry_after_ms = i32_or_max W, qd_deny_reason = Some StoreSaturated\<rparr>"
      by (simp add: spec_decision_def saturated_def)
    moreover have "map_of (qs_windows st) key = None" "MAX_QUOTA_TRACKED_KEYS \<le> length (qs_windows st)"
      "reserve_guard now W key st = prune_expired_windows now W (qs_windows st)"
      "MAX_QUOTA_TRACKED_KEYS \<le> length (prune_expired_windows now W (qs_windows st))"
      using True sat by (auto simp: reserve_guard_def)
    ultimately show ?thesis
      using True assms(2,3) unfolding store_reserve_def W_def [symmetric] by (simp add: Let_def)
  next
    case False
    have d: "spec_decision cap W now key (live_view now W st) =
        (let w = reserve_window now W key st; reset_at = sat64 (ws_window_start_ms w + W)
         in if window_used w \<ge> cap
           then \<lparr>qd_allowed = False, qd_quota_remaining = 0, qd_quota_limit = cap, qd_reset_at_unix_ms = reset_at,
                 qd_retry_after_ms = i32_or_max (max (sat64 (reset_at - now)) 0), qd_deny_reason = Some BudgetExhausted\<rparr>
           else \<lparr>qd_allowed = True, qd_quota_remaining = cap - window_used w - 1, qd_quota_limit = cap,
                 qd_reset_at_unix_ms = reset_at, qd_retry_after_ms = 0, qd_deny_reason = None\<rparr>)"
      using False reserve_window_used [OF assms(1), of now W key]
      unfolding spec_decision_def saturated_def [symmetric] reserve_window_def [symmetric] Let_def by simp
    from False sat assms(2,3) show ?thesis
      unfolding store_reserve_def Let_def W_def [symmetric] d reserve_guard_def [symmetric] entry_window [OF assms(1) W] by auto
  qed
qed

lemma guard_room:
  assumes "store_ok st" "\<not> saturated now window key st" "key \<notin> fst ` set (reserve_guard now window key st)"
  shows "length (reserve_guard now window key st) < MAX_QUOTA_TRACKED_KEYS"
  using assms(2,3) guard_ok(2) [OF assms(1), of now window key] unfolding saturated_iff [OF assms(1)]
  by (auto simp: reserve_guard_def dom_map_of_conv_image_fst [symmetric] split: if_splits)

lemma window_ok_next:
  assumes "window_ok n w" "n \<noteq> - 1"
  shows "window_ok (n + 1) w"
proof -
  from assms(2) have "unat (n + 1) = unat n + 1" using unatSuc [of n] by (simp add: add.commute eq_neg_iff_add_eq_0)
  with assms(1) show ?thesis by (auto simp: window_ok_def word_less_nat_alt less_Suc_eq)
qed

lemma window_ok_insert:
  assumes "window_ok n w \<or> w = fresh_window now" "window_used w < cap" "cap \<le> I32_MAX" "n \<noteq> - 1"
  shows "window_ok (n + 1) (w\<lparr>ws_pending := insert n (ws_pending w)\<rparr>)"
    "ws_committed w + int (card (insert n (ws_pending w))) \<le> cap"
proof -
  from assms(4) have n: "unat (n + 1) = unat n + 1" using unatSuc [of n] by (simp add: add.commute eq_neg_iff_add_eq_0)
  have used: "window_used w = ws_committed w + int (card (ws_pending w))" using assms(1) by (auto simp: window_used_exact)
  have card: "int (card (insert n (ws_pending w))) \<le> int (card (ws_pending w)) + 1" by (simp add: card_insert_if)
  with used assms(2) show le: "ws_committed w + int (card (insert n (ws_pending w))) \<le> cap" by simp
  have "0 \<le> ws_committed w" "\<forall>i \<in> ws_pending w. unat i < unat n"
    using assms(1) by (auto simp: window_ok_def word_less_nat_alt)
  with le assms(3) n show "window_ok (n + 1) (w\<lparr>ws_pending := insert n (ws_pending w)\<rparr>)"
    by (auto simp: window_ok_def word_less_nat_alt less_Suc_eq)
qed

lemma reserve_unkeyed:
  "\<not> (0 < cap \<and> (\<exists>key. quota_key_new sha256 c a = Inr key)) \<Longrightarrow> snd (store_reserve sha256 c a cap window now st) = st"
  by (cases "quota_key_new sha256 c a") (auto simp: store_reserve_def Let_def)

lemma reserve_unkeyed_inactive:
  "\<not> (0 < cap \<and> (\<exists>key. quota_key_new sha256 c a = Inr key)) \<Longrightarrow> \<not> qr_store (fst (store_reserve sha256 c a cap window now st))"
  by (cases "quota_key_new sha256 c a") (auto simp: store_reserve_def inactive_def Let_def)

text \<open>Writing one window of the list a reservation works on.\<close>

lemma guard_update_ok:
  assumes "store_ok st" "\<not> saturated now window key st" "window_ok n w"
    and "\<And>w. window_ok (qs_next_reservation_id st) w \<Longrightarrow> window_ok n w"
  shows "store_ok (st\<lparr>qs_windows := AList.update key w (reserve_guard now window key st), qs_next_reservation_id := n\<rparr>)"
proof -
  let ?g = "reserve_guard now window key st"
  have "length (AList.update key w ?g) \<le> MAX_QUOTA_TRACKED_KEYS"
    using guard_room [OF assms(1,2)] guard_ok(2) [OF assms(1), of now window key] by (auto simp: length_update)
  moreover have "window_ok n v" if "map_of (AList.update key w ?g) k = Some v" for k v
    using that assms(3,4) guard_map [OF assms(1), of now window key k] assms(1)
    by (auto simp: update_conv' store_ok_def split: if_splits)
  ultimately show ?thesis
    using guard_ok(1) [OF assms(1)] by (simp add: store_ok_def distinct_update)
qed

lemma guard_store_ok:
  assumes "store_ok st"
  shows "store_ok (st\<lparr>qs_windows := reserve_guard now window key st\<rparr>)"
proof -
  have "window_ok (qs_next_reservation_id st) w" if "map_of (reserve_guard now window key st) k = Some w" for k w
    using guard_map [OF assms that] assms unfolding store_ok_def by blast
  then show ?thesis using guard_ok [OF assms] by (simp add: store_ok_def)
qed

lemma reserve_ok:
  assumes "store_ok st" "cap \<le> I32_MAX" "qs_next_reservation_id st \<noteq> - 1"
  shows "store_ok (snd (store_reserve sha256 c a cap window now st))"
proof (cases "0 < cap \<and> (\<exists>key. quota_key_new sha256 c a = Inr key)")
  case False
  from assms(1) show ?thesis unfolding reserve_unkeyed [OF False] .
next
  case True
  then obtain key where key: "0 < cap" "quota_key_new sha256 c a = Inr key" by blast
  define W where "W = max window 1"
  define w where "w = reserve_window now W key st"
  let ?n = "qs_next_reservation_id st" and ?g = "reserve_guard now W key st"
  have w: "window_ok ?n w \<or> w = fresh_window now" using reserve_window_ok [OF assms(1), of now W key] by (auto simp: w_def)
  consider (sat) "saturated now W key st" | (full) "\<not> saturated now W key st" "cap \<le> window_used w"
    | (room) "\<not> saturated now W key st" "window_used w < cap" by linarith
  then show ?thesis
  proof cases
    case sat
    with guard_store_ok [OF assms(1)] show ?thesis
      unfolding store_reserve_eq [OF assms(1) key] by (simp add: W_def [symmetric] Let_def)
  next
    case full
    then have "window_ok ?n w" using w key(1) by auto
    from guard_update_ok [OF assms(1) full(1) this] full show ?thesis
      unfolding store_reserve_eq [OF assms(1) key] by (simp add: W_def [symmetric] w_def [symmetric] Let_def)
  next
    case room
    from guard_update_ok [OF assms(1) room(1) window_ok_insert(1) [OF w room(2) assms(2,3)] window_ok_next [OF _ assms(3)]] room
    show ?thesis
      unfolding store_reserve_eq [OF assms(1) key] by (simp add: W_def [symmetric] w_def [symmetric] Let_def)
  qed
qed

lemma reserve_capped:
  assumes "store_ok st" "capped n k st" "cap \<le> I32_MAX" "qs_next_reservation_id st \<noteq> - 1"
    and "quota_key_new sha256 c a = Inr k \<Longrightarrow> cap \<le> n"
  shows "capped n k (snd (store_reserve sha256 c a cap window now st))"
proof (cases "0 < cap \<and> (\<exists>key. quota_key_new sha256 c a = Inr key)")
  case False
  from assms(2) show ?thesis unfolding reserve_unkeyed [OF False] .
next
  case True
  then obtain key where key: "0 < cap" "quota_key_new sha256 c a = Inr key" by blast
  define W where "W = max window 1"
  define w where "w = reserve_window now W key st"
  have w: "window_ok (qs_next_reservation_id st) w \<and> map_of (qs_windows st) key = Some w \<or> w = fresh_window now"
    using reserve_window_ok [OF assms(1), of now W key] by (auto simp: w_def)
  have others: "capped n k (st\<lparr>qs_windows := reserve_guard now W key st\<rparr>)"
    using assms(2) guard_map [OF assms(1), of now W key k] by (auto simp: capped_def split: option.splits)
  have full: "cap \<le> window_used w \<Longrightarrow> key = k \<Longrightarrow> ws_committed w + int (card (ws_pending w)) \<le> n"
    using w key(1) assms(2) by (auto simp: capped_def)
  have room: "window_used w < cap \<Longrightarrow> key = k \<Longrightarrow>
      ws_committed w + int (card (insert (qs_next_reservation_id st) (ws_pending w))) \<le> n"
    using window_ok_insert(2) [OF _ _ assms(3,4), of w] w key(2) assms(5) by force
  show ?thesis
    unfolding store_reserve_eq [OF assms(1) key] using others full room
    by (auto simp: W_def [symmetric] w_def [symmetric] Let_def capped_def update_conv' split: option.splits)
qed

lemma finish_cases:
  obtains "finish_reservation key start rid commit st = st"
    | w where "map_of (qs_windows st) key = Some w" "ws_window_start_ms w = start" "rid \<in> ws_pending w" "commit"
        "finish_reservation key start rid commit st =
           st\<lparr>qs_windows := AList.update key
             (w\<lparr>ws_pending := ws_pending w - {rid}, ws_committed := sat32 (ws_committed w + 1)\<rparr>) (qs_windows st)\<rparr>"
    | w where "map_of (qs_windows st) key = Some w" "ws_window_start_ms w = start" "rid \<in> ws_pending w" "\<not> commit"
        "ws_committed w = 0" "ws_pending w = {rid}"
        "finish_reservation key start rid commit st = st\<lparr>qs_windows := AList.delete key (qs_windows st)\<rparr>"
    | w where "map_of (qs_windows st) key = Some w" "ws_window_start_ms w = start" "rid \<in> ws_pending w" "\<not> commit"
        "ws_committed w \<noteq> 0 \<or> ws_pending w \<noteq> {rid}"
        "finish_reservation key start rid commit st =
           st\<lparr>qs_windows := AList.update key (w\<lparr>ws_pending := ws_pending w - {rid}\<rparr>) (qs_windows st)\<rparr>"
proof (cases "map_of (qs_windows st) key")
  case None
  then show thesis by (intro that(1)) (simp add: finish_reservation_def)
next
  case (Some w)
  show thesis
  proof (cases "ws_window_start_ms w \<noteq> start \<or> rid \<notin> ws_pending w")
    case True
    with Some show thesis by (intro that(1)) (auto simp: finish_reservation_def)
  next
    case False
    then have *: "ws_window_start_ms w = start" "rid \<in> ws_pending w" "ws_pending w - {rid} = {} \<longleftrightarrow> ws_pending w = {rid}" by auto
    show thesis
    proof (cases commit)
      case True
      with Some * show thesis by (intro that(2) [of w]) (simp_all add: finish_reservation_def)
    next
      case no: False
      show thesis
      proof (cases "ws_committed w = 0 \<and> ws_pending w = {rid}")
        case True
        with Some * no show thesis by (intro that(3) [of w]) (auto simp: finish_reservation_def)
      next
        case False
        with Some * no show thesis by (intro that(4) [of w]) (auto simp: finish_reservation_def)
      qed
    qed
  qed
qed

lemma update_existing_ok:
  assumes "store_ok st" "map_of (qs_windows st) key = Some v" "window_ok (qs_next_reservation_id st) w"
  shows "store_ok (st\<lparr>qs_windows := AList.update key w (qs_windows st)\<rparr>)"
  using assms by (auto simp: store_ok_def update_conv' distinct_update length_update dom_map_of_conv_image_fst [symmetric])

lemma card_remove_pending:
  fixes p :: "64 word set"
  assumes "rid \<in> p"
  shows "int (card (p - {rid})) = int (card p) - 1"
proof -
  have "card p = Suc (card (p - {rid}))" using assms by (simp only: card_Suc_Diff1 [OF finite assms])
  then show ?thesis by linarith
qed

lemma window_ok_commit:
  assumes "window_ok n w" "rid \<in> ws_pending w"
  shows "window_ok n (w\<lparr>ws_pending := ws_pending w - {rid}, ws_committed := sat32 (ws_committed w + 1)\<rparr>)"
    "sat32 (ws_committed w + 1) + int (card (ws_pending w - {rid})) = ws_committed w + int (card (ws_pending w))"
proof -
  have le: "0 \<le> ws_committed w" "ws_committed w + int (card (ws_pending w)) \<le> I32_MAX" using assms(1) by (simp_all add: window_ok_def)
  have "0 \<le> int (card (ws_pending w - {rid}))" by simp
  then have "1 \<le> int (card (ws_pending w))" unfolding card_remove_pending [OF assms(2)] by linarith
  with le have sat: "sat32 (ws_committed w + 1) = ws_committed w + 1" by (simp add: sat32_def I32_MAX_def)
  show total: "sat32 (ws_committed w + 1) + int (card (ws_pending w - {rid})) = ws_committed w + int (card (ws_pending w))"
    unfolding sat card_remove_pending [OF assms(2)] by simp
  show "window_ok n (w\<lparr>ws_pending := ws_pending w - {rid}, ws_committed := sat32 (ws_committed w + 1)\<rparr>)"
    using assms(1) le total unfolding window_ok_def sat by auto
qed

lemma window_ok_rollback:
  assumes "window_ok n w" "rid \<in> ws_pending w" "ws_committed w \<noteq> 0 \<or> ws_pending w \<noteq> {rid}"
  shows "window_ok n (w\<lparr>ws_pending := ws_pending w - {rid}\<rparr>)"
proof -
  have "ws_committed w + int (card (ws_pending w - {rid})) \<le> I32_MAX"
    using assms(1) unfolding window_ok_def card_remove_pending [OF assms(2)] by auto
  with assms show ?thesis by (auto simp: window_ok_def)
qed

lemma finish_ok:
  assumes "store_ok st"
  shows "store_ok (finish_reservation key start rid commit st)"
proof (cases rule: finish_cases [where key = key and start = start and rid = rid and commit = commit and st = st])
  case (2 w)
  from assms 2(1) have "window_ok (qs_next_reservation_id st) w" by (auto simp: store_ok_def)
  then show ?thesis unfolding 2(5) by (intro update_existing_ok [OF assms 2(1)] window_ok_commit(1) 2(3))
next
  case (3 w)
  have "length (AList.delete key (qs_windows st)) \<le> MAX_QUOTA_TRACKED_KEYS"
    using assms length_delete_le [of key "qs_windows st"] by (simp add: store_ok_def)
  with assms show ?thesis unfolding 3(7) by (auto simp: store_ok_def delete_conv' distinct_delete)
next
  case (4 w)
  from assms 4(1) have "window_ok (qs_next_reservation_id st) w" by (auto simp: store_ok_def)
  then show ?thesis unfolding 4(6) by (intro update_existing_ok [OF assms 4(1)] window_ok_rollback 4(3,5))
qed (use assms in simp)

lemma finish_capped:
  assumes "store_ok st" "capped n k st"
  shows "capped n k (finish_reservation key start rid commit st)"
proof (cases rule: finish_cases [where key = key and start = start and rid = rid and commit = commit and st = st])
  case (2 w)
  from assms(1) 2(1) have "window_ok (qs_next_reservation_id st) w" by (auto simp: store_ok_def)
  note total = window_ok_commit(2) [OF this 2(3)]
  with assms(2) 2(1) show ?thesis unfolding 2(5) capped_def by (cases "k = key") (simp_all add: update_conv')
next
  case (3 w)
  with assms(2) show ?thesis by (auto simp: capped_def delete_conv')
next
  case (4 w)
  have "ws_committed w + int (card (ws_pending w - {rid})) \<le> ws_committed w + int (card (ws_pending w))"
    unfolding card_remove_pending [OF 4(3)] by simp
  with assms(2) 4(1) show ?thesis unfolding 4(6) capped_def by (cases "k = key") (simp_all add: update_conv')
qed (use assms in simp)

section \<open>Refinement\<close>

lemma guard_update_live:
  assumes "store_ok st" "sat64 (now - ws_window_start_ms w) < window"
  shows "map_of (prune_expired_windows now window (AList.update key w (reserve_guard now window key st))) =
    (live_view now window st)(key \<mapsto> w)"
proof
  fix k
  let ?g = "reserve_guard now window key st" and ?P = "\<lambda>w. sat64 (now - ws_window_start_ms w) < window"
  note vals = map_of_filter_values [where P = ?P and k = k]
  have "live_view now window st k = (case map_of ?g k of None \<Rightarrow> None | Some v \<Rightarrow> if ?P v then Some v else None)"
    unfolding guard_live [OF assms(1), of now window key, symmetric] prune_expired_windows_def
    by (rule vals [OF guard_ok(1) [OF assms(1)]])
  moreover have "map_of (prune_expired_windows now window (AList.update key w ?g)) k =
      (case map_of (AList.update key w ?g) k of None \<Rightarrow> None | Some v \<Rightarrow> if ?P v then Some v else None)"
    unfolding prune_expired_windows_def by (rule vals) (simp add: distinct_update guard_ok(1) [OF assms(1)])
  ultimately show "map_of (prune_expired_windows now window (AList.update key w ?g)) k = ((live_view now window st)(key \<mapsto> w)) k"
    using assms(2) by (simp add: update_conv')
qed

lemma reserve_window_live:
  assumes "store_ok st" "1 \<le> window"
  shows "sat64 (now - ws_window_start_ms (reserve_window now window key st)) < window"
  using assms(2) live_view_eq [OF assms(1), of now window key]
  by (auto simp: reserve_window_def split: option.splits if_splits)

lemma allowed_iff:
  assumes "store_ok st"
  shows "qd_allowed (spec_decision cap window now key (live_view now window st)) \<longleftrightarrow>
    \<not> saturated now window key st \<and> window_used (reserve_window now window key st) < cap"
  using reserve_window_used [OF assms, of now window key]
  unfolding spec_decision_def saturated_def [symmetric] reserve_window_def [symmetric] Let_def by auto

lemma reserve_refines:
  assumes "store_ok st" "0 < cap" "quota_key_new sha256 c a = Inr key"
  shows "qr_decision (fst (store_reserve sha256 c a cap window now st)) =
      spec_decision cap (max window 1) now key (live_view now (max window 1) st)"
    and "live_view now (max window 1) (snd (store_reserve sha256 c a cap window now st)) =
      spec_reserve cap (max window 1) now key (qs_next_reservation_id st) (live_view now (max window 1) st)"
proof -
  define W where "W = max window 1"
  define w where "w = reserve_window now W key st"
  have W: "1 \<le> W" by (simp add: W_def)
  note eq = store_reserve_eq [OF assms, of window now, folded W_def]
  note live = guard_update_live [OF assms(1)] and room = allowed_iff [OF assms(1), of cap W now key, folded w_def]
  have wl: "sat64 (now - ws_window_start_ms w) < W" unfolding w_def by (rule reserve_window_live [OF assms(1) W])
  show "qr_decision (fst (store_reserve sha256 c a cap window now st)) = spec_decision cap (max window 1) now key (live_view now (max window 1) st)"
    unfolding W_def [symmetric] by (simp add: eq Let_def inactive_def)
  consider (sat) "saturated now W key st" | (full) "\<not> saturated now W key st" "cap \<le> window_used w"
    | (room) "\<not> saturated now W key st" "window_used w < cap" by linarith
  then have "live_view now W (snd (store_reserve sha256 c a cap window now st)) =
      spec_reserve cap W now key (qs_next_reservation_id st) (live_view now W st)"
  proof cases
    case sat
    then show ?thesis using room guard_live [OF assms(1), of now W key]
      by (simp add: eq Let_def spec_reserve_def live_view_def)
  next
    case full
    then have "live_view now W st key = Some w"
      using reserve_window_ok [OF assms(1), of now W key] assms(2) by (auto simp: w_def [symmetric])
    then have "(live_view now W st)(key \<mapsto> w) = live_view now W st" by (simp add: fun_upd_idem)
    with full room live [OF wl] show ?thesis
      by (simp add: eq Let_def w_def [symmetric] spec_reserve_def live_view_def [where st = "_\<lparr>qs_windows := _\<rparr>"])
  next
    case room: room
    have "(case live_view now W st key of None \<Rightarrow> fresh_window now | Some w \<Rightarrow> w) = w" by (simp add: w_def reserve_window_def)
    with room allowed_iff [OF assms(1), of cap W now key, folded w_def]
      live [where w = "w\<lparr>ws_pending := insert (qs_next_reservation_id st) (ws_pending w)\<rparr>"] wl show ?thesis
      by (simp add: eq Let_def w_def [symmetric] spec_reserve_def live_view_def [where st = "st\<lparr>qs_windows := _, qs_next_reservation_id := _\<rparr>"])
  qed
  then show "live_view now (max window 1) (snd (store_reserve sha256 c a cap window now st)) =
      spec_reserve cap (max window 1) now key (qs_next_reservation_id st) (live_view now (max window 1) st)"
    by (simp only: W_def)
qed

text \<open>A reservation that is dropped again leaves the live windows as they were.\<close>

lemma drop_pending_live:
  assumes ok: "store_ok st1" and v: "map_of (qs_windows st1) key = Some v"
    and pending: "ws_pending v = insert n (ws_pending w)" "n \<notin> ws_pending w" "v\<lparr>ws_pending := ws_pending w\<rparr> = w"
    and live: "live_view now window st1 = view(key \<mapsto> v)" "sat64 (now - ws_window_start_ms w) < window"
    and before: "w = fresh_window now \<and> view key = None \<or> view key = Some w \<and> window_ok m w"
  shows "live_view now window (finish_reservation key (ws_window_start_ms w) n False st1) = view"
proof -
  have start: "ws_window_start_ms v = ws_window_start_ms w" "ws_committed v = ws_committed w"
    using pending(3) by (metis window_state.select_convs window_state.surjective window_state.update_convs(3))+
  note fin = finish_ok [OF ok, of key "ws_window_start_ms w" n False]
  have other: "live_view now window st1 k = view k" if "k \<noteq> key" for k using live(1) that by simp
  have diff: "ws_pending v - {n} = ws_pending w" using pending by auto
  show ?thesis
  proof (cases "ws_committed w = 0 \<and> ws_pending w = {}")
    case True
    with before have "view key = None" by (auto simp: window_ok_def)
    moreover have "finish_reservation key (ws_window_start_ms w) n False st1 = st1\<lparr>qs_windows := AList.delete key (qs_windows st1)\<rparr>"
      using True v start pending by (simp add: finish_reservation_def)
    ultimately show ?thesis
      using fin other live_view_eq [OF ok, of now window]
      by (auto simp: fun_eq_iff live_view_eq delete_conv' restrict_map_def)
  next
    case False
    with before have "view key = Some w" by auto
    moreover have "finish_reservation key (ws_window_start_ms w) n False st1 = st1\<lparr>qs_windows := AList.update key w (qs_windows st1)\<rparr>"
      using False v start pending(1,2) diff by (auto simp: finish_reservation_def pending(3))
    ultimately show ?thesis
      using fin other live(2) live_view_eq [OF ok, of now window]
      by (auto simp: fun_eq_iff live_view_eq update_conv')
  qed
qed

lemma drop_admitted_live:
  assumes "store_ok st" "cap \<le> I32_MAX" "qs_next_reservation_id st \<noteq> - 1" "0 < cap" "quota_key_new sha256 c a = Inr key"
    and "1 \<le> W" "W = max window 1" "w = reserve_window now W key st" "\<not> saturated now W key st" "window_used w < cap"
  shows "live_view now W
      (drop_reservation (fst (store_reserve sha256 c a cap window now st)) (snd (store_reserve sha256 c a cap window now st))) =
    live_view now W st"
proof -
  define n where "n = qs_next_reservation_id st"
  define w1 where "w1 = w\<lparr>ws_pending := insert n (ws_pending w)\<rparr>"
  let ?g = "reserve_guard now W key st"
  define st1 where "st1 = st\<lparr>qs_windows := AList.update key w1 ?g, qs_next_reservation_id := n + 1\<rparr>"
  have eq: "store_reserve sha256 c a cap window now st =
      (\<lparr>qr_store = True, qr_key = key, qr_window_start_ms = ws_window_start_ms w, qr_reservation_id = n,
        qr_decision = spec_decision cap W now key (live_view now W st)\<rparr>, st1)"
    unfolding store_reserve_eq [OF assms(1,4,5)] assms(7) [symmetric] Let_def assms(8) [symmetric]
    using assms(9,10) by (simp add: st1_def w1_def n_def)
  have before: "w = fresh_window now \<and> live_view now W st key = None \<or> live_view now W st key = Some w \<and> window_ok n w"
    using reserve_window_ok [OF assms(1), of now W key] by (auto simp: assms(8) n_def)
  have "live_view now W (finish_reservation key (ws_window_start_ms w) n False st1) = live_view now W st"
  proof (rule drop_pending_live [where v = w1 and m = n])
    show "w = fresh_window now \<and> live_view now W st key = None \<or> live_view now W st key = Some w \<and> window_ok n w" by (rule before)
    show "store_ok st1" using reserve_ok [OF assms(1-3), of sha256 c a window now] by (simp add: eq)
    show "map_of (qs_windows st1) key = Some w1" by (simp add: st1_def update_conv')
    show "n \<notin> ws_pending w" using before by (auto simp: window_ok_def)
    show wl: "sat64 (now - ws_window_start_ms w) < W" unfolding assms(8) by (rule reserve_window_live [OF assms(1,6)])
    then show "live_view now W st1 = (live_view now W st)(key \<mapsto> w1)"
      using guard_update_live [OF assms(1), of now w1 W key] by (simp add: live_view_def st1_def w1_def)
  qed (simp_all add: w1_def)
  then show ?thesis by (simp add: eq drop_reservation_def)
qed

lemma drop_refused_live:
  assumes "store_ok st" "0 < cap" "quota_key_new sha256 c a = Inr key" "W = max window 1"
    and "saturated now W key st \<or> cap \<le> window_used (reserve_window now W key st)"
  shows "live_view now W
      (drop_reservation (fst (store_reserve sha256 c a cap window now st)) (snd (store_reserve sha256 c a cap window now st))) =
    live_view now W st"
proof -
  have "\<not> qr_store (fst (store_reserve sha256 c a cap window now st))"
    unfolding store_reserve_eq [OF assms(1-3)] assms(4) [symmetric] Let_def using assms(5) by (auto simp: inactive_def)
  moreover have "\<not> qd_allowed (spec_decision cap W now key (live_view now W st))"
    using assms(5) unfolding allowed_iff [OF assms(1)] by auto
  ultimately show ?thesis
    using reserve_refines(2) [OF assms(1-3), of now window] by (simp add: drop_reservation_def spec_reserve_def assms(4))
qed

lemma rollback_live:
  assumes "store_ok st" "cap \<le> I32_MAX" "qs_next_reservation_id st \<noteq> - 1"
  shows "live_view now (max window 1)
      (drop_reservation (fst (store_reserve sha256 c a cap window now st)) (snd (store_reserve sha256 c a cap window now st))) =
    live_view now (max window 1) st"
proof (cases "0 < cap \<and> (\<exists>key. quota_key_new sha256 c a = Inr key)")
  case False
  with reserve_unkeyed_inactive [OF False] show ?thesis by (simp add: drop_reservation_def reserve_unkeyed)
next
  case True
  then obtain key where key: "0 < cap" "quota_key_new sha256 c a = Inr key" by blast
  show ?thesis
  proof (cases "saturated now (max window 1) key st \<or> cap \<le> window_used (reserve_window now (max window 1) key st)")
    case True
    then show ?thesis by (intro drop_refused_live [OF assms(1) key]) simp_all
  next
    case False
    then show ?thesis by (intro drop_admitted_live [OF assms key]) auto
  qed
qed

lemma live_view_later:
  assumes "store_ok st" "store_ok st'" "live_view now window st = live_view now window st'" "now \<le> later"
  shows "live_view later window st = live_view later window st'"
proof
  fix k
  have mono: "sat64 (now - x) \<le> sat64 (later - x)" for x using assms(4) by (simp add: sat64_def)
  have "live_view later window s k =
      (case live_view now window s k of None \<Rightarrow> None | Some w \<Rightarrow> if sat64 (later - ws_window_start_ms w) < window then Some w else None)"
    if "store_ok s" for s
    using mono [THEN order.strict_trans1] by (auto simp: live_view_eq [OF that] split: option.split)
  with assms show "live_view later window st k = live_view later window st' k" by simp
qed

lemma decision_live:
  assumes "store_ok st" "store_ok st'" "live_view now (max window 1) st = live_view now (max window 1) st'"
  shows "qr_decision (fst (store_reserve sha256 c a cap window now st)) = qr_decision (fst (store_reserve sha256 c a cap window now st'))"
proof (cases "0 < cap \<and> (\<exists>key. quota_key_new sha256 c a = Inr key)")
  case True
  then obtain key where key: "0 < cap" "quota_key_new sha256 c a = Inr key" by blast
  show ?thesis unfolding reserve_refines(1) [OF assms(1) key] reserve_refines(1) [OF assms(2) key] assms(3) ..
next
  case False
  then show ?thesis by (cases "quota_key_new sha256 c a") (auto simp: store_reserve_def Let_def)
qed

section \<open>Runs of the gate\<close>

text \<open>
  The operations on a gate under one policy. The pairs of caller and ability that ask for a reservation are in
  \<open>requests\<close>. A reservation finishes with any arguments, which covers the commit or drop of every reservation handed
  out. The gate hands out fewer than \<open>2 ^ 64\<close> reservations in the life of the process.
\<close>

inductive gate_run :: "(string \<Rightarrow> quota_key) \<Rightarrow> quota_config \<Rightarrow> (string \<times> string) set \<Rightarrow> quota_gate \<Rightarrow> bool"
  for sha256 policy requests where
  opened: "gate_run sha256 policy requests (from_policy (Some policy))"
| reserved: "gate_run sha256 policy requests gate \<Longrightarrow> (c, a) \<in> requests \<Longrightarrow> qs_next_reservation_id (qg_store gate) \<noteq> - 1 \<Longrightarrow>
    gate_run sha256 policy requests (snd (gate_reserve sha256 c a now gate))"
| finished: "gate_run sha256 policy requests gate \<Longrightarrow>
    gate_run sha256 policy requests (gate\<lparr>qg_store := finish_reservation key start rid commit (qg_store gate)\<rparr>)"

text \<open>Caps are 32-bit values.\<close>

definition i32_policy :: "quota_config \<Rightarrow> bool" where
  "i32_policy policy \<longleftrightarrow> qc_default_cap_per_window policy \<le> I32_MAX \<and> (\<forall>(c, cap) \<in> set (qc_per_consumer policy). cap \<le> I32_MAX)"

lemma cap_for_i32: "i32_policy policy \<Longrightarrow> cap_for policy c \<le> I32_MAX"
  by (auto simp: i32_policy_def cap_for_def split: option.split dest: map_of_SomeD)

lemma gate_reserve_store:
  assumes "qg_policy gate = Some policy"
  shows "qg_policy (snd (gate_reserve sha256 c a now gate)) = Some policy"
    "qg_store (snd (gate_reserve sha256 c a now gate)) =
      snd (store_reserve sha256 c a (cap_for policy c) (qc_window_ms policy) now (qg_store gate))"
  using assms by (auto simp: gate_reserve_def store_reserve_def [of _ _ _ "cap_for policy c"] Let_def split: prod.split)

lemma store_new_ok: "store_ok quota_store_new" "capped n k quota_store_new"
  by (simp_all add: store_ok_def capped_def quota_store_new_def)

lemma gate_run_ok:
  "gate_run sha256 policy requests gate \<Longrightarrow> i32_policy policy \<Longrightarrow> qg_policy gate = Some policy \<and> store_ok (qg_store gate)"
proof (induction rule: gate_run.induct)
  case (reserved gate c a now)
  then show ?case by (simp add: gate_reserve_store reserve_ok cap_for_i32)
qed (simp_all add: from_policy_def store_new_ok finish_ok)

lemma gate_run_capped:
  assumes "gate_run sha256 policy requests gate" "i32_policy policy"
    and "\<And>c a. (c, a) \<in> requests \<Longrightarrow> quota_key_new sha256 c a = Inr k \<Longrightarrow> cap_for policy c \<le> n"
  shows "capped n k (qg_store gate)"
  using assms
proof (induction rule: gate_run.induct)
  case (reserved gate c a now)
  note ok = gate_run_ok [OF reserved(1) reserved.prems(1)]
  with reserved show ?case by (simp add: gate_reserve_store reserve_capped cap_for_i32)
next
  case (finished gate key start rid commit)
  with gate_run_ok [OF finished(1)] show ?case by (simp add: finish_capped)
qed (simp add: from_policy_def store_new_ok)

text \<open>The length prefixes keep the two parts of a key apart.\<close>

lemma le64_inj: "le64 n = le64 m \<Longrightarrow> n < 65536 \<Longrightarrow> m < 65536 \<Longrightarrow> n = m"
proof -
  assume "le64 n = le64 m" and lt: "n < 65536" "m < 65536"
  then have "char_of n = (char_of m :: char)" "char_of (n div 256) = (char_of (m div 256) :: char)" by (simp_all add: le64_def)
  then have low: "n mod 256 = m mod 256" and high: "(n div 256) mod 256 = (m div 256) mod 256" by (simp_all add: char_of_eq_iff take_bit_eq_mod)
  moreover have "n div 256 < 256" "m div 256 < 256" using lt by auto
  ultimately have "n div 256 = m div 256" by simp
  with low show "n = m" by (metis div_mult_mod_eq)
qed

lemma key_material_inj:
  assumes "quota_key_material c a = quota_key_material c' a'" "length c \<le> 512" "length c' \<le> 512"
  shows "c = c'" "a = a'"
proof -
  have len: "length (le64 n) = 8" for n by (simp add: le64_def)
  from assms(1) have "le64 (length c) = le64 (length c')" and rest: "c @ le64 (length a) @ a = c' @ le64 (length a') @ a'"
    by (simp_all add: quota_key_material_def append_eq_append_conv len)
  with assms(2,3) have "length c = length c'" by (intro le64_inj) simp_all
  with rest show "c = c'" "a = a'" by (simp_all add: append_eq_append_conv len)
qed

lemma quota_key_inj:
  assumes "inj_on sha256 ((\<lambda>(c, a). quota_key_material c a) ` requests)" "(c, a) \<in> requests" "(c', a') \<in> requests"
    and "quota_key_new sha256 c a = Inr k" "quota_key_new sha256 c' a' = Inr k"
  shows "c = c'" "a = a'"
proof -
  have "sha256 (quota_key_material c a) = sha256 (quota_key_material c' a')"
    using assms(4,5) by (simp add: quota_key_new_def split: if_splits)
  moreover have "quota_key_material c a \<in> (\<lambda>(c, a). quota_key_material c a) ` requests"
    "quota_key_material c' a' \<in> (\<lambda>(c, a). quota_key_material c a) ` requests"
    using imageI [OF assms(2), of "\<lambda>(c, a). quota_key_material c a"] imageI [OF assms(3), of "\<lambda>(c, a). quota_key_material c a"] by simp_all
  ultimately have "quota_key_material c a = quota_key_material c' a'" by (rule inj_onD [OF assms(1)])
  moreover have "length c \<le> 512" "length c' \<le> 512"
    using assms(4,5) by (auto simp: quota_key_new_def MAX_QUOTA_CONSUMER_URA_BYTES_def split: if_splits)
  ultimately show "c = c'" "a = a'" by (rule key_material_inj)+
qed

section \<open>Properties\<close>

text \<open>C19: a cap holds. Whatever reservations, commits and rollbacks a gate goes through under a policy, and whatever
  the clock shows, the committed and pending calls of a caller to an ability stay within the caller's cap, and the
  table never holds more than 16384 windows. The digest is assumed to keep apart the key materials of the run; that
  the materials of different pairs differ is part of the proof.\<close>

theorem quota_cap_holds:
  assumes "gate_run sha256 policy requests gate" "i32_policy policy"
    and "inj_on sha256 ((\<lambda>(c, a). quota_key_material c a) ` requests)"
    and "(c, a) \<in> requests" "quota_key_new sha256 c a = Inr key" "map_of (qs_windows (qg_store gate)) key = Some w"
  shows "0 \<le> ws_committed w \<and> ws_committed w + int (card (ws_pending w)) \<le> cap_for policy c \<and>
    store_len (qg_store gate) \<le> 16384"
proof -
  have "capped (cap_for policy c) key (qg_store gate)"
    using quota_key_inj(1) [OF assms(3,4) _ assms(5)] by (intro gate_run_capped [OF assms(1,2)]) auto
  moreover have "store_ok (qg_store gate)" using gate_run_ok [OF assms(1,2)] by blast
  ultimately show ?thesis
    using assms(6) by (auto simp: capped_def store_ok_def window_ok_def store_len_def MAX_QUOTA_TRACKED_KEYS_def)
qed


text \<open>C21: the store decides on the live windows alone. Its decision is that of the specification on the windows that
  have not expired, and the reservation changes these windows as the specification does: expired windows, whether
  already pruned or not, play no part.\<close>

theorem quota_refines_live_windows:
  assumes "gate_run sha256 policy requests gate" "i32_policy policy" "0 < cap" "quota_key_new sha256 c a = Inr key"
    and "store_reserve sha256 c a cap window now (qg_store gate) = (r, st)"
  shows "qr_decision r = spec_decision cap (max window 1) now key (live_view now (max window 1) (qg_store gate)) \<and>
    live_view now (max window 1) st =
      spec_reserve cap (max window 1) now key (qs_next_reservation_id (qg_store gate)) (live_view now (max window 1) (qg_store gate))"
proof -
  have "store_ok (qg_store gate)" using gate_run_ok [OF assms(1,2)] by blast
  from reserve_refines(1) [OF this assms(3,4), of window now] reserve_refines(2) [OF this assms(3,4), of now window]
  show ?thesis by (simp add: assms(5))
qed

section \<open>A gate with a cap of two\<close>

abbreviation cap_policy :: quota_config where
  "cap_policy \<equiv> quota_config_new 2 1000 []"

definition demo_window :: window_state where
  "demo_window = \<lparr>ws_window_start_ms = 5, ws_committed = 0, ws_pending = {1}\<rparr>"

definition demo_key :: quota_key where
  "demo_key = quota_key_material ''u'' ''f''"

definition demo_gate :: quota_gate where
  "demo_gate = \<lparr>qg_policy = Some cap_policy, qg_store = \<lparr>qs_windows = [(demo_key, demo_window)], qs_next_reservation_id = 2\<rparr>\<rparr>"

lemma demo_key_new: "quota_key_new (\<lambda>s. s) ''u'' ''f'' = Inr demo_key"
  by (simp add: quota_key_new_def demo_key_def MAX_QUOTA_CONSUMER_URA_BYTES_def MAX_QUOTA_ABILITY_NAME_BYTES_def)

lemmas quota_eval = store_reserve_def gate_reserve_def cap_for_def quota_config_new_def quota_store_new_def MAX_QUOTA_TRACKED_KEYS_def
  window_entry_def window_used_def i32_or_max_def sat32_def I32_MAX_def sat64_def I64_MAX_def

lemma demo_gate_run: "gate_run (\<lambda>s. s) cap_policy {(''u'', ''f'')} demo_gate"
proof -
  have "snd (gate_reserve (\<lambda>s. s) ''u'' ''f'' 5 (from_policy (Some cap_policy))) = demo_gate"
    by (simp add: from_policy_def demo_gate_def demo_window_def quota_eval demo_key_new Let_def)
  moreover have "gate_run (\<lambda>s. s) cap_policy {(''u'', ''f'')} (snd (gate_reserve (\<lambda>s. s) ''u'' ''f'' 5 (from_policy (Some cap_policy))))"
    by (intro reserved opened) (simp_all add: from_policy_def quota_store_new_def)
  ultimately show ?thesis by simp
qed

lemma demo_i32: "i32_policy cap_policy"
  by (simp add: i32_policy_def quota_config_new_def I32_MAX_def)

theorem quota_cap_holds_witness:
  "gate_run (\<lambda>s. s) cap_policy {(''u'', ''f'')} demo_gate \<and> ws_committed demo_window + int (card (ws_pending demo_window)) \<le> 2"
  using quota_cap_holds [OF demo_gate_run demo_i32, of "''u''" "''f''" demo_key demo_window] demo_gate_run demo_key_new
  by (simp add: demo_gate_def cap_for_def quota_config_new_def)


theorem quota_refines_live_windows_witness:
  "spec_decision 2 1000 7 demo_key (live_view 7 1000 (qg_store demo_gate)) =
     \<lparr>qd_allowed = True, qd_quota_remaining = 0, qd_quota_limit = 2, qd_reset_at_unix_ms = 1005, qd_retry_after_ms = 0, qd_deny_reason = None\<rparr>"
proof -
  obtain r st where *: "store_reserve (\<lambda>s. s) ''u'' ''f'' 2 1000 7 (qg_store demo_gate) = (r, st)" by fastforce
  have "qr_decision (fst (store_reserve (\<lambda>s. s) ''u'' ''f'' 2 1000 7 (qg_store demo_gate))) =
     \<lparr>qd_allowed = True, qd_quota_remaining = 0, qd_quota_limit = 2, qd_reset_at_unix_ms = 1005, qd_retry_after_ms = 0, qd_deny_reason = None\<rparr>"
    by (simp add: demo_gate_def demo_window_def quota_eval demo_key_new Let_def)
  then show ?thesis using quota_refines_live_windows [OF demo_gate_run demo_i32 _ demo_key_new *] * by simp
qed

end
