(* ===== verification/RuntimeAdmission.thy ===== *)
theory RuntimeAdmission
  imports UsageQuota
begin

text \<open>
  Admission of an invocation by the daemon (\<open>src/daemon/invocation/admission/runtime_transaction.rs\<close> and the
  coordinator of \<open>admission_facade.rs\<close>): an ingress is staged under the digest of its envelope, the runtime asks for
  the policy verdict, which reserves quota, and the lease of the ingress commits or rolls back.

  The verdict runs between two critical sections, so \<open>verify_provider_policy\<close> is three steps: \<open>select_staged\<close>,
  \<open>reserve_runtime_admission\<close> and \<open>conclude\<close>. The authorization of a caller is a parameter \<open>authorize\<close>, which says
  whether the ingress is one that is metered; \<open>into_policy\<close> is the conversion of the verified authority by the
  runtime's library. A reservation that goes out of scope is dropped, which rolls it back.
\<close>

section \<open>Transaction\<close>

datatype admission_phase = PhaseStaged | PhaseEvaluating | PhaseReserved | PhaseDenied

datatype 'r admission_transaction = Staged | Evaluating | Reserved 'r | Denied

datatype admission_transition_error = InvalidPhase admission_phase admission_phase

datatype admission_commit_error = CommitDenied | Incomplete admission_phase

datatype 'r admission_finalization = Committed 'r | RolledBack

fun phase :: "'r admission_transaction \<Rightarrow> admission_phase" where
  "phase Staged = PhaseStaged"
| "phase Evaluating = PhaseEvaluating"
| "phase (Reserved _) = PhaseReserved"
| "phase Denied = PhaseDenied"

definition is_staged :: "'r admission_transaction \<Rightarrow> bool" where
  "is_staged tx \<longleftrightarrow> phase tx = PhaseStaged"

definition begin_evaluation :: "'r admission_transaction \<Rightarrow> admission_transition_error + 'r admission_transaction" where
  "begin_evaluation tx =
     (case tx of
        Staged \<Rightarrow> Inr Evaluating
      | _ \<Rightarrow> Inl (InvalidPhase PhaseStaged (phase tx)))"

definition tx_reserve :: "'r \<Rightarrow> 'r admission_transaction \<Rightarrow> admission_transition_error + 'r admission_transaction" where
  "tx_reserve reservation tx =
     and_then (ensure (phase tx = PhaseEvaluating) (InvalidPhase PhaseEvaluating (phase tx))) (\<lambda>_. Inr (Reserved reservation))"

definition tx_deny :: "'r admission_transaction \<Rightarrow> admission_transition_error + 'r admission_transaction" where
  "tx_deny tx =
     and_then (ensure (phase tx = PhaseEvaluating) (InvalidPhase PhaseEvaluating (phase tx))) (\<lambda>_. Inr Denied)"

definition tx_finish :: "bool \<Rightarrow> 'r admission_transaction \<Rightarrow> admission_commit_error + 'r admission_finalization" where
  "tx_finish commit tx =
     (if \<not> commit then Inr RolledBack
      else
        case tx of
          Reserved reservation \<Rightarrow> Inr (Committed reservation)
        | Denied \<Rightarrow> Inl CommitDenied
        | Staged \<Rightarrow> Inl (Incomplete PhaseStaged)
        | Evaluating \<Rightarrow> Inl (Incomplete PhaseEvaluating))"

section \<open>Coordinator\<close>

definition MAX_PENDING_RUNTIME_ADMISSIONS :: nat where
  "MAX_PENDING_RUNTIME_ADMISSIONS = 4096"

datatype 's admission_status =
    RegistrySaturated
  | ContextMissing
  | ContextNotPending
  | TransitionFailed
  | ContextRemoved
  | ContextIdRemoved
  | PolicyRefused 's
  | QuotaKeyTooLarge
  | QuotaStoreSaturated int
  | QuotaExceeded int
  | NoStagedContext
  | LeaseIdNotStaged
  | DeniedBeforeLaunch
  | NoTerminalDecision admission_phase

record 'x runtime_admission_input =
  rai_caller_ura :: string
  rai_ability :: string
  rai_rpc :: bool
  rai_rest :: 'x

type_synonym runtime_reservation = "quota_reservation option"

record 'x pending_runtime_admission =
  pra_id :: "64 word"
  pra_input :: "'x runtime_admission_input"
  pra_transaction :: "runtime_reservation admission_transaction"

type_synonym envelope_key = string

record 'x admission_coordinator =
  ac_by_envelope :: "(envelope_key \<times> 'x pending_runtime_admission list) list"
  ac_len :: nat
  ac_next_id :: "64 word"

definition queue_of :: "envelope_key \<Rightarrow> 'x admission_coordinator \<Rightarrow> 'x pending_runtime_admission list" where
  "queue_of key co = (case map_of (ac_by_envelope co) key of None \<Rightarrow> [] | Some q \<Rightarrow> q)"

definition stage_canonical ::
  "envelope_key \<Rightarrow> 'x runtime_admission_input \<Rightarrow> 'x admission_coordinator \<Rightarrow>
     ('s admission_status + envelope_key \<times> 64 word) \<times> 'x admission_coordinator" where
  "stage_canonical key input co =
     (let rid = ac_next_id co;
          co = co\<lparr>ac_next_id := rid + 1\<rparr>
      in if ac_len co \<ge> MAX_PENDING_RUNTIME_ADMISSIONS then (Inl RegistrySaturated, co)
         else
           (Inr (key, rid),
            co\<lparr>ac_by_envelope :=
                 AList.update key (queue_of key co @ [\<lparr>pra_id = rid, pra_input = input, pra_transaction = Staged\<rparr>]) (ac_by_envelope co),
               ac_len := ac_len co + 1\<rparr>))"

text \<open>The first element with the property, changed in place.\<close>

fun update_first :: "('a \<Rightarrow> bool) \<Rightarrow> ('a \<Rightarrow> 'a) \<Rightarrow> 'a list \<Rightarrow> 'a list" where
  "update_first p f [] = []"
| "update_first p f (x # xs) = (if p x then f x # xs else x # update_first p f xs)"

definition select_staged ::
  "envelope_key \<Rightarrow> 'x admission_coordinator \<Rightarrow>
     ('s admission_status + 64 word \<times> 'x runtime_admission_input) \<times> 'x admission_coordinator" where
  "select_staged key co =
     (case map_of (ac_by_envelope co) key of
        None \<Rightarrow> (Inl ContextMissing, co)
      | Some queue \<Rightarrow>
          (case find (\<lambda>p. is_staged (pra_transaction p)) queue of
             None \<Rightarrow> (Inl ContextNotPending, co)
           | Some pending \<Rightarrow>
               (case begin_evaluation (pra_transaction pending) of
                  Inl _ \<Rightarrow> (Inl TransitionFailed, co)
                | Inr tx \<Rightarrow>
                    (Inr (pra_id pending, pra_input pending),
                     co\<lparr>ac_by_envelope :=
                       AList.update key
                         (update_first (\<lambda>p. is_staged (pra_transaction p)) (\<lambda>p. p\<lparr>pra_transaction := tx\<rparr>) queue)
                         (ac_by_envelope co)\<rparr>))))"

definition quota_denied_status :: "quota_decision \<Rightarrow> 's admission_status" where
  "quota_denied_status decision =
     (case qd_deny_reason decision of
        Some KeyTooLarge \<Rightarrow> QuotaKeyTooLarge
      | Some StoreSaturated \<Rightarrow> QuotaStoreSaturated (qd_retry_after_ms decision)
      | _ \<Rightarrow> QuotaExceeded (qd_retry_after_ms decision))"

definition drop_runtime :: "runtime_reservation \<Rightarrow> quota_gate \<Rightarrow> quota_gate" where
  "drop_runtime r gate = (case r of None \<Rightarrow> gate | Some q \<Rightarrow> gate\<lparr>qg_store := drop_reservation q (qg_store gate)\<rparr>)"

definition commit_runtime :: "runtime_reservation \<Rightarrow> quota_gate \<Rightarrow> quota_gate" where
  "commit_runtime r gate = (case r of None \<Rightarrow> gate | Some q \<Rightarrow> gate\<lparr>qg_store := commit_reservation q (qg_store gate)\<rparr>)"

definition runtime_admission_decision ::
  "('a \<Rightarrow> 's + 'p) \<Rightarrow> 'a \<Rightarrow> runtime_reservation \<Rightarrow> quota_gate \<Rightarrow>
     ('s admission_status + runtime_reservation \<times> 'p) \<times> quota_gate" where
  "runtime_admission_decision into_policy authority reservation gate =
     (case into_policy authority of
        Inl e \<Rightarrow> (Inl (PolicyRefused e), drop_runtime reservation gate)
      | Inr policy \<Rightarrow> (Inr (reservation, policy), gate))"

definition reserve_runtime_admission ::
  "(string \<Rightarrow> quota_key) \<Rightarrow> ('x runtime_admission_input \<Rightarrow> 's + 'a \<times> bool) \<Rightarrow> ('a \<Rightarrow> 's + 'p) \<Rightarrow> int \<Rightarrow>
     'x runtime_admission_input \<Rightarrow> quota_gate \<Rightarrow> ('s admission_status + runtime_reservation \<times> 'p) \<times> quota_gate" where
  "reserve_runtime_admission sha256 authorize into_policy now_ms input gate =
     (case authorize input of
        Inl e \<Rightarrow> (Inl (PolicyRefused e), gate)
      | Inr (authority, metered) \<Rightarrow>
          if \<not> metered \<or> \<not> rai_rpc input \<or> \<not> quota_meters_function (rai_ability input) then
            runtime_admission_decision into_policy authority None gate
          else
            (case gate_reserve sha256 (rai_caller_ura input) (rai_ability input) now_ms gate of
               (None, gate) \<Rightarrow> runtime_admission_decision into_policy authority None gate
             | (Some quota, gate) \<Rightarrow>
                 if \<not> qd_allowed (qr_decision quota) then
                   (Inl (quota_denied_status (qr_decision quota)), drop_runtime (Some quota) gate)
                 else runtime_admission_decision into_policy authority (Some quota) gate))"

definition conclude ::
  "envelope_key \<Rightarrow> 64 word \<Rightarrow> 's admission_status + runtime_reservation \<times> 'p \<Rightarrow> 'x admission_coordinator \<Rightarrow> quota_gate \<Rightarrow>
     ('s admission_status + 'p) \<times> 'x admission_coordinator \<times> quota_gate" where
  "conclude key rid result co gate =
     (let abandoned = (case result of Inl _ \<Rightarrow> gate | Inr (reservation, _) \<Rightarrow> drop_runtime reservation gate) in
      case map_of (ac_by_envelope co) key of
        None \<Rightarrow> (Inl ContextRemoved, co, abandoned)
      | Some queue \<Rightarrow>
          (case find (\<lambda>p. pra_id p = rid) queue of
             None \<Rightarrow> (Inl ContextIdRemoved, co, abandoned)
           | Some pending \<Rightarrow>
               let store = (\<lambda>tx. co\<lparr>ac_by_envelope :=
                     AList.update key (update_first (\<lambda>p. pra_id p = rid) (\<lambda>p. p\<lparr>pra_transaction := tx\<rparr>) queue)
                       (ac_by_envelope co)\<rparr>)
               in case result of
                    Inr (reservation, policy) \<Rightarrow>
                      (case tx_reserve reservation (pra_transaction pending) of
                         Inl _ \<Rightarrow> (Inl TransitionFailed, co, abandoned)
                       | Inr tx \<Rightarrow> (Inr policy, store tx, gate))
                  | Inl e \<Rightarrow>
                      (case tx_deny (pra_transaction pending) of
                         Inl _ \<Rightarrow> (Inl TransitionFailed, co, gate)
                       | Inr tx \<Rightarrow> (Inl e, store tx, gate))))"

text \<open>What a transaction holds is dropped with it, unless it was committed.\<close>

fun tx_reservation :: "runtime_reservation admission_transaction \<Rightarrow> runtime_reservation" where
  "tx_reservation (Reserved r) = r"
| "tx_reservation _ = None"

definition coordinator_finish ::
  "envelope_key \<Rightarrow> 64 word \<Rightarrow> bool \<Rightarrow> 'x admission_coordinator \<Rightarrow> quota_gate \<Rightarrow>
     ('s admission_status + unit) \<times> 'x admission_coordinator \<times> quota_gate" where
  "coordinator_finish key rid commit co gate =
     (case map_of (ac_by_envelope co) key of
        None \<Rightarrow> (Inl NoStagedContext, co, gate)
      | Some queue \<Rightarrow>
          (case List.extract (\<lambda>p. pra_id p = rid) queue of
             None \<Rightarrow> (Inl LeaseIdNotStaged, co, gate)
           | Some (before, pending, after) \<Rightarrow>
               let queue = before @ after;
                   co = co\<lparr>ac_by_envelope :=
                            (if queue = [] then AList.delete key (ac_by_envelope co) else AList.update key queue (ac_by_envelope co)),
                          ac_len := ac_len co - 1\<rparr>
               in case tx_finish commit (pra_transaction pending) of
                    Inr (Committed reservation) \<Rightarrow> (Inr (), co, commit_runtime reservation gate)
                  | Inr RolledBack \<Rightarrow> (Inr (), co, drop_runtime (tx_reservation (pra_transaction pending)) gate)
                  | Inl CommitDenied \<Rightarrow> (Inl DeniedBeforeLaunch, co, gate)
                  | Inl (Incomplete ph) \<Rightarrow> (Inl (NoTerminalDecision ph), co, gate)))"

section \<open>Reservations in flight\<close>

text \<open>Every pending id of the store belongs to a reservation of \<open>held\<close>.\<close>

definition backed :: "quota_reservation set \<Rightarrow> quota_store \<Rightarrow> bool" where
  "backed held st \<longleftrightarrow>
     (\<forall>k w i. map_of (qs_windows st) k = Some w \<longrightarrow> i \<in> ws_pending w \<longrightarrow>
        (\<exists>r \<in> held. qr_store r \<and> qr_key r = k \<and> qr_window_start_ms r = ws_window_start_ms w \<and> qr_reservation_id r = i))"

lemma backed_mono: "backed held st \<Longrightarrow> held \<subseteq> held' \<Longrightarrow> backed held' st"
  unfolding backed_def by blast

lemma backed_inactive: "backed (insert r held) st \<Longrightarrow> \<not> qr_store r \<Longrightarrow> backed held st"
  unfolding backed_def by blast

lemma backed_update:
  assumes "backed held (st\<lparr>qs_windows := g\<rparr>)"
    and "\<And>i. i \<in> ws_pending w \<Longrightarrow>
      \<exists>r \<in> held. qr_store r \<and> qr_key r = key \<and> qr_window_start_ms r = ws_window_start_ms w \<and> qr_reservation_id r = i"
  shows "backed held (st\<lparr>qs_windows := AList.update key w g, qs_next_reservation_id := n\<rparr>)"
  using assms by (auto simp: backed_def update_conv')

lemma guard_backed:
  "store_ok st \<Longrightarrow> backed held st \<Longrightarrow> backed held (st\<lparr>qs_windows := reserve_guard now window key st\<rparr>)"
  using guard_map [of st now window key] by (fastforce simp: backed_def)

lemma reserve_window_backed:
  assumes "store_ok st" "backed held st" "w = reserve_window now window key st" "i \<in> ws_pending w"
  shows "\<exists>r \<in> held. qr_store r \<and> qr_key r = key \<and> qr_window_start_ms r = ws_window_start_ms w \<and> qr_reservation_id r = i"
  using reserve_window_ok [OF assms(1), of now window key] assms(2,4) unfolding assms(3) [symmetric] backed_def by auto

lemma reserve_backed:
  assumes "store_ok st" "backed held st" "store_reserve sha256 c a cap window now st = (r, st')"
  shows "backed (insert r held) st'"
proof (cases "0 < cap \<and> (\<exists>key. quota_key_new sha256 c a = Inr key)")
  case False
  with assms reserve_unkeyed [OF False, of window now st] show ?thesis by (auto intro: backed_mono)
next
  case True
  then obtain key where key: "0 < cap" "quota_key_new sha256 c a = Inr key" by blast
  define W where "W = max window 1"
  define w where "w = reserve_window now W key st"
  note eq = store_reserve_eq [OF assms(1) key, of window now, unfolded assms(3), folded W_def, unfolded Let_def, folded w_def]
  have guard: "backed (insert r held) (st\<lparr>qs_windows := reserve_guard now W key st\<rparr>)"
    by (rule backed_mono [OF guard_backed [OF assms(1,2)]]) blast
  have old: "i \<in> ws_pending w \<Longrightarrow>
      \<exists>q \<in> insert r held. qr_store q \<and> qr_key q = key \<and> qr_window_start_ms q = ws_window_start_ms w \<and> qr_reservation_id q = i" for i
    using reserve_window_backed [OF assms(1,2) w_def] by blast
  consider (sat) "saturated now W key st" | (full) "\<not> saturated now W key st" "cap \<le> window_used w"
    | (room) "\<not> saturated now W key st" "\<not> cap \<le> window_used w" by linarith
  then show ?thesis
  proof cases
    case sat
    with eq guard show ?thesis by simp
  next
    case full
    with eq have st': "st' = st\<lparr>qs_windows := AList.update key w (reserve_guard now W key st), qs_next_reservation_id := qs_next_reservation_id st\<rparr>" by simp
    show ?thesis unfolding st' by (rule backed_update [OF guard old])
  next
    case room
    with eq have r: "r = \<lparr>qr_store = True, qr_key = key, qr_window_start_ms = ws_window_start_ms w, qr_reservation_id = qs_next_reservation_id st,
        qr_decision = spec_decision cap W now key (live_view now W st)\<rparr>"
      and st': "st' = st\<lparr>qs_windows := AList.update key (w\<lparr>ws_pending := insert (qs_next_reservation_id st) (ws_pending w)\<rparr>) (reserve_guard now W key st),
        qs_next_reservation_id := qs_next_reservation_id st + 1\<rparr>" by simp_all
    show ?thesis unfolding st' by (rule backed_update [OF guard]) (use old in \<open>auto simp: r\<close>)
  qed
qed

lemma finish_pending:
  assumes "map_of (qs_windows (finish_reservation key start rid commit st)) k = Some v" "i \<in> ws_pending v"
  shows "\<exists>w. map_of (qs_windows st) k = Some w \<and> ws_window_start_ms w = ws_window_start_ms v \<and> i \<in> ws_pending w \<and>
    (k = key \<longrightarrow> ws_window_start_ms w = start \<longrightarrow> i \<noteq> rid)"
proof (cases "map_of (qs_windows st) key")
  case None
  with assms show ?thesis by (auto simp: finish_reservation_def)
next
  case (Some w)
  with assms show ?thesis
    by (cases "k = key") (auto simp: finish_reservation_def Let_def update_conv' delete_conv' split: if_splits)
qed

lemma finish_backed:
  assumes "backed (insert r held) st"
  shows "backed held (finish_reservation (qr_key r) (qr_window_start_ms r) (qr_reservation_id r) commit st)"
  unfolding backed_def
proof (intro allI impI)
  fix k v i
  assume "map_of (qs_windows (finish_reservation (qr_key r) (qr_window_start_ms r) (qr_reservation_id r) commit st)) k = Some v" "i \<in> ws_pending v"
  from finish_pending [OF this] obtain w where w: "map_of (qs_windows st) k = Some w" "ws_window_start_ms w = ws_window_start_ms v"
    "i \<in> ws_pending w" "k = qr_key r \<longrightarrow> ws_window_start_ms w = qr_window_start_ms r \<longrightarrow> i \<noteq> qr_reservation_id r" by blast
  from assms w(1,3) obtain q where q: "q \<in> insert r held" "qr_store q" "qr_key q = k" "qr_window_start_ms q = ws_window_start_ms w"
    "qr_reservation_id q = i" unfolding backed_def by blast
  from q(3-5) w(4) have "q \<noteq> r" by metis
  with q(1) have "q \<in> held" by simp
  with q(2-5) w(2) show "\<exists>r \<in> held. qr_store r \<and> qr_key r = k \<and> qr_window_start_ms r = ws_window_start_ms v \<and> qr_reservation_id r = i"
    by (intro bexI [of _ q] conjI) simp_all
qed

lemma drop_backed: "backed (insert r held) st \<Longrightarrow> backed held (drop_reservation r st)"
  by (cases "qr_store r") (auto simp: drop_reservation_def intro: finish_backed backed_inactive)

lemma commit_backed: "backed (insert r held) st \<Longrightarrow> backed held (commit_reservation r st)"
  by (cases "qr_store r") (auto simp: commit_reservation_def intro: finish_backed backed_inactive)

lemma store_active_allowed:
  assumes "store_ok st" "store_reserve sha256 c a cap window now st = (r, st')" "qr_store r"
  shows "qd_allowed (qr_decision r)"
proof (cases "0 < cap \<and> (\<exists>key. quota_key_new sha256 c a = Inr key)")
  case False
  with assms(2,3) reserve_unkeyed_inactive [OF False, of window now st] show ?thesis by simp
next
  case True
  then obtain key where key: "0 < cap" "quota_key_new sha256 c a = Inr key" by blast
  from assms(2,3) show ?thesis
    unfolding store_reserve_eq [OF assms(1) key] Let_def
    by (auto simp: inactive_def allowed_iff [OF assms(1)] split: if_splits)
qed

section \<open>Runs\<close>

record ('x, 's, 'p) admission_world =
  aw_coordinator :: "'x admission_coordinator"
  aw_gate :: quota_gate
  aw_selected :: "(envelope_key \<times> 64 word \<times> 'x runtime_admission_input) list"
  aw_evaluated :: "(envelope_key \<times> 64 word \<times> ('s admission_status + runtime_reservation \<times> 'p)) list"

definition admission_start :: "quota_config option \<Rightarrow> ('x, 's, 'p) admission_world" where
  "admission_start policy =
     \<lparr>aw_coordinator = \<lparr>ac_by_envelope = [], ac_len = 0, ac_next_id = 0\<rparr>, aw_gate = from_policy policy,
      aw_selected = [], aw_evaluated = []\<rparr>"

definition i32_option :: "quota_config option \<Rightarrow> bool" where
  "i32_option policy \<longleftrightarrow> (case policy of None \<Rightarrow> True | Some p \<Rightarrow> i32_policy p)"

text \<open>
  Any interleaving of ingresses, verdicts, leases and policy reloads. Verdicts that have been selected but not
  evaluated, and those evaluated but not concluded, belong to threads between two critical sections. Ids do not wrap.
\<close>

inductive admission_run ::
  "(string \<Rightarrow> quota_key) \<Rightarrow> ('x runtime_admission_input \<Rightarrow> 's + 'a \<times> bool) \<Rightarrow> ('a \<Rightarrow> 's + 'p) \<Rightarrow>
     ('x, 's, 'p) admission_world \<Rightarrow> bool"
  for sha256 authorize into_policy where
  started: "i32_option policy \<Longrightarrow> admission_run sha256 authorize into_policy (admission_start policy)"
| staged: "admission_run sha256 authorize into_policy aw \<Longrightarrow> ac_next_id (aw_coordinator aw) \<noteq> - 1 \<Longrightarrow>
    stage_canonical key input (aw_coordinator aw) = (lease :: 's admission_status + _, co) \<Longrightarrow>
    admission_run sha256 authorize into_policy (aw\<lparr>aw_coordinator := co\<rparr>)"
| selected: "admission_run sha256 authorize into_policy aw \<Longrightarrow>
    select_staged key (aw_coordinator aw) = (Inr (rid, input) :: 's admission_status + _, co) \<Longrightarrow>
    admission_run sha256 authorize into_policy (aw\<lparr>aw_coordinator := co, aw_selected := aw_selected aw @ [(key, rid, input)]\<rparr>)"
| evaluated: "admission_run sha256 authorize into_policy aw \<Longrightarrow> (key, rid, input) \<in> set (aw_selected aw) \<Longrightarrow>
    qs_next_reservation_id (qg_store (aw_gate aw)) \<noteq> - 1 \<Longrightarrow>
    reserve_runtime_admission sha256 authorize into_policy now_ms input (aw_gate aw) = (result, gate) \<Longrightarrow>
    admission_run sha256 authorize into_policy
      (aw\<lparr>aw_gate := gate, aw_selected := remove1 (key, rid, input) (aw_selected aw),
          aw_evaluated := aw_evaluated aw @ [(key, rid, result)]\<rparr>)"
| concluded: "admission_run sha256 authorize into_policy aw \<Longrightarrow> (key, rid, result) \<in> set (aw_evaluated aw) \<Longrightarrow>
    conclude key rid result (aw_coordinator aw) (aw_gate aw) = (answer, co, gate) \<Longrightarrow>
    admission_run sha256 authorize into_policy
      (aw\<lparr>aw_coordinator := co, aw_gate := gate, aw_evaluated := remove1 (key, rid, result) (aw_evaluated aw)\<rparr>)"
| finished: "admission_run sha256 authorize into_policy aw \<Longrightarrow>
    coordinator_finish key rid commit (aw_coordinator aw) (aw_gate aw) = (done :: 's admission_status + unit, co, gate) \<Longrightarrow>
    admission_run sha256 authorize into_policy (aw\<lparr>aw_coordinator := co, aw_gate := gate\<rparr>)"
| reloaded: "admission_run sha256 authorize into_policy aw \<Longrightarrow> i32_option next \<Longrightarrow>
    admission_run sha256 authorize into_policy (aw\<lparr>aw_gate := replace_policy next (aw_gate aw)\<rparr>)"

section \<open>No reservation is lost\<close>

definition gate_ok :: "quota_gate \<Rightarrow> bool" where
  "gate_ok gate \<longleftrightarrow> store_ok (qg_store gate) \<and> i32_option (qg_policy gate)"

definition registry_held :: "'x admission_coordinator \<Rightarrow> quota_reservation set" where
  "registry_held co = {r. \<exists>key p. p \<in> set (queue_of key co) \<and> tx_reservation (pra_transaction p) = Some r}"

definition evaluated_held :: "(envelope_key \<times> 64 word \<times> ('s admission_status + runtime_reservation \<times> 'p)) list \<Rightarrow> quota_reservation set" where
  "evaluated_held es = {r. \<exists>key rid policy. (key, rid, Inr (Some r, policy)) \<in> set es}"

definition held_reservations :: "('x, 's, 'p) admission_world \<Rightarrow> quota_reservation set" where
  "held_reservations aw = registry_held (aw_coordinator aw) \<union> evaluated_held (aw_evaluated aw)"

fun result_reservation :: "'s admission_status + runtime_reservation \<times> 'p \<Rightarrow> runtime_reservation" where
  "result_reservation (Inl _) = None"
| "result_reservation (Inr (r, _)) = r"

lemma drop_reservation_ok: "store_ok st \<Longrightarrow> store_ok (drop_reservation r st)"
  by (simp add: drop_reservation_def finish_ok)

lemma commit_reservation_ok: "store_ok st \<Longrightarrow> store_ok (commit_reservation r st)"
  by (simp add: commit_reservation_def finish_ok)

lemma drop_runtime_ok: "gate_ok gate \<Longrightarrow> gate_ok (drop_runtime r gate)"
  by (simp add: gate_ok_def drop_runtime_def drop_reservation_ok split: option.split)

lemma commit_runtime_ok: "gate_ok gate \<Longrightarrow> gate_ok (commit_runtime r gate)"
  by (simp add: gate_ok_def commit_runtime_def commit_reservation_ok split: option.split)

lemma drop_runtime_backed:
  "backed (set_option r \<union> held) (qg_store gate) \<Longrightarrow> backed held (qg_store (drop_runtime r gate))"
  by (cases r) (simp_all add: drop_runtime_def drop_backed)

lemma commit_runtime_backed:
  "backed (set_option r \<union> held) (qg_store gate) \<Longrightarrow> backed held (qg_store (commit_runtime r gate))"
  by (cases r) (simp_all add: commit_runtime_def commit_backed)

lemma decision_effect:
  assumes "runtime_admission_decision into_policy authority r gate = (result, gate')" "gate_ok gate"
    and "backed (set_option r \<union> held) (qg_store gate)"
  shows "gate_ok gate' \<and> backed (set_option (result_reservation result) \<union> held) (qg_store gate')"
  using assms drop_runtime_backed [OF assms(3)]
  by (auto simp: runtime_admission_decision_def drop_runtime_ok split: sum.splits)

lemma gate_reserve_effect:
  assumes "gate_reserve sha256 c a now gate = (r, gate')" "gate_ok gate" "backed held (qg_store gate)"
    and "qs_next_reservation_id (qg_store gate) \<noteq> - 1"
  shows "gate_ok gate' \<and> backed (set_option r \<union> held) (qg_store gate')"
    and "r = Some q \<Longrightarrow> qr_store q \<Longrightarrow> qd_allowed (qr_decision q)"
proof -
  show "gate_ok gate' \<and> backed (set_option r \<union> held) (qg_store gate')"
  proof (cases "\<exists>policy. qg_policy gate = Some policy \<and> 0 < cap_for policy c")
    case False
    with assms show ?thesis by (auto simp: gate_reserve_def Let_def split: option.splits if_splits)
  next
    case True
    then obtain policy where policy: "qg_policy gate = Some policy" "0 < cap_for policy c" by blast
    then obtain q st where q: "store_reserve sha256 c a (cap_for policy c) (qc_window_ms policy) now (qg_store gate) = (q, st)"
      "r = Some q" "gate' = gate\<lparr>qg_store := st\<rparr>"
      using assms(1) by (auto simp: gate_reserve_def Let_def split: prod.splits)
    have cap: "cap_for policy c \<le> I32_MAX" and ok: "store_ok (qg_store gate)"
      using assms(2) policy(1) by (simp_all add: gate_ok_def i32_option_def cap_for_i32)
    with reserve_ok [OF ok cap assms(4), of sha256 c a "qc_window_ms policy" now] reserve_backed [OF ok assms(3) q(1)] q assms(2)
    show ?thesis by (simp add: gate_ok_def)
  qed
  show "r = Some q \<Longrightarrow> qr_store q \<Longrightarrow> qd_allowed (qr_decision q)"
    using assms(1,2) store_active_allowed [of "qg_store gate" sha256 c a]
    by (auto simp: gate_reserve_def gate_ok_def Let_def split: option.splits if_splits prod.splits)
qed

lemma reserve_runtime_effect:
  assumes "reserve_runtime_admission sha256 authorize into_policy now input gate = (result, gate')" "gate_ok gate"
    and "backed held (qg_store gate)" "qs_next_reservation_id (qg_store gate) \<noteq> - 1"
  shows "gate_ok gate' \<and> backed (set_option (result_reservation result) \<union> held) (qg_store gate')"
proof (cases "authorize input")
  case (Inl e)
  with assms show ?thesis by (auto simp: reserve_runtime_admission_def)
next
  case (Inr v)
  obtain authority metered where v: "v = (authority, metered)" by fastforce
  obtain r gate1 where r: "gate_reserve sha256 (rai_caller_ura input) (rai_ability input) now gate = (r, gate1)" by fastforce
  note effect = gate_reserve_effect(1) [OF r assms(2-4)] and active = gate_reserve_effect(2) [OF r assms(2-4)]
  show ?thesis
  proof (cases "\<not> metered \<or> \<not> rai_rpc input \<or> \<not> quota_meters_function (rai_ability input)")
    case True
    with Inr v assms show ?thesis
      by (intro decision_effect [where r = None and gate = gate]) (auto simp: reserve_runtime_admission_def)
  next
    case metered: False
    show ?thesis
    proof (cases "\<exists>q. r = Some q \<and> \<not> qd_allowed (qr_decision q)")
      case True
      then obtain q where q: "r = Some q" "\<not> qd_allowed (qr_decision q)" by blast
      with active [of q] have "\<not> qr_store q" by blast
      with q effect r metered Inr v assms(1) show ?thesis
        by (auto simp: reserve_runtime_admission_def drop_runtime_def drop_reservation_def intro: backed_inactive)
    next
      case False
      with r metered Inr v assms(1) have "runtime_admission_decision into_policy authority r gate1 = (result, gate')"
        by (auto simp: reserve_runtime_admission_def split: option.splits)
      with effect show ?thesis by (intro decision_effect) auto
    qed
  qed
qed

text \<open>What the operations do to the queues.\<close>

lemma queue_update:
  "queue_of k (co\<lparr>ac_by_envelope := AList.update key q (ac_by_envelope co)\<rparr>) = (if k = key then q else queue_of k co)"
  by (simp add: queue_of_def update_conv')

lemma find_split:
  assumes "find P q = Some p"
  obtains bef aft where "q = bef @ p # aft" "P p" "update_first P f q = bef @ f p # aft"
proof -
  from assms have "\<exists>bef aft. q = bef @ p # aft \<and> P p \<and> update_first P f q = bef @ f p # aft"
  proof (induction q)
    case (Cons x q)
    show ?case
    proof (cases "P x")
      case True
      with Cons.prems show ?thesis by (intro exI [of _ "[]"] exI [of _ q]) simp
    next
      case False
      with Cons obtain bef aft where "q = bef @ p # aft" "P p" "update_first P f q = bef @ f p # aft" by auto
      with False show ?thesis by (intro exI [of _ "x # bef"] exI [of _ aft]) simp
    qed
  qed simp
  with that show thesis by blast
qed

definition replaces ::
  "envelope_key \<Rightarrow> 'x pending_runtime_admission \<Rightarrow> 'x pending_runtime_admission list \<Rightarrow> 'x admission_coordinator \<Rightarrow> 'x admission_coordinator \<Rightarrow> bool" where
  "replaces key p new co co' \<longleftrightarrow>
     (\<exists>bef aft. queue_of key co = bef @ p # aft \<and> queue_of key co' = bef @ new @ aft) \<and>
     (\<forall>k. k \<noteq> key \<longrightarrow> queue_of k co' = queue_of k co) \<and> ac_next_id co' = ac_next_id co"

lemma stage_effect:
  assumes "stage_canonical key input co = (lease, co')"
  shows "ac_next_id co' = ac_next_id co + 1 \<and>
    (queue_of k co' = queue_of k co \<or>
     k = key \<and> queue_of k co' = queue_of k co @ [\<lparr>pra_id = ac_next_id co, pra_input = input, pra_transaction = Staged\<rparr>])"
  using assms by (auto simp: stage_canonical_def Let_def queue_of_def update_conv' split: if_splits)

lemma select_effect:
  assumes "select_staged key co = (Inr (rid, input), co')"
  obtains p where "pra_id p = rid" "pra_input p = input" "replaces key p [p\<lparr>pra_transaction := Evaluating\<rparr>] co co'" "pra_transaction p = Staged"
proof -
  from assms obtain q p where q: "map_of (ac_by_envelope co) key = Some q" "find (\<lambda>p. is_staged (pra_transaction p)) q = Some p"
    and p: "pra_id p = rid" "pra_input p = input" "pra_transaction p = Staged"
    and co': "co' = co\<lparr>ac_by_envelope := AList.update key
        (update_first (\<lambda>p. is_staged (pra_transaction p)) (\<lambda>p. p\<lparr>pra_transaction := Evaluating\<rparr>) q) (ac_by_envelope co)\<rparr>"
    by (auto simp: select_staged_def begin_evaluation_def split: option.splits sum.splits admission_transaction.splits)
  obtain bef aft where "q = bef @ p # aft" "is_staged (pra_transaction p)"
    "update_first (\<lambda>p. is_staged (pra_transaction p)) (\<lambda>p. p\<lparr>pra_transaction := Evaluating\<rparr>) q = bef @ p\<lparr>pra_transaction := Evaluating\<rparr> # aft"
    by (rule find_split [OF q(2), of "\<lambda>p. p\<lparr>pra_transaction := Evaluating\<rparr>"]) (rule that)
  with q(1) co' have "replaces key p [p\<lparr>pra_transaction := Evaluating\<rparr>] co co'"
    by (auto simp: replaces_def queue_update) (auto simp: queue_of_def)
  with p that show thesis by blast
qed

fun concluded_tx :: "'s admission_status + runtime_reservation \<times> 'p \<Rightarrow> runtime_reservation admission_transaction" where
  "concluded_tx (Inl _) = Denied"
| "concluded_tx (Inr (r, _)) = Reserved r"

lemma conclude_effect:
  assumes "conclude key rid result co gate = (answer, co', gate')"
  obtains "co' = co" "gate' = drop_runtime (result_reservation result) gate"
    | p where "pra_id p = rid" "pra_transaction p = Evaluating" "gate' = gate"
        "replaces key p [p\<lparr>pra_transaction := concluded_tx result\<rparr>] co co'"
proof (cases "map_of (ac_by_envelope co) key")
  case None
  with assms show thesis by (intro that(1)) (auto simp: conclude_def Let_def drop_runtime_def split: sum.splits)
next
  case (Some q)
  show thesis
  proof (cases "find (\<lambda>p. pra_id p = rid) q")
    case None
    with Some assms show thesis by (intro that(1)) (auto simp: conclude_def Let_def drop_runtime_def split: sum.splits)
  next
    case p: (Some p)
    show thesis
    proof (cases "phase (pra_transaction p) = PhaseEvaluating")
      case False
      with Some p assms show thesis
        by (intro that(1)) (auto simp: conclude_def Let_def drop_runtime_def tx_reserve_def tx_deny_def result_simps split: sum.splits)
    next
      case True
      then have tx: "pra_transaction p = Evaluating" by (cases "pra_transaction p") simp_all
      obtain bef aft where split: "q = bef @ p # aft" "pra_id p = rid"
        "update_first (\<lambda>p. pra_id p = rid) (\<lambda>p. p\<lparr>pra_transaction := concluded_tx result\<rparr>) q =
           bef @ p\<lparr>pra_transaction := concluded_tx result\<rparr> # aft"
        by (rule find_split [OF p, of "\<lambda>p. p\<lparr>pra_transaction := concluded_tx result\<rparr>"]) (rule that)
      have co': "co' = co\<lparr>ac_by_envelope := AList.update key
          (update_first (\<lambda>p. pra_id p = rid) (\<lambda>p. p\<lparr>pra_transaction := concluded_tx result\<rparr>) q) (ac_by_envelope co)\<rparr>" "gate' = gate"
        using Some p tx assms by (cases result; auto simp: conclude_def tx_reserve_def tx_deny_def result_simps)+
      have "replaces key p [p\<lparr>pra_transaction := concluded_tx result\<rparr>] co co'"
        using Some split by (auto simp: co' replaces_def queue_update) (auto simp: queue_of_def)
      with split(2) tx co'(2) show thesis by (intro that(2))
    qed
  qed
qed

lemma finish_effect:
  assumes "coordinator_finish key rid commit co gate = (answer, co', gate')"
  obtains e where "co' = co" "gate' = gate" "answer = Inl e"
    | p where "pra_id p = rid" "replaces key p [] co co'" "\<not> commit" "gate' = drop_runtime (tx_reservation (pra_transaction p)) gate"
    | p r where "pra_id p = rid" "replaces key p [] co co'" "commit" "pra_transaction p = Reserved r" "gate' = commit_runtime r gate" "answer = Inr ()"
    | p e where "pra_id p = rid" "replaces key p [] co co'" "commit" "tx_reservation (pra_transaction p) = None" "gate' = gate" "answer = Inl e"
proof (cases "map_of (ac_by_envelope co) key")
  case None
  with assms show thesis by (intro that(1)) (auto simp: coordinator_finish_def)
next
  case (Some q)
  show thesis
  proof (cases "List.extract (\<lambda>p. pra_id p = rid) q")
    case None
    with Some assms show thesis by (intro that(1)) (auto simp: coordinator_finish_def)
  next
    case ext: (Some t)
    obtain bef p aft where t: "t = (bef, p, aft)" by (cases t) auto
    with ext have q: "q = bef @ p # aft" "pra_id p = rid" by (auto simp: extract_Some_iff)
    have co': "co' = co\<lparr>ac_by_envelope := (if bef @ aft = [] then AList.delete key (ac_by_envelope co)
        else AList.update key (bef @ aft) (ac_by_envelope co)), ac_len := ac_len co - 1\<rparr>"
      using Some ext t assms by (cases commit; cases "pra_transaction p") (auto simp: coordinator_finish_def tx_finish_def Let_def)
    have "queue_of key co = bef @ p # aft" "queue_of key co' = bef @ aft" "\<forall>k. k \<noteq> key \<longrightarrow> queue_of k co' = queue_of k co"
      using Some q(1) by (simp_all add: queue_of_def co' update_conv' delete_conv' restrict_map_def)
    then have rep: "replaces key p [] co co'"
      unfolding replaces_def by (intro conjI exI [of _ bef] exI [of _ aft]) (simp_all add: co')
    note eq = assms [unfolded coordinator_finish_def Some ext t option.case prod.case Let_def]
    show thesis
    proof (cases commit)
      case False
      with eq have "gate' = drop_runtime (tx_reservation (pra_transaction p)) gate" by (simp add: tx_finish_def)
      with False rep q(2) show thesis by (intro that(2))
    next
      case commit: True
      show thesis
      proof (cases "\<exists>r. pra_transaction p = Reserved r")
        case True
        then obtain r where r: "pra_transaction p = Reserved r" by blast
        with eq commit have "gate' = commit_runtime r gate" "answer = Inr ()" by (simp_all add: tx_finish_def)
        with commit rep q(2) r show thesis by (intro that(3))
      next
        case False
        then have none: "tx_reservation (pra_transaction p) = None" by (cases "pra_transaction p") auto
        from False have "gate' = gate \<and> (\<exists>e. answer = Inl e)"
          using eq commit by (cases "pra_transaction p") (auto simp: tx_finish_def)
        then obtain e where "gate' = gate" "answer = Inl e" by blast
        with commit rep q(2) none show thesis by (intro that(4))
      qed
    qed
  qed
qed

text \<open>What the registry and the verdicts hold, through each operation.\<close>

lemma replaces_held:
  assumes "replaces key p new co co'"
  shows "registry_held co \<subseteq> set_option (tx_reservation (pra_transaction p)) \<union> registry_held co'"
    "q \<in> set new \<Longrightarrow> set_option (tx_reservation (pra_transaction q)) \<subseteq> registry_held co'"
proof -
  from assms obtain bef aft where q: "queue_of key co = bef @ p # aft" "queue_of key co' = bef @ new @ aft"
    "\<And>k. k \<noteq> key \<Longrightarrow> queue_of k co' = queue_of k co" by (auto simp: replaces_def)
  show "registry_held co \<subseteq> set_option (tx_reservation (pra_transaction p)) \<union> registry_held co'"
  proof
    fix r
    assume "r \<in> registry_held co"
    then obtain k u where u: "u \<in> set (queue_of k co)" "tx_reservation (pra_transaction u) = Some r" by (auto simp: registry_held_def)
    show "r \<in> set_option (tx_reservation (pra_transaction p)) \<union> registry_held co'"
    proof (cases "u = p")
      case True
      with u(2) show ?thesis by simp
    next
      case False
      with u(1) q have "u \<in> set (queue_of k co')" by (cases "k = key") auto
      with u(2) show ?thesis by (auto simp: registry_held_def)
    qed
  qed
  show "q \<in> set new \<Longrightarrow> set_option (tx_reservation (pra_transaction q)) \<subseteq> registry_held co'"
    using q(2) by (auto simp: registry_held_def intro!: exI [of _ key])
qed

lemma evaluated_removed:
  "evaluated_held es \<subseteq> set_option (result_reservation result) \<union> evaluated_held (remove1 (key, rid, result) es)"
proof
  fix r
  assume "r \<in> evaluated_held es"
  then obtain k i policy where e: "(k, i, Inr (Some r, policy)) \<in> set es" by (auto simp: evaluated_held_def)
  show "r \<in> set_option (result_reservation result) \<union> evaluated_held (remove1 (key, rid, result) es)"
  proof (cases "(k, i, Inr (Some r, policy)) = (key, rid, result)")
    case True
    then show ?thesis by auto
  next
    case False
    with e have "(k, i, Inr (Some r, policy)) \<in> set (remove1 (key, rid, result) es)" by simp
    then show ?thesis by (auto simp: evaluated_held_def)
  qed
qed

lemma evaluated_added: "evaluated_held (es @ [(key, rid, result)]) = set_option (result_reservation result) \<union> evaluated_held es"
  by (cases result rule: result_reservation.cases) (auto simp: evaluated_held_def)

definition reservations_ok :: "('x, 's, 'p) admission_world \<Rightarrow> bool" where
  "reservations_ok aw \<longleftrightarrow> gate_ok (aw_gate aw) \<and> backed (held_reservations aw) (qg_store (aw_gate aw))"

lemma conclude_reservations:
  assumes "reservations_ok aw" "conclude key rid result (aw_coordinator aw) (aw_gate aw) = (answer, co, gate)"
  shows "reservations_ok (aw\<lparr>aw_coordinator := co, aw_gate := gate, aw_evaluated := remove1 (key, rid, result) (aw_evaluated aw)\<rparr>)"
proof -
  let ?es = "remove1 (key, rid, result) (aw_evaluated aw)"
  have gate: "gate_ok (aw_gate aw)" and backed: "backed (registry_held (aw_coordinator aw) \<union> evaluated_held (aw_evaluated aw)) (qg_store (aw_gate aw))"
    using assms(1) by (simp_all add: reservations_ok_def held_reservations_def)
  note removed = evaluated_removed [of "aw_evaluated aw" result key rid]
  from assms(2) show ?thesis
  proof (rule conclude_effect)
    assume "co = aw_coordinator aw" "gate = drop_runtime (result_reservation result) (aw_gate aw)"
    moreover have "backed (set_option (result_reservation result) \<union> (registry_held (aw_coordinator aw) \<union> evaluated_held ?es)) (qg_store (aw_gate aw))"
      by (rule backed_mono [OF backed]) (use removed in blast)
    ultimately show ?thesis using gate by (simp add: reservations_ok_def held_reservations_def drop_runtime_ok drop_runtime_backed)
  next
    fix p
    assume p: "pra_transaction p = Evaluating" "gate = aw_gate aw" "replaces key p [p\<lparr>pra_transaction := concluded_tx result\<rparr>] (aw_coordinator aw) co"
    have "set_option (result_reservation result) \<subseteq> registry_held co"
      using replaces_held(2) [OF p(3), of "p\<lparr>pra_transaction := concluded_tx result\<rparr>"] by (cases result rule: result_reservation.cases) simp_all
    with replaces_held(1) [OF p(3)] p(1) removed
    have "registry_held (aw_coordinator aw) \<union> evaluated_held (aw_evaluated aw) \<subseteq> registry_held co \<union> evaluated_held ?es" by auto
    from backed_mono [OF backed this] gate p(2) show ?thesis by (simp add: reservations_ok_def held_reservations_def)
  qed
qed

lemma finish_reservations:
  assumes "reservations_ok aw" "coordinator_finish key rid commit (aw_coordinator aw) (aw_gate aw) = (answer, co, gate)"
  shows "reservations_ok (aw\<lparr>aw_coordinator := co, aw_gate := gate\<rparr>)"
proof -
  let ?e = "evaluated_held (aw_evaluated aw)"
  have gate: "gate_ok (aw_gate aw)" and backed: "backed (registry_held (aw_coordinator aw) \<union> ?e) (qg_store (aw_gate aw))"
    using assms(1) by (simp_all add: reservations_ok_def held_reservations_def)
  have removed: "backed (set_option (tx_reservation (pra_transaction p)) \<union> (registry_held co \<union> ?e)) (qg_store (aw_gate aw))"
    if "replaces key p [] (aw_coordinator aw) co" for p
    by (rule backed_mono [OF backed]) (use replaces_held(1) [OF that] in blast)
  from assms(2) show ?thesis
  proof (rule finish_effect)
    assume "co = aw_coordinator aw" "gate = aw_gate aw"
    with assms(1) show ?thesis by (simp add: reservations_ok_def held_reservations_def)
  next
    fix p
    assume p: "replaces key p [] (aw_coordinator aw) co" "gate = drop_runtime (tx_reservation (pra_transaction p)) (aw_gate aw)"
    with gate drop_runtime_backed [OF removed [OF p(1)]] show ?thesis
      by (simp add: reservations_ok_def held_reservations_def drop_runtime_ok)
  next
    fix p r
    assume p: "replaces key p [] (aw_coordinator aw) co" "pra_transaction p = Reserved r" "gate = commit_runtime r (aw_gate aw)"
    with gate commit_runtime_backed [of r] removed [OF p(1)] show ?thesis
      by (simp add: reservations_ok_def held_reservations_def commit_runtime_ok)
  next
    fix p
    assume p: "replaces key p [] (aw_coordinator aw) co" "tx_reservation (pra_transaction p) = None" "gate = aw_gate aw"
    with gate removed [OF p(1)] show ?thesis by (simp add: reservations_ok_def held_reservations_def)
  qed
qed

lemma run_reservations: "admission_run sha256 authorize into_policy aw \<Longrightarrow> reservations_ok aw"
proof (induction rule: admission_run.induct)
  case (started policy)
  then show ?case
    by (simp add: reservations_ok_def admission_start_def from_policy_def gate_ok_def store_ok_def backed_def quota_store_new_def)
next
  case (staged aw key input lease co)
  have "set (queue_of k (aw_coordinator aw)) \<subseteq> set (queue_of k co)" for k
    using stage_effect [OF staged.hyps(3), of k] by auto
  then have "registry_held (aw_coordinator aw) \<subseteq> registry_held co" unfolding registry_held_def by blast
  with staged.IH show ?case
    by (auto simp: reservations_ok_def held_reservations_def elim!: backed_mono)
next
  case (selected aw key rid input co)
  from selected.hyps(2) obtain p where p: "replaces key p [p\<lparr>pra_transaction := Evaluating\<rparr>] (aw_coordinator aw) co" "pra_transaction p = Staged"
    by (rule select_effect)
  from replaces_held(1) [OF p(1)] p(2) selected.IH show ?case
    by (auto simp: reservations_ok_def held_reservations_def elim!: backed_mono)
next
  case (evaluated aw key rid input now_ms result gate)
  then have "gate_ok gate \<and> backed (set_option (result_reservation result) \<union> held_reservations aw) (qg_store gate)"
    by (intro reserve_runtime_effect) (auto simp: reservations_ok_def)
  then show ?case by (simp add: reservations_ok_def held_reservations_def evaluated_added Un_left_commute)
next
  case (concluded aw key rid result answer co gate)
  then show ?case by (intro conclude_reservations)
next
  case (finished aw key rid commit answer co gate)
  then show ?case by (intro finish_reservations)
next
  case (reloaded aw policy)
  then show ?case
    by (auto simp: reservations_ok_def replace_policy_def gate_ok_def held_reservations_def store_clear_def store_ok_def backed_def Let_def)
qed

section \<open>Nothing commits without a verdict\<close>

definition authorized :: "('x runtime_admission_input \<Rightarrow> 's + 'a \<times> bool) \<Rightarrow> ('a \<Rightarrow> 's + 'p) \<Rightarrow> 'x runtime_admission_input \<Rightarrow> bool" where
  "authorized authorize into_policy input \<longleftrightarrow>
     (case authorize input of
        Inl _ \<Rightarrow> False
      | Inr (authority, _) \<Rightarrow> (case into_policy authority of Inl _ \<Rightarrow> False | Inr _ \<Rightarrow> True))"

definition queues_ok :: "('x runtime_admission_input \<Rightarrow> bool) \<Rightarrow> 'x admission_coordinator \<Rightarrow> bool" where
  "queues_ok auth co \<longleftrightarrow>
     (\<forall>k. distinct (map pra_id (queue_of k co))) \<and>
     (\<forall>k p. p \<in> set (queue_of k co) \<longrightarrow> pra_id p < ac_next_id co \<and> (\<forall>r. pra_transaction p = Reserved r \<longrightarrow> auth (pra_input p)))"

text \<open>What a thread knows of an id holds of the entry with that id, if it is still there.\<close>

definition knows :: "('x runtime_admission_input \<Rightarrow> bool) \<Rightarrow> envelope_key \<Rightarrow> 64 word \<Rightarrow> 'x admission_coordinator \<Rightarrow> bool" where
  "knows known key rid co \<longleftrightarrow>
     rid < ac_next_id co \<and> (\<forall>p \<in> set (queue_of key co). pra_id p = rid \<longrightarrow> known (pra_input p))"

definition verdicts_ok :: "('x runtime_admission_input \<Rightarrow> bool) \<Rightarrow> ('x, 's, 'p) admission_world \<Rightarrow> bool" where
  "verdicts_ok auth aw \<longleftrightarrow>
     queues_ok auth (aw_coordinator aw) \<and>
     (\<forall>(key, rid, input) \<in> set (aw_selected aw). knows (\<lambda>i. i = input) key rid (aw_coordinator aw)) \<and>
     (\<forall>(key, rid, result) \<in> set (aw_evaluated aw). \<forall>v. result = Inr v \<longrightarrow> knows auth key rid (aw_coordinator aw))"

lemma less_next_word:
  assumes "(n :: 64 word) \<noteq> - 1"
  shows "i < n + 1 \<longleftrightarrow> i < n \<or> i = n"
proof -
  have "unat (n + 1) = Suc (unat n)" using assms unatSuc [of n] by (simp add: add.commute eq_neg_iff_add_eq_0)
  then show ?thesis by (simp add: word_less_nat_alt less_Suc_eq word_unat_eq_iff)
qed

lemma stage_ok:
  assumes "stage_canonical key input co = (lease, co')" "ac_next_id co \<noteq> - 1"
  shows "queues_ok auth co \<Longrightarrow> queues_ok auth co'" "knows known k rid co \<Longrightarrow> knows known k rid co'"
proof -
  note nxt = stage_effect [OF assms(1), THEN conjunct1]
  note queue = stage_effect [OF assms(1), THEN conjunct2]
  have member: "p \<in> set (queue_of k co') \<Longrightarrow> p \<in> set (queue_of k co) \<or> pra_id p = ac_next_id co \<and> pra_transaction p = Staged" for p k
    using queue [of k] by auto
  have less: "i < ac_next_id co \<Longrightarrow> i < ac_next_id co'" "ac_next_id co < ac_next_id co'" for i
    unfolding nxt by (simp_all add: less_next_word [OF assms(2)])
  show "knows known k rid co \<Longrightarrow> knows known k rid co'"
    using member [of _ k] less by (fastforce simp: knows_def)
  assume ok: "queues_ok auth co"
  have "distinct (map pra_id (queue_of k co'))" for k
  proof -
    have "ac_next_id co \<notin> pra_id ` set (queue_of k co)" using ok unfolding queues_ok_def by (metis imageE less_irrefl)
    moreover have "distinct (map pra_id (queue_of k co))" using ok by (simp add: queues_ok_def)
    ultimately show ?thesis using queue [of k] by (elim disjE conjE) simp_all
  qed
  moreover have "pra_id p < ac_next_id co' \<and> (\<forall>r. pra_transaction p = Reserved r \<longrightarrow> auth (pra_input p))" if "p \<in> set (queue_of k co')" for p k
    using member [OF that] ok less by (auto simp: queues_ok_def)
  ultimately show "queues_ok auth co'" by (simp add: queues_ok_def)
qed

lemma replaces_ok:
  assumes "replaces key p new co co'" "new = [p\<lparr>pra_transaction := tx\<rparr>] \<or> new = []"
  shows "queues_ok auth co \<Longrightarrow> (\<And>r. tx = Reserved r \<Longrightarrow> auth (pra_input p)) \<Longrightarrow> queues_ok auth co'"
    "knows known k rid co \<Longrightarrow> knows known k rid co'"
proof -
  from assms(1) obtain bef aft where q: "queue_of key co = bef @ p # aft" "queue_of key co' = bef @ new @ aft"
    "\<And>k. k \<noteq> key \<Longrightarrow> queue_of k co' = queue_of k co" and nxt: "ac_next_id co' = ac_next_id co" by (auto simp: replaces_def)
  have member: "\<exists>v \<in> set (queue_of k co). pra_id v = pra_id u \<and> pra_input v = pra_input u \<and>
      (pra_transaction u = pra_transaction v \<or> v = p \<and> pra_transaction u = tx)" if "u \<in> set (queue_of k co')" for u k
    using that q assms(2) by (cases "k = key") auto
  show "knows known k rid co \<Longrightarrow> knows known k rid co'"
    using member [of _ k] nxt unfolding knows_def by metis
  assume ok: "queues_ok auth co" and auth: "\<And>r. tx = Reserved r \<Longrightarrow> auth (pra_input p)"
  have "distinct (map pra_id (queue_of k co'))" for k
  proof (cases "k = key")
    case True
    from ok have "distinct (map pra_id (queue_of key co))" by (simp add: queues_ok_def)
    with q(1,2) assms(2) True show ?thesis by (elim disjE) simp_all
  next
    case False
    with ok q(3) show ?thesis by (simp add: queues_ok_def)
  qed
  moreover have "pra_id u < ac_next_id co' \<and> (\<forall>r. pra_transaction u = Reserved r \<longrightarrow> auth (pra_input u))" if "u \<in> set (queue_of k co')" for u k
  proof -
    from member [OF that] obtain v where v: "v \<in> set (queue_of k co)" "pra_id v = pra_id u" "pra_input v = pra_input u"
      "pra_transaction u = pra_transaction v \<or> v = p \<and> pra_transaction u = tx" by blast
    from ok v(1) have "pra_id v < ac_next_id co" "\<forall>r. pra_transaction v = Reserved r \<longrightarrow> auth (pra_input v)" by (simp_all add: queues_ok_def)
    with v(2-4) nxt auth show ?thesis by metis
  qed
  ultimately show "queues_ok auth co'" by (simp add: queues_ok_def)
qed

lemma reserve_runtime_authorized:
  "reserve_runtime_admission sha256 authorize into_policy now input gate = (Inr v, gate') \<Longrightarrow> authorized authorize into_policy input"
  by (auto simp: reserve_runtime_admission_def runtime_admission_decision_def authorized_def
      split: sum.splits if_splits prod.splits option.splits)

lemma verdicts_okI:
  assumes "verdicts_ok auth aw" "queues_ok auth co" "\<And>known k rid. knows known k rid (aw_coordinator aw) \<Longrightarrow> knows known k rid co"
  shows "verdicts_ok auth (aw\<lparr>aw_coordinator := co\<rparr>)"
  using assms by (fastforce simp: verdicts_ok_def)

lemma selected_entry_unique:
  assumes "queues_ok auth co" "p \<in> set (queue_of key co)"
  shows "knows (\<lambda>i. i = pra_input p) key (pra_id p) co"
proof -
  from assms(1) have "distinct (map pra_id (queue_of key co))" by (simp add: queues_ok_def)
  with assms show ?thesis by (auto simp: knows_def queues_ok_def distinct_map dest: inj_onD)
qed

lemma run_verdicts: "admission_run sha256 authorize into_policy aw \<Longrightarrow> verdicts_ok (authorized authorize into_policy) aw"
proof (induction rule: admission_run.induct)
  case (started policy)
  show ?case by (simp add: verdicts_ok_def queues_ok_def admission_start_def queue_of_def)
next
  case (staged aw key input lease co)
  note stage = stage_ok [OF staged.hyps(3,2)]
  have "queues_ok (authorized authorize into_policy) co" using staged.IH by (intro stage(1)) (simp add: verdicts_ok_def)
  with staged.IH stage(2) show ?case by (intro verdicts_okI)
next
  case (selected aw key rid input co)
  from selected.hyps(2) obtain p where p: "pra_id p = rid" "pra_input p = input"
    "replaces key p [p\<lparr>pra_transaction := Evaluating\<rparr>] (aw_coordinator aw) co" by (rule select_effect)
  note ok = replaces_ok [OF p(3), of Evaluating, simplified]
  have queues: "queues_ok (authorized authorize into_policy) (aw_coordinator aw)" using selected.IH by (simp add: verdicts_ok_def)
  have "p \<in> set (queue_of key (aw_coordinator aw))" using p(3) by (auto simp: replaces_def)
  from ok(2) [OF selected_entry_unique [OF queues this]] p(1,2) have "knows (\<lambda>i. i = input) key rid co" by simp
  moreover have "verdicts_ok (authorized authorize into_policy) (aw\<lparr>aw_coordinator := co\<rparr>)"
    using selected.IH ok(1) [OF queues] ok(2) by (intro verdicts_okI)
  ultimately show ?case by (simp add: verdicts_ok_def)
next
  case (evaluated aw key rid input now_ms result gate)
  have "knows (authorized authorize into_policy) key rid (aw_coordinator aw)" if "result = Inr v" for v
  proof -
    have "authorized authorize into_policy input" using reserve_runtime_authorized evaluated.hyps(4) that by blast
    moreover have "knows (\<lambda>i. i = input) key rid (aw_coordinator aw)" using evaluated by (fastforce simp: verdicts_ok_def)
    ultimately show ?thesis by (auto simp: knows_def)
  qed
  with evaluated.IH show ?case by (fastforce simp: verdicts_ok_def dest: subsetD [OF set_remove1_subset])
next
  case (concluded aw key rid result answer co gate)
  have queues: "queues_ok (authorized authorize into_policy) (aw_coordinator aw)" using concluded.IH by (simp add: verdicts_ok_def)
  have auth: "knows (authorized authorize into_policy) key rid (aw_coordinator aw)" if "result = Inr v" for v
    using concluded that by (fastforce simp: verdicts_ok_def)
  from concluded.hyps(3) have "verdicts_ok (authorized authorize into_policy) (aw\<lparr>aw_coordinator := co\<rparr>)"
  proof (rule conclude_effect)
    assume "co = aw_coordinator aw"
    with concluded.IH show ?thesis by simp
  next
    fix p
    assume p: "pra_id p = rid" "replaces key p [p\<lparr>pra_transaction := concluded_tx result\<rparr>] (aw_coordinator aw) co"
    note ok = replaces_ok [OF p(2), of "concluded_tx result", simplified]
    have "authorized authorize into_policy (pra_input p)" if "concluded_tx result = Reserved r" for r
    proof -
      from that obtain v where "result = Inr v" by (cases result) auto
      with auth p(2) show ?thesis by (auto simp: knows_def replaces_def p(1))
    qed
    then show ?thesis using concluded.IH ok queues by (intro verdicts_okI) auto
  qed
  then show ?case by (fastforce simp: verdicts_ok_def dest: subsetD [OF set_remove1_subset])
next
  case (finished aw key rid commit answer co gate)
  have queues: "queues_ok (authorized authorize into_policy) (aw_coordinator aw)" using finished.IH by (simp add: verdicts_ok_def)
  have removed: "verdicts_ok (authorized authorize into_policy) (aw\<lparr>aw_coordinator := co\<rparr>)" if "replaces key p [] (aw_coordinator aw) co" for p
    using finished.IH replaces_ok [OF that, of Staged] queues by (intro verdicts_okI) auto
  from finished.hyps(2) have "verdicts_ok (authorized authorize into_policy) (aw\<lparr>aw_coordinator := co\<rparr>)"
    by (rule finish_effect) (use finished.IH removed in simp_all)
  then show ?case by (simp add: verdicts_ok_def)
next
  case (reloaded aw policy)
  then show ?case by (simp add: verdicts_ok_def)
qed

section \<open>Properties\<close>

text \<open>C18: quota never leaks. In every interleaving of ingresses, verdicts, leases and policy reloads, a pending call
  of a quota window belongs to a reservation that a staged transaction holds or that a verdict is about to hand over.
  Once every lease has finished, by commit or by drop, no window has a pending call.\<close>

theorem admission_never_leaks_quota:
  assumes "admission_run sha256 authorize into_policy aw"
    and "map_of (qs_windows (qg_store (aw_gate aw))) k = Some w" "i \<in> ws_pending w"
  shows "\<exists>r. qr_key r = k \<and> qr_window_start_ms r = ws_window_start_ms w \<and> qr_reservation_id r = i \<and>
    ((\<exists>key p. p \<in> set (queue_of key (aw_coordinator aw)) \<and> pra_transaction p = Reserved (Some r)) \<or>
     (\<exists>key rid policy. (key, rid, Inr (Some r, policy)) \<in> set (aw_evaluated aw)))"
proof -
  from run_reservations [OF assms(1)] assms(2,3) obtain r where
    r: "r \<in> held_reservations aw" "qr_key r = k" "qr_window_start_ms r = ws_window_start_ms w" "qr_reservation_id r = i"
    unfolding reservations_ok_def backed_def by blast
  have tx: "tx_reservation t = Some r \<longleftrightarrow> t = Reserved (Some r)" for t by (cases t) auto
  from r show ?thesis by (auto simp: held_reservations_def registry_held_def evaluated_held_def tx)
qed

text \<open>C17: a lease commits only what was admitted. When the commit of a lease succeeds, the entry of its id had been
  authorized by the policy, its transaction held a reservation, and exactly this reservation is committed.\<close>

theorem admission_commits_authorized:
  assumes "admission_run sha256 authorize into_policy aw"
    and "coordinator_finish key rid True (aw_coordinator aw) (aw_gate aw) = (Inr (), co, gate)"
  shows "\<exists>p r. p \<in> set (queue_of key (aw_coordinator aw)) \<and> pra_id p = rid \<and> authorized authorize into_policy (pra_input p) \<and>
    pra_transaction p = Reserved r \<and> gate = commit_runtime r (aw_gate aw)"
proof -
  from run_verdicts [OF assms(1)] have queues: "queues_ok (authorized authorize into_policy) (aw_coordinator aw)" by (simp add: verdicts_ok_def)
  from assms(2) show ?thesis
  proof (rule finish_effect)
    fix p r
    assume p: "pra_id p = rid" "replaces key p [] (aw_coordinator aw) co" "pra_transaction p = Reserved r" "gate = commit_runtime r (aw_gate aw)"
    have mem: "p \<in> set (queue_of key (aw_coordinator aw))" using p(2) by (auto simp: replaces_def)
    with queues p(3) have "authorized authorize into_policy (pra_input p)" by (auto simp: queues_ok_def)
    with mem p show ?thesis by blast
  qed simp_all
qed

section \<open>One admission from ingress to commit\<close>

definition demo_ingress :: "unit runtime_admission_input" where
  "demo_ingress = \<lparr>rai_caller_ura = ''u'', rai_ability = ''f'', rai_rpc = True, rai_rest = ()\<rparr>"

definition demo_reservation :: quota_reservation where
  "demo_reservation =
     \<lparr>qr_store = True, qr_key = demo_key, qr_window_start_ms = 5, qr_reservation_id = 1,
      qr_decision = \<lparr>qd_allowed = True, qd_quota_remaining = 1, qd_quota_limit = 2, qd_reset_at_unix_ms = 1005,
        qd_retry_after_ms = 0, qd_deny_reason = None\<rparr>\<rparr>"

definition demo_coordinator :: "runtime_reservation admission_transaction \<Rightarrow> unit admission_coordinator" where
  "demo_coordinator tx =
     \<lparr>ac_by_envelope = [(''k'', [\<lparr>pra_id = 0, pra_input = demo_ingress, pra_transaction = tx\<rparr>])], ac_len = 1, ac_next_id = 1\<rparr>"

definition demo_world :: "(unit, unit, unit) admission_world" where
  "demo_world =
     \<lparr>aw_coordinator = demo_coordinator (Reserved (Some demo_reservation)), aw_gate = demo_gate, aw_selected = [], aw_evaluated = []\<rparr>"

abbreviation demo_authorize :: "unit runtime_admission_input \<Rightarrow> unit + unit \<times> bool" where
  "demo_authorize \<equiv> \<lambda>_. Inr ((), True)"

abbreviation demo_into_policy :: "unit \<Rightarrow> unit + unit" where
  "demo_into_policy \<equiv> \<lambda>_. Inr ()"

lemma demo_reserves:
  "reserve_runtime_admission (\<lambda>s. s) demo_authorize demo_into_policy 5 demo_ingress (from_policy (Some cap_policy)) =
     (Inr (Some demo_reservation, ()), demo_gate)"
proof -
  have "gate_reserve (\<lambda>s. s) ''u'' ''f'' 5 (from_policy (Some cap_policy)) = (Some demo_reservation, demo_gate)"
    by (simp add: from_policy_def demo_gate_def demo_window_def demo_reservation_def quota_eval demo_key_new Let_def)
  moreover have "quota_meters_function ''f''" by (simp add: quota_meters_function_def is_quota_exempt_system_ability_def)
  moreover have "qd_allowed (qr_decision demo_reservation)" by (simp add: demo_reservation_def)
  ultimately show ?thesis
    by (simp add: reserve_runtime_admission_def demo_ingress_def runtime_admission_decision_def)
qed

lemma demo_admission_run: "admission_run (\<lambda>s. s) demo_authorize demo_into_policy demo_world"
proof -
  let ?run = "admission_run (\<lambda>s. s) demo_authorize demo_into_policy"
  let ?w = "\<lambda>tx gate sel ev. \<lparr>aw_coordinator = demo_coordinator tx, aw_gate = gate, aw_selected = sel, aw_evaluated = ev\<rparr>"
  let ?gate = "from_policy (Some cap_policy)" and ?res = "Inr (Some demo_reservation, ())"
  have start: "?run (admission_start (Some cap_policy))" by (intro started) (simp add: i32_option_def demo_i32)
  have "stage_canonical ''k'' demo_ingress (aw_coordinator (admission_start (Some cap_policy))) = (Inr (''k'', 0) :: unit admission_status + _, demo_coordinator Staged)"
    by (simp add: stage_canonical_def admission_start_def MAX_PENDING_RUNTIME_ADMISSIONS_def demo_coordinator_def queue_of_def)
  from staged [OF start _ this] have s1: "?run (?w Staged ?gate [] [])" by (simp add: admission_start_def)
  have "select_staged ''k'' (demo_coordinator Staged) = (Inr (0, demo_ingress) :: unit admission_status + _, demo_coordinator Evaluating)"
    by (simp add: select_staged_def demo_coordinator_def is_staged_def begin_evaluation_def)
  with selected [OF s1, of "''k''" 0 demo_ingress] have s2: "?run (?w Evaluating ?gate [(''k'', 0, demo_ingress)] [])" by simp
  from evaluated [OF s2, of "''k''" 0 demo_ingress 5] demo_reserves have s3: "?run (?w Evaluating demo_gate [] [(''k'', 0, ?res)])"
    by (simp add: from_policy_def quota_store_new_def)
  have "conclude ''k'' 0 ?res (demo_coordinator Evaluating) demo_gate = (Inr (), demo_coordinator (Reserved (Some demo_reservation)), demo_gate)"
    by (simp add: conclude_def demo_coordinator_def tx_reserve_def result_simps)
  with concluded [OF s3, of "''k''" 0 ?res] show ?thesis by (simp add: demo_world_def)
qed

theorem admission_never_leaks_quota_witness:
  "map_of (qs_windows (qg_store (aw_gate demo_world))) demo_key = Some demo_window \<and>
   (\<exists>r. qr_key r = demo_key \<and> qr_window_start_ms r = 5 \<and> qr_reservation_id r = 1 \<and>
     ((\<exists>key p. p \<in> set (queue_of key (aw_coordinator demo_world)) \<and> pra_transaction p = Reserved (Some r)) \<or>
      (\<exists>key rid policy. (key, rid, Inr (Some r, policy)) \<in> set (aw_evaluated demo_world))))"
proof -
  have w: "map_of (qs_windows (qg_store (aw_gate demo_world))) demo_key = Some demo_window" "1 \<in> ws_pending demo_window" "ws_window_start_ms demo_window = 5"
    by (simp_all add: demo_world_def demo_gate_def demo_window_def)
  from admission_never_leaks_quota [OF demo_admission_run w(1,2)] w(1,3) show ?thesis by simp
qed

theorem admission_commits_authorized_witness:
  "\<exists>co gate. coordinator_finish ''k'' 0 True (aw_coordinator demo_world) (aw_gate demo_world) = (Inr () :: unit admission_status + unit, co, gate) \<and>
     gate = commit_runtime (Some demo_reservation) demo_gate \<and> authorized demo_authorize demo_into_policy demo_ingress"
proof -
  obtain co gate where fin: "coordinator_finish ''k'' 0 True (aw_coordinator demo_world) (aw_gate demo_world) = (Inr () :: unit admission_status + unit, co, gate)"
    by (simp add: coordinator_finish_def demo_world_def demo_coordinator_def extract_Cons_code tx_finish_def Let_def)
  from admission_commits_authorized [OF demo_admission_run fin] have
    "gate = commit_runtime (Some demo_reservation) demo_gate" "authorized demo_authorize demo_into_policy demo_ingress"
    by (auto simp: demo_world_def demo_coordinator_def queue_of_def split: if_splits)
  with fin show ?thesis by blast
qed

end
